(* ===== verification/Wire_Prelude.thy ===== *)
theory Wire_Prelude
  imports Main "HOL-Library.Sublist" "HOL-Library.List_Lexorder" "HOL-Library.Char_ord"
begin

text \<open>
  The prelude of the development. A Go string is the list of its bytes, so it is a
  \<^typ>\<open>string\<close> here and \<open>length\<close> is Go's \<open>len\<close>. The first part gives the functions of
  Go's package \<open>strings\<close> that the program calls, with Go's argument order, and the lemmas
  about them that the components share. The second part is the contract of a state machine:
  an invariant that holds at the start and is kept by every step holds in every reachable
  state.
\<close>

named_theorems go_strings \<open>characteristic facts about the string functions\<close>

section \<open>The string functions the program uses\<close>

definition has_prefix :: "'a list \<Rightarrow> 'a list \<Rightarrow> bool" where
  "has_prefix s p \<longleftrightarrow> take (length p) s = p"

definition has_suffix :: "'a list \<Rightarrow> 'a list \<Rightarrow> bool" where
  "has_suffix s p \<longleftrightarrow> length p \<le> length s \<and> drop (length s - length p) s = p"

definition trim_prefix :: "'a list \<Rightarrow> 'a list \<Rightarrow> 'a list" where
  "trim_prefix s p = (if has_prefix s p then drop (length p) s else s)"

definition trim_suffix :: "'a list \<Rightarrow> 'a list \<Rightarrow> 'a list" where
  "trim_suffix s p = (if has_suffix s p then take (length s - length p) s else s)"

text \<open>\<open>strings.Index\<close>: the first position of a substring; \<open>None\<close> is Go's \<open>-1\<close>.\<close>

fun str_index :: "'a list \<Rightarrow> 'a list \<Rightarrow> nat option" where
  "str_index [] sub = (if sub = [] then Some 0 else None)"
| "str_index (c # s) sub =
     (if has_prefix (c # s) sub then Some 0 else map_option Suc (str_index s sub))"

definition contains :: "'a list \<Rightarrow> 'a list \<Rightarrow> bool" where
  "contains s sub \<longleftrightarrow> str_index s sub \<noteq> None"

text \<open>\<open>strings.LastIndexByte\<close>.\<close>

fun last_index_byte :: "'a list \<Rightarrow> 'a \<Rightarrow> nat option" where
  "last_index_byte [] c = None"
| "last_index_byte (x # s) c =
     (case last_index_byte s c of
        Some i \<Rightarrow> Some (Suc i)
      | None \<Rightarrow> (if x = c then Some 0 else None))"

text \<open>\<open>strings.Split\<close> and \<open>strings.Join\<close> at a separator of one byte.\<close>

fun split_byte :: "'a list \<Rightarrow> 'a \<Rightarrow> 'a list list" where
  "split_byte [] c = [[]]"
| "split_byte (x # s) c =
     (if x = c then [] # split_byte s c
      else (case split_byte s c of [] \<Rightarrow> [[x]] | p # ps \<Rightarrow> (x # p) # ps))"

fun join_byte :: "'a list list \<Rightarrow> 'a \<Rightarrow> 'a list" where
  "join_byte [] c = []"
| "join_byte [p] c = p"
| "join_byte (p # q # ps) c = p @ c # join_byte (q # ps) c"

text \<open>
  \<open>strings.ReplaceAll\<close> for a non-empty \<open>old\<close>: the non-overlapping occurrences of \<open>old\<close>
  from the left. (Every call of the program guards or fixes \<open>old\<close> to be non-empty.)
\<close>

function replace_all :: "'a list \<Rightarrow> 'a list \<Rightarrow> 'a list \<Rightarrow> 'a list" where
  "replace_all [] old new = []"
| "replace_all (c # s) old new =
     (if old \<noteq> [] \<and> has_prefix (c # s) old
      then new @ replace_all (drop (length old - 1) s) old new
      else c # replace_all s old new)"
  by pat_completeness auto
termination
  by (relation "measure (\<lambda>(s, old, new). length s)") auto

text \<open>\<open>strings.TrimRight\<close> with a cutset of one byte.\<close>

definition trim_right_byte :: "'a list \<Rightarrow> 'a \<Rightarrow> 'a list" where
  "trim_right_byte s c = rev (dropWhile (\<lambda>x. x = c) (rev s))"

text \<open>
  \<open>strings.TrimSpace\<close>: Unicode white space, so the UTF-8 encodings of all of it.
  \<open>trim_left_any\<close> strips a prefix of the list as long as there is one.
\<close>

definition space_seqs :: "string list" where
  "space_seqs =
     [[CHR 0x09], [CHR 0x0A], [CHR 0x0B], [CHR 0x0C], [CHR 0x0D], [CHR 0x20],
      [CHR 0xC2, CHR 0x85], [CHR 0xC2, CHR 0xA0], [CHR 0xE1, CHR 0x9A, CHR 0x80],
      [CHR 0xE2, CHR 0x80, CHR 0x80], [CHR 0xE2, CHR 0x80, CHR 0x81],
      [CHR 0xE2, CHR 0x80, CHR 0x82], [CHR 0xE2, CHR 0x80, CHR 0x83],
      [CHR 0xE2, CHR 0x80, CHR 0x84], [CHR 0xE2, CHR 0x80, CHR 0x85],
      [CHR 0xE2, CHR 0x80, CHR 0x86], [CHR 0xE2, CHR 0x80, CHR 0x87],
      [CHR 0xE2, CHR 0x80, CHR 0x88], [CHR 0xE2, CHR 0x80, CHR 0x89],
      [CHR 0xE2, CHR 0x80, CHR 0x8A], [CHR 0xE2, CHR 0x80, CHR 0xA8],
      [CHR 0xE2, CHR 0x80, CHR 0xA9], [CHR 0xE2, CHR 0x80, CHR 0xAF],
      [CHR 0xE2, CHR 0x81, CHR 0x9F], [CHR 0xE3, CHR 0x80, CHR 0x80]]"

function trim_left_any :: "'a list \<Rightarrow> 'a list list \<Rightarrow> 'a list" where
  "trim_left_any s ps =
     (case find (\<lambda>p. p \<noteq> [] \<and> has_prefix s p) ps of
        None \<Rightarrow> s
      | Some p \<Rightarrow> trim_left_any (drop (length p) s) ps)"
  by pat_completeness auto
termination
proof (relation "measure (\<lambda>(s, ps). length s)")
  fix s :: "'a list" and ps p
  assume "find (\<lambda>p. p \<noteq> [] \<and> has_prefix s p) ps = Some p"
  then have "p \<noteq> []" and "has_prefix s p" by (auto simp: find_Some_iff)
  then have "s \<noteq> []" by (auto simp: has_prefix_def)
  with \<open>p \<noteq> []\<close> show "((drop (length p) s, ps), (s, ps)) \<in> measure (\<lambda>(s, ps). length s)"
    by simp
qed simp

declare trim_left_any.simps [simp del]

definition trim_space :: "string \<Rightarrow> string" where
  "trim_space s =
     (let l = trim_left_any s space_seqs
      in rev (trim_left_any (rev l) (map rev space_seqs)))"

text \<open>
  \<open>strings.ToLower\<close>. The program compares every lowered string with ASCII text only, so
  the bytes of a code point outside ASCII matter only where its lower case is ASCII: the
  Kelvin sign (\<open>k\<close>) and the dotted capital I (\<open>i\<close>). Other such bytes are kept.
\<close>

definition lower_byte :: "char \<Rightarrow> char" where
  "lower_byte c =
     (let n = of_char c :: nat in if 65 \<le> n \<and> n \<le> 90 then char_of (n + 32) else c)"

fun to_lower :: "string \<Rightarrow> string" where
  "to_lower [] = []"
| "to_lower (c # s) =
     (if has_prefix (c # s) [CHR 0xE2, CHR 0x84, CHR 0xAA] then CHR ''k'' # to_lower (drop 2 s)
      else if has_prefix (c # s) [CHR 0xC4, CHR 0xB0] then CHR ''i'' # to_lower (drop 1 s)
      else lower_byte c # to_lower s)"

section \<open>Lemmas about them\<close>

lemma has_prefix_iff [go_strings]: "has_prefix s p \<longleftrightarrow> (\<exists>t. s = p @ t)"
  by (metis append_eq_conv_conj append_take_drop_id has_prefix_def)

lemma has_prefix_append [simp]: "has_prefix (p @ s) p"
  by (simp add: has_prefix_def)

lemma has_prefix_Nil [simp]: "has_prefix s []"
  by (simp add: has_prefix_def)

lemma has_prefix_Cons [simp]: "has_prefix (c # s) (d # p) \<longleftrightarrow> c = d \<and> has_prefix s p"
  by (auto simp: has_prefix_def)

lemma has_prefix_Nil_left [simp]: "has_prefix [] p \<longleftrightarrow> p = []"
  by (auto simp: has_prefix_def)

lemma trim_prefix_append [simp]: "trim_prefix (p @ s) p = s"
  by (simp add: trim_prefix_def)

lemma has_suffix_append [simp]: "has_suffix (s @ p) p"
  by (simp add: has_suffix_def)

lemma has_suffix_iff [go_strings]: "has_suffix s p \<longleftrightarrow> (\<exists>t. s = t @ p)"
  by (metis append_take_drop_id has_suffix_append has_suffix_def)

lemma trim_suffix_append [simp]: "trim_suffix (s @ p) p = s"
  by (simp add: trim_suffix_def)

lemma str_index_Some:
  "str_index s sub = Some i \<Longrightarrow> s = take i s @ sub @ drop (i + length sub) s"
proof (induction s arbitrary: i)
  case Nil
  then show ?case by (auto split: if_splits)
next
  case (Cons c s)
  show ?case
  proof (cases "has_prefix (c # s) sub")
    case True
    then show ?thesis using Cons.prems by (auto simp: has_prefix_iff)
  next
    case False
    with Cons.prems obtain j where "i = Suc j" and "str_index s sub = Some j" by auto
    with Cons.IH show ?thesis by auto
  qed
qed

lemma str_index_None_iff: "str_index s sub = None \<longleftrightarrow> \<not> sublist sub s"
proof (induction s)
  case Nil
  then show ?case by auto
next
  case (Cons c s)
  have "sublist sub (c # s) \<longleftrightarrow> has_prefix (c # s) sub \<or> sublist sub s"
    by (auto simp: sublist_Cons_right has_prefix_iff prefix_def)
  with Cons show ?case by auto
qed

lemma contains_iff [go_strings]: "contains s sub \<longleftrightarrow> sublist sub s"
  by (simp add: contains_def str_index_None_iff)

lemma str_index_byte_append [simp]:
  "c \<notin> set a \<Longrightarrow> str_index (a @ c # b) [c] = Some (length a)"
  by (induction a) auto

lemma str_index_byte_None_iff: "str_index s [c] = None \<longleftrightarrow> c \<notin> set s"
  by (induction s) auto

lemma str_index_byte_None [simp]: "c \<notin> set s \<Longrightarrow> str_index s [c] = None"
  by (simp add: str_index_byte_None_iff)

lemma last_index_byte_None_iff: "last_index_byte s c = None \<longleftrightarrow> c \<notin> set s"
  by (induction s) (auto split: option.splits)

lemma last_index_byte_None [simp]: "c \<notin> set s \<Longrightarrow> last_index_byte s c = None"
  by (simp add: last_index_byte_None_iff)

lemma last_index_byte_append [simp]:
  "c \<notin> set b \<Longrightarrow> last_index_byte (a @ c # b) c = Some (length a)"
  by (induction a) simp_all

lemma split_byte_nonempty [simp]: "split_byte s c \<noteq> []"
  by (induction s) (auto split: list.splits)

lemma join_split_byte [simp]: "join_byte (split_byte s c) c = s"
proof (induction s)
  case (Cons x s)
  then show ?case
    by (cases "split_byte s c"; cases "tl (split_byte s c)") (auto split: list.splits)
qed simp

lemma split_byte_no_sep: "p \<in> set (split_byte s c) \<Longrightarrow> c \<notin> set p"
proof (induction s arbitrary: p)
  case (Cons x s)
  then show ?case
    by (cases "split_byte s c") (auto split: if_splits)
qed simp

lemma split_byte_free [simp]: "c \<notin> set p \<Longrightarrow> split_byte p c = [p]"
  by (induction p) auto

lemma split_byte_append [simp]:
  "c \<notin> set p \<Longrightarrow> split_byte (p @ c # s) c = p # split_byte s c"
  by (induction p) auto

lemma split_join_byte:
  "ps \<noteq> [] \<Longrightarrow> (\<And>p. p \<in> set ps \<Longrightarrow> c \<notin> set p) \<Longrightarrow> split_byte (join_byte ps c) c = ps"
  by (induction ps c rule: join_byte.induct) auto

lemma split_map_join:
  assumes "\<And>s. c \<notin> set s \<Longrightarrow> c \<notin> set (f s)"
  shows "split_byte (join_byte (map f (split_byte p c)) c) c = map f (split_byte p c)"
proof (rule split_join_byte)
  have "c \<notin> set q" if "q \<in> set (split_byte p c)" for q using split_byte_no_sep that .
  with assms show "\<And>q. q \<in> set (map f (split_byte p c)) \<Longrightarrow> c \<notin> set q" by auto
qed simp

lemma replace_all_absent: "\<not> sublist old s \<Longrightarrow> replace_all s old new = s"
proof (induction s old new rule: replace_all.induct)
  case (2 c s old new)
  then have "\<not> has_prefix (c # s) old" and "\<not> sublist old s"
    by (auto simp: sublist_Cons_right has_prefix_iff prefix_def)
  with 2 show ?case by simp
qed simp

text \<open>
  A text without a byte of the replacement: it begins or occurs in the result only if it did before, and the
  replaced text does not occur any more.
\<close>

lemma replace_all_prefix:
  "set sub \<inter> set new = {} \<Longrightarrow> new \<noteq> [] \<Longrightarrow> has_prefix (replace_all s old new) sub \<Longrightarrow> has_prefix s sub"
proof (induction s old new arbitrary: sub rule: replace_all.induct)
  case (2 c s old new)
  show ?case
  proof (cases "old \<noteq> [] \<and> has_prefix (c # s) old")
    case True
    with 2 have "sub = []" by (cases new; cases sub) auto
    then show ?thesis by simp
  next
    case False
    show ?thesis
    proof (cases sub)
      case (Cons d sub')
      have "has_prefix (replace_all s old new) sub'" "c = d" using "2.prems" False Cons by (auto split: if_splits)
      then show ?thesis using "2.IH"(2) [OF False, of sub'] "2.prems" Cons by simp
    qed simp
  qed
qed simp

lemma sublist_Cons_iff: "sublist sub (c # s) \<longleftrightarrow> has_prefix (c # s) sub \<or> sublist sub s"
  by (auto simp: has_prefix_iff sublist_Cons_right prefix_def)

lemma sublist_skip: "set sub \<inter> set a = {} \<Longrightarrow> sub \<noteq> [] \<Longrightarrow> sublist sub (a @ s) \<Longrightarrow> sublist sub s"
  by (induction a) (auto simp: sublist_Cons_iff neq_Nil_conv)

lemma replace_all_keeps:
  "set sub \<inter> set new = {} \<Longrightarrow> new \<noteq> [] \<Longrightarrow> sub \<noteq> [] \<Longrightarrow> sublist sub (replace_all s old new) \<Longrightarrow> sublist sub s"
proof (induction s old new rule: replace_all.induct)
  case (2 c s old new)
  show ?case
  proof (cases "old \<noteq> [] \<and> has_prefix (c # s) old")
    case True
    with 2 have "sublist sub (drop (length old - 1) s)" by (auto dest: sublist_skip)
    then have "sublist sub s" using sublist_drop sublist_order.order_trans by blast
    then show ?thesis by (simp add: sublist_Cons_iff)
  next
    case False
    then have "replace_all (c # s) old new = c # replace_all s old new" by (simp only: replace_all.simps if_False)
    moreover from this have "has_prefix (c # replace_all s old new) sub \<Longrightarrow> has_prefix (c # s) sub"
      using replace_all_prefix [of sub new "c # s" old] "2.prems" by simp
    ultimately show ?thesis using 2(2) [OF False] "2.prems" by (simp only: sublist_Cons_iff) blast
  qed
qed simp

lemma replace_all_gone:
  "set old \<inter> set new = {} \<Longrightarrow> new \<noteq> [] \<Longrightarrow> old \<noteq> [] \<Longrightarrow> \<not> sublist old (replace_all s old new)"
proof (induction s old new rule: replace_all.induct)
  case (2 c s old new)
  show ?case
  proof (cases "has_prefix (c # s) old")
    case True
    with 2 show ?thesis by (auto dest: sublist_skip)
  next
    case False
    then have "replace_all (c # s) old new = c # replace_all s old new" by (simp only: replace_all.simps if_False simp_thms)
    moreover from this have "\<not> has_prefix (c # replace_all s old new) old"
      using replace_all_prefix [of old new "c # s" old] "2.prems" False by auto
    ultimately show ?thesis using 2 False by (simp only: sublist_Cons_iff simp_thms)
  qed
qed simp

lemma lower_byte_idem [simp]: "lower_byte (lower_byte c) = lower_byte c"
proof -
  have "(of_char c :: nat) < 256" by simp
  then show ?thesis by (auto simp: lower_byte_def Let_def)
qed

section \<open>Go's 64-bit integers\<close>

definition wrap64 :: "int \<Rightarrow> int" where
  "wrap64 i = (i + 2 ^ 63) mod 2 ^ 64 - 2 ^ 63"

lemma wrap64_range: "- (2 ^ 63) \<le> wrap64 i \<and> wrap64 i < 2 ^ 63"
proof -
  have "0 \<le> (i + 2 ^ 63) mod 2 ^ 64 \<and> (i + 2 ^ 63) mod 2 ^ 64 < (2 ^ 64 :: int)" by simp
  then show ?thesis by (simp add: wrap64_def)
qed

lemma wrap64_id: "- (2 ^ 63) \<le> i \<Longrightarrow> i < 2 ^ 63 \<Longrightarrow> wrap64 i = i"
  by (simp add: wrap64_def)

lemma wrap64_step [simp]: "wrap64 (wrap64 i + 1) = wrap64 (i + 1)"
proof -
  have "((i + 2 ^ 63) mod 2 ^ 64 + 1) mod 2 ^ 64 = (i + 1 + 2 ^ 63) mod (2 ^ 64 :: int)"
    unfolding mod_add_left_eq by (simp add: ac_simps)
  then show ?thesis by (simp add: wrap64_def ac_simps)
qed

section \<open>State machines\<close>

text \<open>
  The contract of a component whose steps keep an invariant; \<open>reachable\<close> is any number of
  steps from a start state.
\<close>

locale machine =
  fixes start :: "'s \<Rightarrow> bool" and step :: "'s \<Rightarrow> 's \<Rightarrow> bool" and inv :: "'s \<Rightarrow> bool"
  assumes start_inv: "start s \<Longrightarrow> inv s"
    and step_inv: "inv s \<Longrightarrow> step s t \<Longrightarrow> inv t"
begin

lemma steps_inv: "step\<^sup>*\<^sup>* s t \<Longrightarrow> inv s \<Longrightarrow> inv t"
  by (induction rule: rtranclp_induct) (auto intro: step_inv)

lemma reachable_inv: "start s \<Longrightarrow> step\<^sup>*\<^sup>* s t \<Longrightarrow> inv t"
  by (blast intro: steps_inv start_inv)

end

end
