(* ===== verification/Json.thy ===== *)
theory Json
  imports Wire_Prelude
begin

text \<open>
  The part of Go's \<open>encoding/json\<close> that the program's frames, manifests and messages pass
  through. A document is its syntax tree: a number keeps its text and a string keeps the
  text between its quotes, so that a \<open>json.RawMessage\<close> is the tree of its document and only
  insignificant white space is lost (which \<open>json.Marshal\<close> drops as well). The theory has the
  scanner and parser with Go's nesting limit, the printer, the quoting and unquoting of
  strings, the decimal printing and parsing of 64-bit integers and Go's matching of member
  names with field names, and it shows that parsing inverts printing.
\<close>

named_theorems json_rt \<open>round-trip facts of the printer and the parser\<close>

datatype json =
    JNull
  | JBool bool
  | JNum string
  | JStr string
  | JArr "json list"
  | JObj "(string \<times> json) list"

section \<open>Scanning\<close>

definition byte_val :: "char \<Rightarrow> nat" where
  "byte_val c = of_char c"

definition is_ws :: "char \<Rightarrow> bool" where
  "is_ws c \<longleftrightarrow> c = CHR 0x20 \<or> c = CHR 0x09 \<or> c = CHR 0x0A \<or> c = CHR 0x0D"

definition skip_ws :: "string \<Rightarrow> string" where
  "skip_ws s = dropWhile is_ws s"

definition is_digit :: "char \<Rightarrow> bool" where
  "is_digit c \<longleftrightarrow> 48 \<le> byte_val c \<and> byte_val c \<le> 57"

definition is_hex :: "char \<Rightarrow> bool" where
  "is_hex c \<longleftrightarrow> is_digit c \<or> (65 \<le> byte_val c \<and> byte_val c \<le> 70)
                 \<or> (97 \<le> byte_val c \<and> byte_val c \<le> 102)"

definition simple_escape :: "char \<Rightarrow> bool" where
  "simple_escape e \<longleftrightarrow> e \<in> set [CHR ''b'', CHR ''f'', CHR ''n'', CHR ''r'', CHR ''t'',
     CHR 0x5C, CHR ''/'', CHR 0x22]"

text \<open>
  The text of a string up to its closing quote, and what follows the quote. Control bytes
  and unknown escapes are syntax errors.
\<close>

function scan_str :: "string \<Rightarrow> (string \<times> string) option" where
  "scan_str [] = None"
| "scan_str (c # s) =
     (if c = CHR 0x22 then Some ([], s)
      else if byte_val c < 32 then None
      else if c = CHR 0x5C then
        (case s of
           [] \<Rightarrow> None
         | e # s' \<Rightarrow>
             (if e = CHR ''u'' then
                (if 4 \<le> length s' \<and> list_all is_hex (take 4 s')
                 then map_option (\<lambda>(r, t). (c # e # take 4 s' @ r, t)) (scan_str (drop 4 s'))
                 else None)
              else if simple_escape e
              then map_option (\<lambda>(r, t). (c # e # r, t)) (scan_str s')
              else None))
      else map_option (\<lambda>(r, t). (c # r, t)) (scan_str s))"
  by pat_completeness auto
termination
  by (relation "measure length") auto

text \<open>The texts that may stand between two quotes.\<close>

function raw_ok :: "string \<Rightarrow> bool" where
  "raw_ok [] \<longleftrightarrow> True"
| "raw_ok (c # s) \<longleftrightarrow>
     c \<noteq> CHR 0x22 \<and> 32 \<le> byte_val c \<and>
     (if c = CHR 0x5C then
        (case s of
           [] \<Rightarrow> False
         | e # s' \<Rightarrow>
             (if e = CHR ''u''
              then 4 \<le> length s' \<and> list_all is_hex (take 4 s') \<and> raw_ok (drop 4 s')
              else simple_escape e \<and> raw_ok s'))
      else raw_ok s)"
  by pat_completeness auto
termination
  by (relation "measure length") auto

text \<open>Numbers: an optional sign, an integer part, an optional fraction and exponent.\<close>

definition scan_int :: "string \<Rightarrow> (string \<times> string) option" where
  "scan_int s =
     (case s of
        [] \<Rightarrow> None
      | c # r \<Rightarrow>
          if c = CHR ''0'' then Some ([c], r)
          else if is_digit c then Some (c # takeWhile is_digit r, dropWhile is_digit r)
          else None)"

definition scan_frac :: "string \<Rightarrow> (string \<times> string) option" where
  "scan_frac s =
     (case s of
        [] \<Rightarrow> Some ([], [])
      | c # r \<Rightarrow>
          if c = CHR ''.'' then
            (if takeWhile is_digit r = [] then None
             else Some (c # takeWhile is_digit r, dropWhile is_digit r))
          else Some ([], s))"

definition scan_exp :: "string \<Rightarrow> (string \<times> string) option" where
  "scan_exp s =
     (case s of
        [] \<Rightarrow> Some ([], [])
      | c # r \<Rightarrow>
          if c = CHR ''e'' \<or> c = CHR ''E'' then
            (let sg = (case r of [] \<Rightarrow> [] | g # _ \<Rightarrow> if g = CHR ''+'' \<or> g = CHR ''-'' then [g] else []);
                 t = drop (length sg) r
             in if takeWhile is_digit t = [] then None
                else Some (c # sg @ takeWhile is_digit t, dropWhile is_digit t))
          else Some ([], s))"

definition scan_num :: "string \<Rightarrow> (string \<times> string) option" where
  "scan_num s =
     (let sg = (if has_prefix s ''-'' then ''-'' else [])
      in case scan_int (drop (length sg) s) of
           None \<Rightarrow> None
         | Some (i, s1) \<Rightarrow>
             (case scan_frac s1 of
                None \<Rightarrow> None
              | Some (f, s2) \<Rightarrow>
                  (case scan_exp s2 of
                     None \<Rightarrow> None
                   | Some (e, s3) \<Rightarrow> Some (sg @ i @ f @ e, s3))))"

definition num_ok :: "string \<Rightarrow> bool" where
  "num_ok l \<longleftrightarrow> scan_num l = Some (l, [])"

section \<open>The parser\<close>

text \<open>
  Recursive descent with fuel: \<open>pval\<close> reads one value, \<open>pelems\<close> the elements of an array
  after its bracket, \<open>pmems\<close> the members of an object after its brace. \<open>d\<close> is the nesting
  the scanner still allows. \<open>json_fuel_enough\<close> below shows that the fuel of \<open>parse_json\<close>
  never runs out.
\<close>

fun pval :: "nat \<Rightarrow> nat \<Rightarrow> string \<Rightarrow> (json \<times> string) option"
and pelems :: "nat \<Rightarrow> nat \<Rightarrow> string \<Rightarrow> (json list \<times> string) option"
and pmems :: "nat \<Rightarrow> nat \<Rightarrow> string \<Rightarrow> ((string \<times> json) list \<times> string) option"
where
  "pval 0 d s = None"
| "pval (Suc n) d s =
     (case skip_ws s of
        [] \<Rightarrow> None
      | c # r \<Rightarrow>
          if c = CHR ''{'' then
            (if d = 0 then None
             else if has_prefix (skip_ws r) ''}'' then Some (JObj [], drop 1 (skip_ws r))
             else map_option (\<lambda>(ms, t). (JObj ms, t)) (pmems n (d - 1) r))
          else if c = CHR ''['' then
            (if d = 0 then None
             else if has_prefix (skip_ws r) '']'' then Some (JArr [], drop 1 (skip_ws r))
             else map_option (\<lambda>(vs, t). (JArr vs, t)) (pelems n (d - 1) r))
          else if c = CHR 0x22 then map_option (\<lambda>(b, t). (JStr b, t)) (scan_str r)
          else if has_prefix (c # r) ''true'' then Some (JBool True, drop 3 r)
          else if has_prefix (c # r) ''false'' then Some (JBool False, drop 4 r)
          else if has_prefix (c # r) ''null'' then Some (JNull, drop 3 r)
          else map_option (\<lambda>(l, t). (JNum l, t)) (scan_num (c # r)))"
| "pelems 0 d s = None"
| "pelems (Suc n) d s =
     (case pval n d s of
        None \<Rightarrow> None
      | Some (v, t) \<Rightarrow>
          (case skip_ws t of
             [] \<Rightarrow> None
           | c # r \<Rightarrow>
               if c = CHR '','' then map_option (\<lambda>(vs, u). (v # vs, u)) (pelems n d r)
               else if c = CHR '']'' then Some ([v], r)
               else None))"
| "pmems 0 d s = None"
| "pmems (Suc n) d s =
     (case skip_ws s of
        [] \<Rightarrow> None
      | c # r \<Rightarrow>
          if c \<noteq> CHR 0x22 then None
          else
            (case scan_str r of
               None \<Rightarrow> None
             | Some (k, t) \<Rightarrow>
                 (case skip_ws t of
                    [] \<Rightarrow> None
                  | c2 # r2 \<Rightarrow>
                      if c2 \<noteq> CHR '':'' then None
                      else
                        (case pval n d r2 of
                           None \<Rightarrow> None
                         | Some (v, t2) \<Rightarrow>
                             (case skip_ws t2 of
                                [] \<Rightarrow> None
                              | c3 # r3 \<Rightarrow>
                                  if c3 = CHR '','' then
                                    map_option (\<lambda>(ms, u). ((k, v) # ms, u)) (pmems n d r3)
                                  else if c3 = CHR ''}'' then Some ([(k, v)], r3)
                                  else None)))))"

definition max_depth :: nat where
  "max_depth = 10000"

text \<open>\<open>json.Unmarshal\<close>'s syntax check: one value and nothing but white space after it.\<close>

definition parse_json :: "string \<Rightarrow> json option" where
  "parse_json s =
     (case pval (2 * length s + 2) max_depth s of
        None \<Rightarrow> None
      | Some (v, t) \<Rightarrow> if skip_ws t = [] then Some v else None)"

section \<open>The printer\<close>

definition jquote :: "string \<Rightarrow> string" where
  "jquote r = CHR 0x22 # r @ [CHR 0x22]"

fun jprint :: "json \<Rightarrow> string"
and jprint_elems :: "json list \<Rightarrow> string"
and jprint_mems :: "(string \<times> json) list \<Rightarrow> string"
where
  "jprint JNull = ''null''"
| "jprint (JBool b) = (if b then ''true'' else ''false'')"
| "jprint (JNum l) = l"
| "jprint (JStr r) = jquote r"
| "jprint (JArr vs) = ''['' @ jprint_elems vs @ '']''"
| "jprint (JObj ms) = ''{'' @ jprint_mems ms @ ''}''"
| "jprint_elems [] = []"
| "jprint_elems (v # vs) = jprint v @ (if vs = [] then [] else '','' @ jprint_elems vs)"
| "jprint_mems [] = []"
| "jprint_mems (m # ms) =
     jquote (fst m) @ '':'' @ jprint (snd m) @ (if ms = [] then [] else '','' @ jprint_mems ms)"

text \<open>Trees that the parser can have produced, and their nesting.\<close>

fun jwf :: "json \<Rightarrow> bool" where
  "jwf (JNum l) \<longleftrightarrow> num_ok l"
| "jwf (JStr r) \<longleftrightarrow> raw_ok r"
| "jwf (JArr vs) \<longleftrightarrow> (\<forall>v \<in> set vs. jwf v)"
| "jwf (JObj ms) \<longleftrightarrow> (\<forall>m \<in> set ms. raw_ok (fst m) \<and> jwf (snd m))"
| "jwf _ \<longleftrightarrow> True"

fun jdepth :: "json \<Rightarrow> nat" where
  "jdepth (JArr vs) = Suc (Max (insert 0 (jdepth ` set vs)))"
| "jdepth (JObj ms) = Suc (Max (insert 0 ((\<lambda>m. jdepth (snd m)) ` set ms)))"
| "jdepth _ = 0"


section \<open>Parsing inverts printing\<close>

lemma byte_val_lits [simp]:
  "byte_val CHR 0x22 = 34" "byte_val CHR 0x5C = 92" "byte_val CHR ''{'' = 123"
  "byte_val CHR ''['' = 91" "byte_val CHR ''t'' = 116" "byte_val CHR ''f'' = 102"
  "byte_val CHR ''n'' = 110" "byte_val CHR ''-'' = 45" "byte_val CHR '','' = 44"
  "byte_val CHR '']'' = 93" "byte_val CHR ''}'' = 125" "byte_val CHR ''.'' = 46"
  "byte_val CHR ''e'' = 101" "byte_val CHR ''E'' = 69" "byte_val CHR 0x20 = 32"
  "byte_val CHR 0x09 = 9" "byte_val CHR 0x0A = 10" "byte_val CHR 0x0D = 13"
  "byte_val CHR ''0'' = 48" "byte_val CHR ''u'' = 117" "byte_val CHR '':'' = 58"
  by (simp_all add: byte_val_def)

lemma byte_val_less [simp]: "byte_val c < 256"
  by (simp add: byte_val_def)

lemma byte_val_inject [simp]: "byte_val c = byte_val d \<longleftrightarrow> c = d"
  by (simp add: byte_val_def)

lemma scan_str_raw [json_rt]: "raw_ok r \<Longrightarrow> scan_str (r @ CHR 0x22 # t) = Some (r, t)"
proof (induction r rule: raw_ok.induct)
  case (2 c s)
  show ?case
  proof (cases "c = CHR 0x5C")
    case True
    with 2 show ?thesis by (cases s) (auto split: if_splits)
  next
    case False
    with 2 show ?thesis by auto
  qed
qed simp

definition num_stop :: "string \<Rightarrow> bool" where
  "num_stop t \<longleftrightarrow> (\<forall>c u. t = c # u \<longrightarrow> \<not> is_digit c \<and> c \<noteq> CHR ''.'' \<and> c \<noteq> CHR ''e'' \<and> c \<noteq> CHR ''E'')"

lemma num_stop_simps [simp]:
  "num_stop []"
  "num_stop (c # u) \<longleftrightarrow> \<not> is_digit c \<and> c \<noteq> CHR ''.'' \<and> c \<noteq> CHR ''e'' \<and> c \<noteq> CHR ''E''"
  by (auto simp: num_stop_def)

lemma takeWhile_digit_stop:
  "num_stop t \<Longrightarrow> takeWhile is_digit (s @ t) = takeWhile is_digit s
     \<and> dropWhile is_digit (s @ t) = dropWhile is_digit s @ t"
  by (induction s) (cases t; auto)+

lemma scan_int_append:
  "scan_int s = Some (i, r) \<Longrightarrow> num_stop t \<Longrightarrow> scan_int (s @ t) = Some (i, r @ t)"
  by (auto simp: scan_int_def takeWhile_digit_stop split: list.splits if_splits)

lemma scan_frac_append:
  "scan_frac s = Some (f, r) \<Longrightarrow> num_stop t \<Longrightarrow> scan_frac (s @ t) = Some (f, r @ t)"
  by (cases s; cases t)
     (auto simp: scan_frac_def takeWhile_digit_stop split: if_splits)

lemma scan_exp_append:
  "scan_exp s = Some (e, r) \<Longrightarrow> num_stop t \<Longrightarrow> scan_exp (s @ t) = Some (e, r @ t)"
proof (cases s)
  case Nil
  assume "scan_exp s = Some (e, r)" "num_stop t"
  with Nil show ?thesis by (cases t) (auto simp: scan_exp_def)
next
  case (Cons c u)
  assume *: "scan_exp s = Some (e, r)" "num_stop t"
  show ?thesis
  proof (cases u)
    case Nil
    with Cons * show ?thesis
      by (auto simp: scan_exp_def split: if_splits)
  next
    case (Cons g v)
    with \<open>s = c # u\<close> * takeWhile_digit_stop [of t v] takeWhile_digit_stop [of t "g # v"] show ?thesis
      by (auto simp: scan_exp_def Let_def split: if_splits)
  qed
qed

lemma scan_num_append:
  assumes "scan_num s = Some (l, r)" and "num_stop t"
  shows "scan_num (s @ t) = Some (l, r @ t)"
proof -
  let ?sg = "if has_prefix s ''-'' then ''-'' else []"
  from assms(1) obtain i s1 f s2 e where
    i: "scan_int (drop (length ?sg) s) = Some (i, s1)" and
    f: "scan_frac s1 = Some (f, s2)" and e: "scan_exp s2 = Some (e, r)" and
    l: "l = ?sg @ i @ f @ e"
    by (auto simp: scan_num_def Let_def split: option.splits prod.splits)
  from i have "s \<noteq> []" by (auto simp: scan_int_def)
  then have p: "has_prefix (s @ t) ''-'' = has_prefix s ''-''"
    and d: "drop (length ?sg) (s @ t) = drop (length ?sg) s @ t"
    by (cases s; simp)+
  show ?thesis
    unfolding scan_num_def Let_def p d
    using scan_int_append [OF i assms(2)] scan_frac_append [OF f assms(2)]
      scan_exp_append [OF e assms(2)] l
    by simp
qed

lemma scan_num_ok: "num_ok l \<Longrightarrow> num_stop t \<Longrightarrow> scan_num (l @ t) = Some (l, t)"
  using scan_num_append [of l l "[]" t] by (simp add: num_ok_def)

lemma num_ok_head:
  assumes "num_ok l"
  obtains c u where "l = c # u" and "c = CHR ''-'' \<or> is_digit c"
proof -
  from assms have "l \<noteq> []"
    by (auto simp: num_ok_def scan_num_def scan_int_def)
  then obtain c u where l: "l = c # u" by (cases l) auto
  with assms have "c = CHR ''-'' \<or> is_digit c"
    by (auto simp: num_ok_def scan_num_def scan_int_def Let_def is_digit_def
        split: if_splits option.splits)
  with l show thesis by (rule that)
qed

lemma jquote_append: "jquote r @ t = CHR 0x22 # r @ CHR 0x22 # t"
  by (simp add: jquote_def)

lemma skip_ws_Cons: "\<not> is_ws c \<Longrightarrow> skip_ws (c # s) = c # s"
  by (simp add: skip_ws_def)

lemma not_ws_lits [simp]:
  "\<not> is_ws CHR 0x22" "\<not> is_ws CHR ''{''" "\<not> is_ws CHR ''[''" "\<not> is_ws CHR '',''"
  "\<not> is_ws CHR '']''" "\<not> is_ws CHR ''}''" "\<not> is_ws CHR '':''" "\<not> is_ws CHR ''-''"
  "\<not> is_ws CHR ''t''" "\<not> is_ws CHR ''f''" "\<not> is_ws CHR ''n''"
  by (simp_all add: is_ws_def)

lemma not_ws_digit: "is_digit c \<Longrightarrow> \<not> is_ws c"
  by (auto simp: is_digit_def is_ws_def)

lemma pval_str: "raw_ok r \<Longrightarrow> pval (Suc n) d (jquote r @ t) = Some (JStr r, t)"
  by (simp add: jquote_append skip_ws_Cons scan_str_raw)

lemma pval_num: 
  assumes "num_ok l" "num_stop t"
  shows "pval (Suc n) d (l @ t) = Some (JNum l, t)"
proof -
  obtain c u where l: "l = c # u" and c: "c = CHR ''-'' \<or> is_digit c"
    by (rule num_ok_head [OF assms(1)])
  have "skip_ws (l @ t) = c # u @ t"
    using c l not_ws_digit by (auto simp: skip_ws_Cons)
  moreover have "c \<noteq> CHR ''{''" "c \<noteq> CHR ''[''" "c \<noteq> CHR 0x22" "c \<noteq> CHR ''t''" "c \<noteq> CHR ''f''"
    "c \<noteq> CHR ''n''" using c by (auto simp: is_digit_def)
  ultimately show ?thesis using scan_num_ok [OF assms] l by simp
qed

lemma jprint_head:
  assumes "jwf j"
  obtains c u where "jprint j = c # u" and "\<not> is_ws c" and "c \<noteq> CHR '']''" and "c \<noteq> CHR ''}''"
proof (cases j)
  case (JNum l)
  with assms obtain c u where "l = c # u" "c = CHR ''-'' \<or> is_digit c" by (auto elim: num_ok_head)
  moreover from this have "\<not> is_ws c \<and> c \<noteq> CHR '']'' \<and> c \<noteq> CHR ''}''"
    using not_ws_digit [of c] by (auto simp: is_digit_def)
  ultimately show thesis using JNum that by simp
next
  case (JBool b)
  with that show thesis by (cases b) auto
qed (use that in \<open>auto simp: jquote_def\<close>)

lemma skip_ws_jprint: "jwf j \<Longrightarrow> skip_ws (jprint j @ t) = jprint j @ t"
  by (erule jprint_head) (simp add: skip_ws_Cons)

lemma jprint_elems_head:
  assumes "vs \<noteq> []" and "\<forall>v \<in> set vs. jwf v"
  shows "skip_ws (jprint_elems vs @ t) = jprint_elems vs @ t
       \<and> \<not> has_prefix (jprint_elems vs @ t) '']''"
proof -
  from assms obtain v ws where vs: "vs = v # ws" and "jwf v" by (cases vs) auto
  then obtain c u where "jprint v = c # u" "\<not> is_ws c" "c \<noteq> CHR '']''" by (auto elim: jprint_head)
  then show ?thesis by (simp add: vs skip_ws_Cons)
qed

lemma jprint_parse_gen:
  "jwf j \<Longrightarrow> jdepth j \<le> d \<Longrightarrow> length (jprint j) \<le> n \<Longrightarrow> num_stop t
     \<Longrightarrow> pval n d (jprint j @ t) = Some (j, t)"
  "vs \<noteq> [] \<Longrightarrow> \<forall>v \<in> set vs. jwf v \<and> jdepth v \<le> d \<Longrightarrow> length (jprint_elems vs) < n
     \<Longrightarrow> pelems n d (jprint_elems vs @ CHR '']'' # t) = Some (vs, t)"
  "ms \<noteq> [] \<Longrightarrow> \<forall>m \<in> set ms. raw_ok (fst m) \<and> jwf (snd m) \<and> jdepth (snd m) \<le> d
     \<Longrightarrow> length (jprint_mems ms) < n
     \<Longrightarrow> pmems n d (jprint_mems ms @ CHR ''}'' # t) = Some (ms, t)"
proof (induction j and vs and ms arbitrary: n d t and n d t and n d t
    rule: jprint_jprint_elems_jprint_mems.induct)
  case 1
  then obtain m where "n = Suc m" by (cases n) auto
  then show ?case by (simp add: skip_ws_Cons)
next
  case (2 b)
  then obtain m where "n = Suc m" by (cases n) (auto split: if_splits)
  then show ?case by (simp add: skip_ws_Cons)
next
  case (3 l)
  then obtain c u where "l = c # u" by (auto elim: num_ok_head)
  with 3 obtain m where "n = Suc m" by (cases n) auto
  with 3 show ?case using pval_num [of l t m d] by simp
next
  case (4 r)
  then obtain m where "n = Suc m" by (cases n) (auto simp: jquote_def)
  with 4 show ?case using pval_str [of r m d t] by simp
next
  case (5 vs)
  then obtain m where n: "n = Suc m" by (cases n) auto
  from 5 obtain d' where d: "d = Suc d'" by (cases d) auto
  show ?case
  proof (cases "vs = []")
    case True
    then show ?thesis by (simp add: n d skip_ws_Cons)
  next
    case False
    have "\<forall>v \<in> set vs. jwf v \<and> jdepth v \<le> d'"
      using 5 d by auto
    with 5 False n have "pelems m d' (jprint_elems vs @ CHR '']'' # t) = Some (vs, t)"
      by (intro 5) auto
    moreover have "skip_ws (jprint_elems vs @ CHR '']'' # t) = jprint_elems vs @ CHR '']'' # t
       \<and> \<not> has_prefix (jprint_elems vs @ CHR '']'' # t) '']''"
      using False 5 by (intro jprint_elems_head) auto
    ultimately show ?thesis by (simp add: n d skip_ws_Cons)
  qed
next
  case (6 ms)
  then obtain m where n: "n = Suc m" by (cases n) auto
  from 6 obtain d' where d: "d = Suc d'" by (cases d) auto
  show ?case
  proof (cases ms)
    case Nil
    then show ?thesis by (simp add: n d skip_ws_Cons)
  next
    case (Cons x xs)
    have "\<forall>m \<in> set ms. raw_ok (fst m) \<and> jwf (snd m) \<and> jdepth (snd m) \<le> d'"
      using 6 d by auto
    with 6 Cons n have *: "pmems m d' (jprint_mems ms @ CHR ''}'' # t) = Some (ms, t)"
      by (intro 6) auto
    have "skip_ws (jprint_mems ms @ CHR ''}'' # t) = jprint_mems ms @ CHR ''}'' # t
       \<and> \<not> has_prefix (jprint_mems ms @ CHR ''}'' # t) ''}''"
      by (simp add: Cons jquote_def skip_ws_Cons)
    with * show ?thesis by (simp add: n d skip_ws_Cons)
  qed
next
  case 7
  then show ?case by simp
next
  case (8 v vs)
  then obtain m where n: "n = Suc m" by (cases n) auto
  have v: "pval m d (jprint v @ x # u) = Some (v, x # u)" if "num_stop (x # u)" for x u
    using 8 n that by (intro 8) auto
  show ?case
  proof (cases "vs = []")
    case True
    then show ?thesis using v [of "CHR '']''"] by (simp add: n skip_ws_Cons is_digit_def)
  next
    case False
    with 8 n have "pelems m d (jprint_elems vs @ CHR '']'' # t) = Some (vs, t)"
      by (intro 8) auto
    with False v [of "CHR '',''"] show ?thesis by (simp add: n skip_ws_Cons is_digit_def)
  qed
next
  case 9
  then show ?case by simp
next
  case (10 m ms)
  obtain k v where m: "m = (k, v)" by (cases m)
  from 10 obtain n' where n: "n = Suc n'" by (cases n) auto
  have v: "pval n' d (jprint v @ x # u) = Some (v, x # u)" if "num_stop (x # u)" for x u
    using 10(1) [of d n' "x # u"] 10 n m that by (auto simp: jquote_def)
  have k: "scan_str (k @ CHR 0x22 # u) = Some (k, u)" for u
    using 10 m by (intro scan_str_raw) auto
  show ?case
  proof (cases "ms = []")
    case True
    then show ?thesis using v [of "CHR ''}''"] k
      by (simp add: n m jquote_append skip_ws_Cons is_digit_def)
  next
    case False
    with 10 n have "pmems n' d (jprint_mems ms @ CHR ''}'' # t) = Some (ms, t)"
      by (intro 10) (auto simp: jquote_def)
    with False v [of "CHR '',''"] k show ?thesis
      by (simp add: n m jquote_append skip_ws_Cons is_digit_def)
  qed
qed

theorem parse_jprint [json_rt]:
  assumes "jwf j" and "jdepth j \<le> max_depth"
  shows "parse_json (jprint j) = Some j"
proof -
  have "pval (2 * length (jprint j) + 2) max_depth (jprint j @ []) = Some (j, [])"
    using assms by (intro jprint_parse_gen) auto
  then show ?thesis by (simp add: parse_json_def skip_ws_def)
qed


section \<open>The fuel of the parser\<close>

lemma skip_ws_le [simp]: "length (skip_ws s) \<le> length s"
  by (simp add: skip_ws_def length_dropWhile_le)

lemma skip_ws_length: "skip_ws s = c # r \<Longrightarrow> length r < length s"
  using skip_ws_le [of s] by simp

lemma scan_str_length: "scan_str s = Some (r, t) \<Longrightarrow> length t < length s"
proof (induction s arbitrary: r rule: scan_str.induct)
  case (2 c s)
  show ?case
  proof (cases "c = CHR 0x5C")
    case True
    with 2 show ?thesis
      by (cases s) (fastforce split: if_splits)+
  next
    case False
    with 2 show ?thesis by (fastforce split: if_splits)
  qed
qed simp

lemma scan_int_length: "scan_int s = Some (i, t) \<Longrightarrow> length t < length s"
  by (auto simp: scan_int_def length_dropWhile_le le_imp_less_Suc split: list.splits if_splits)

lemma scan_frac_length: "scan_frac s = Some (i, t) \<Longrightarrow> length t \<le> length s"
  by (auto simp: scan_frac_def length_dropWhile_le le_SucI split: list.splits if_splits)

lemma scan_exp_length:
  assumes "scan_exp s = Some (i, t)"
  shows "length t \<le> length s"
proof -
  have "length (dropWhile is_digit x) \<le> Suc (length x)"
    and "length (dropWhile is_digit x) \<le> Suc (Suc (length x))" for x
    using length_dropWhile_le [of is_digit x] by simp_all
  then show ?thesis using assms
    by (auto simp: scan_exp_def Let_def split: list.splits if_splits)
qed

lemma scan_num_length: "scan_num s = Some (l, t) \<Longrightarrow> length t < length s"
  by (auto simp: scan_num_def Let_def split: option.splits prod.splits
      dest!: scan_int_length scan_frac_length scan_exp_length)

lemma parser_consumes:
  "pval n d s = Some (v, t) \<Longrightarrow> length t < length s"
  "pelems n d s = Some (vs, t) \<Longrightarrow> length t < length s"
  "pmems n d s = Some (ms, t) \<Longrightarrow> length t < length s"
proof (induction n d s and n d s and n d s arbitrary: v t and vs t and ms t rule: pval_pelems_pmems.induct)
  case (2 n d s)
  then obtain c r where cr: "skip_ws s = c # r" by (auto split: list.splits)
  have len: "length r < length s" by (rule skip_ws_length [OF cr])
  have drop_le: "length (drop k (skip_ws r)) < length s" for k
    using le_less_trans [OF skip_ws_le len] by (simp add: less_imp_diff_less)
  show ?case
    using 2 cr len drop_le
    by (auto split: if_splits dest!: scan_str_length scan_num_length)
       (fastforce intro: less_trans)+
next
  case (4 n d s)
  then show ?case
    by (fastforce split: option.splits list.splits if_splits dest: skip_ws_length)
next
  case (6 n d s)
  from 6 obtain r where cr: "skip_ws s = CHR 0x22 # r" by (auto split: list.splits if_splits)
  from 6(3) cr obtain k t0 r2 v0 t2 c3 r3 where
    k: "scan_str r = Some (k, t0)" and r2: "skip_ws t0 = CHR '':'' # r2" and
    v: "pval n d r2 = Some (v0, t2)" and r3: "skip_ws t2 = c3 # r3" and
    cs: "c3 = CHR '','' \<and> (\<exists>ms'. pmems n d r3 = Some (ms', t)) \<or> r3 = t"
    by (auto split: option.splits list.splits if_splits)
  have "length r3 < length s"
    using skip_ws_length [OF cr] scan_str_length [OF k] skip_ws_length [OF r2]
      skip_ws_length [OF r3] 6(1) [OF cr _ k _ r2 _ v]
    by simp
  moreover have "length t \<le> length r3"
    using cs 6(2) [OF cr _ k _ r2 _ v _ r3] by (auto intro: less_imp_le)
  ultimately show ?case by simp
qed auto

lemma parser_fuel:
  "2 * length s < n \<Longrightarrow> pval (Suc n) d s = pval n d s"
  "2 * length s + 1 < n \<Longrightarrow> pelems (Suc n) d s = pelems n d s"
  "2 * length s + 1 < n \<Longrightarrow> pmems (Suc n) d s = pmems n d s"
proof (induction n arbitrary: d s)
  case (Suc n)
  { case 1
    show ?case
    proof (cases "skip_ws s")
      case (Cons c r)
      then have "2 * length r + 1 < n" using skip_ws_length [OF Cons] 1 by simp
      then have "pelems (Suc n) (d - 1) r = pelems n (d - 1) r"
        and "pmems (Suc n) (d - 1) r = pmems n (d - 1) r"
        by (intro Suc.IH; simp)+
      with Cons show ?thesis by (simp only: pval.simps list.case)
    qed simp
  next
    case 2
    then have v: "pval (Suc n) d s = pval n d s" by (intro Suc.IH) simp
    show ?case
    proof (cases "pval n d s")
      case None
      with v show ?thesis by (simp only: pelems.simps option.case)
    next
      case (Some p)
      obtain x t where p: "p = (x, t)" by (cases p)
      have t: "length t < length s" using parser_consumes(1) Some p by blast
      show ?thesis
      proof (cases "skip_ws t")
        case Nil
        with Some p v show ?thesis by (simp only: pelems.simps option.case prod.case list.case)
      next
        case (Cons c r)
        then have "2 * length r + 1 < n" using skip_ws_length [OF Cons] t 2 by simp
        then have "pelems (Suc n) d r = pelems n d r" by (intro Suc.IH)
        with Cons Some p v show ?thesis
          by (simp only: pelems.simps option.case prod.case list.case)
      qed
    qed
  next
    case 3
    note [simp del] = pval.simps pelems.simps pmems.simps
    note unfold = pmems.simps(2) [of n d s] pmems.simps(2) [of "Suc n" d s]
    show ?case
    proof (cases "skip_ws s")
      case Nil
      then show ?thesis by (simp add: unfold)
    next
      case cr: (Cons c r)
      show ?thesis
      proof (cases "scan_str r")
        case None
        with cr show ?thesis by (simp add: unfold)
      next
        case k: (Some p)
        obtain k0 t0 where p: "p = (k0, t0)" by (cases p)
        show ?thesis
        proof (cases "skip_ws t0")
          case Nil
          with cr k p show ?thesis by (simp add: unfold)
        next
          case r2: (Cons c2 r2)
          have l2: "length r2 + 2 < length s"
            using skip_ws_length [OF cr] scan_str_length [of r k0 t0] k p skip_ws_length [OF r2]
            by simp
          with 3 have v: "pval (Suc n) d r2 = pval n d r2" by (intro Suc.IH) simp
          have m: "pmems (Suc n) d r3 = pmems n d r3"
            if "pval n d r2 = Some (x, t2)" "skip_ws t2 = c3 # r3" for x t2 c3 r3
            using 3 l2 skip_ws_length [OF that(2)] parser_consumes(1) [OF that(1)]
            by (intro Suc.IH) simp
          show ?thesis
          proof (cases "pval n d r2")
            case None
            with cr k p r2 v show ?thesis by (simp add: unfold)
          next
            case (Some q)
            with cr k p r2 v m show ?thesis
              by (cases q; cases "skip_ws (snd q)") (simp_all add: unfold)
          qed
        qed
      qed
    qed
  }
qed auto

theorem json_fuel_enough:
  assumes "2 * length s < n" and "2 * length s < m"
  shows "pval n d s = pval m d s"
proof -
  have "pval n d s = pval (Suc (2 * length s)) d s" if "2 * length s < n" for n
    using that
  proof (induction n)
    case (Suc n)
    then show ?case using parser_fuel(1) [of s n d] by (cases "n = 2 * length s") auto
  qed simp
  with assms show ?thesis by metis
qed

end
