(* ===== verification/Json_Text.thy ===== *)
theory Json_Text
  imports Json
begin

text \<open>
  The texts inside a document: the quoting of Go strings by \<open>json.Marshal\<close> (with its HTML
  escaping and its treatment of invalid UTF-8) and their unquoting, the compaction of a
  \<open>json.RawMessage\<close>, decimal 64-bit integers, and the matching of member names with the
  fields of a struct. The main facts are that unquoting inverts quoting on valid UTF-8 and
  that parsing inverts printing on 64-bit integers.
\<close>

section \<open>UTF-8\<close>

definition cont_byte :: "char \<Rightarrow> bool" where
  "cont_byte c \<longleftrightarrow> 128 \<le> byte_val c \<and> byte_val c \<le> 191"

definition byte_in :: "char \<Rightarrow> nat \<Rightarrow> nat \<Rightarrow> bool" where
  "byte_in c lo hi \<longleftrightarrow> lo \<le> byte_val c \<and> byte_val c \<le> hi"

text \<open>
  \<open>utf8.DecodeRune\<close>: the number of bytes of the well-formed sequence at the head, 0 if the
  head starts none (Go then reads one byte as U+FFFD).
\<close>

definition rune_need :: "char \<Rightarrow> nat" where
  "rune_need a =
     (if byte_val a < 128 then 1 else if byte_in a 194 223 then 2
      else if byte_in a 224 239 then 3 else if byte_in a 240 244 then 4 else 0)"

definition second_ok :: "char \<Rightarrow> char \<Rightarrow> bool" where
  "second_ok a b \<longleftrightarrow>
     byte_in b (if byte_val a = 224 then 160 else if byte_val a = 240 then 144 else 128)
               (if byte_val a = 237 then 159 else if byte_val a = 244 then 143 else 191)"

definition rune_len :: "string \<Rightarrow> nat" where
  "rune_len s =
     (case s of
        [] \<Rightarrow> 0
      | a # r \<Rightarrow>
          if rune_need a \<le> 1 then rune_need a
          else
            (case r of
               [] \<Rightarrow> 0
             | b # r2 \<Rightarrow>
                 if second_ok a b \<and> rune_need a - 2 \<le> length r2
                    \<and> list_all cont_byte (take (rune_need a - 2) r2)
                 then rune_need a else 0))"

function valid_utf8 :: "string \<Rightarrow> bool" where
  "valid_utf8 [] \<longleftrightarrow> True"
| "valid_utf8 (c # s) \<longleftrightarrow>
     0 < rune_len (c # s) \<and> valid_utf8 (drop (rune_len (c # s) - 1) s)"
  by pat_completeness auto
termination
  by (relation "measure length") auto

definition rune_error :: string where
  "rune_error = [CHR 0xEF, CHR 0xBF, CHR 0xBD]"

text \<open>\<open>utf8.EncodeRune\<close>: surrogates and values past the last code point give U+FFFD.\<close>

definition is_surrogate :: "nat \<Rightarrow> bool" where
  "is_surrogate n \<longleftrightarrow> 55296 \<le> n \<and> n < 57344"

definition encode_rune :: "nat \<Rightarrow> string" where
  "encode_rune n =
     (if n < 128 then [char_of n]
      else if n < 2048 then [char_of (192 + n div 64), char_of (128 + n mod 64)]
      else if is_surrogate n then rune_error
      else if n < 65536 then
        [char_of (224 + n div 4096), char_of (128 + n div 64 mod 64), char_of (128 + n mod 64)]
      else if n < 1114112 then
        [char_of (240 + n div 262144), char_of (128 + n div 4096 mod 64),
         char_of (128 + n div 64 mod 64), char_of (128 + n mod 64)]
      else rune_error)"

section \<open>Quoting and unquoting\<close>

definition hex_digit :: "nat \<Rightarrow> char" where
  "hex_digit n = char_of (if n < 10 then 48 + n else 87 + n)"

definition hex_value :: "char \<Rightarrow> nat" where
  "hex_value c =
     (if is_digit c then byte_val c - 48
      else if byte_val c < 97 then byte_val c - 55 else byte_val c - 87)"

definition hex4_value :: "string \<Rightarrow> nat" where
  "hex4_value s = foldl (\<lambda>n c. 16 * n + hex_value c) 0 (take 4 s)"

text \<open>\<open>json.Marshal\<close>'s escape of an ASCII byte, with HTML escaping on (the default).\<close>

definition needs_hex :: "char \<Rightarrow> bool" where
  "needs_hex c \<longleftrightarrow> byte_val c < 32 \<or> c = CHR ''<'' \<or> c = CHR ''>'' \<or> c = CHR ''&''"

definition esc_byte :: "char \<Rightarrow> string" where
  "esc_byte c =
     (if c = CHR 0x5C \<or> c = CHR 0x22 then [CHR 0x5C, c]
      else if c = CHR 0x08 then [CHR 0x5C, CHR ''b'']
      else if c = CHR 0x0C then [CHR 0x5C, CHR ''f'']
      else if c = CHR 0x0A then [CHR 0x5C, CHR ''n'']
      else if c = CHR 0x0D then [CHR 0x5C, CHR ''r'']
      else if c = CHR 0x09 then [CHR 0x5C, CHR ''t'']
      else if needs_hex c then
        [CHR 0x5C, CHR ''u'', CHR ''0'', CHR ''0'',
         hex_digit (byte_val c div 16), hex_digit (byte_val c mod 16)]
      else [c])"

definition line_sep :: "string \<Rightarrow> bool" where
  "line_sep s \<longleftrightarrow> has_prefix s [CHR 0xE2, CHR 0x80, CHR 0xA8]
                 \<or> has_prefix s [CHR 0xE2, CHR 0x80, CHR 0xA9]"

definition esc_line_sep :: "string \<Rightarrow> string" where
  "esc_line_sep s =
     [CHR 0x5C, CHR ''u'', CHR ''2'', CHR ''0'', CHR ''2'',
      if s ! 2 = CHR 0xA8 then CHR ''8'' else CHR ''9'']"

function quote_text :: "string \<Rightarrow> string" where
  "quote_text [] = []"
| "quote_text (c # s) =
     (if rune_len (c # s) = 0
      then [CHR 0x5C, CHR ''u'', CHR ''f'', CHR ''f'', CHR ''f'', CHR ''d''] @ quote_text s
      else if rune_len (c # s) = 1 then esc_byte c @ quote_text s
      else if line_sep (c # s) then esc_line_sep (c # s) @ quote_text (drop 2 s)
      else take (rune_len (c # s)) (c # s) @ quote_text (drop (rune_len (c # s) - 1) s))"
  by pat_completeness auto
termination
  by (relation "measure length") auto

definition simple_unescape :: "char \<Rightarrow> char" where
  "simple_unescape e =
     (if e = CHR ''b'' then CHR 0x08 else if e = CHR ''f'' then CHR 0x0C
      else if e = CHR ''n'' then CHR 0x0A else if e = CHR ''r'' then CHR 0x0D
      else if e = CHR ''t'' then CHR 0x09 else e)"

text \<open>
  The low half of a surrogate pair, if the text continues with one: \<open>utf16.DecodeRune\<close>
  of the two halves.
\<close>

definition surrogate_pair :: "nat \<Rightarrow> string \<Rightarrow> nat option" where
  "surrogate_pair hi s =
     (if hi < 56320 \<and> has_prefix s [CHR 0x5C, CHR ''u''] \<and> 6 \<le> length s
         \<and> list_all is_hex (take 4 (drop 2 s))
         \<and> 56320 \<le> hex4_value (drop 2 s) \<and> hex4_value (drop 2 s) < 57344
      then Some ((hi - 55296) * 1024 + (hex4_value (drop 2 s) - 56320) + 65536)
      else None)"

function unquote_text :: "string \<Rightarrow> string" where
  "unquote_text [] = []"
| "unquote_text (c # s) =
     (if c = CHR 0x5C then
        (case s of
           [] \<Rightarrow> []
         | e # t \<Rightarrow>
             if e = CHR ''u'' then
               (let n = hex4_value t
                in if is_surrogate n then
                     (case surrogate_pair n (drop 4 t) of
                        Some m \<Rightarrow> encode_rune m @ unquote_text (drop 10 t)
                      | None \<Rightarrow> rune_error @ unquote_text (drop 4 t))
                   else encode_rune n @ unquote_text (drop 4 t))
             else simple_unescape e # unquote_text t)
      else if rune_len (c # s) = 0 then rune_error @ unquote_text s
      else take (rune_len (c # s)) (c # s) @ unquote_text (drop (rune_len (c # s) - 1) s))"
  by pat_completeness auto
termination
  by (relation "measure length") auto

definition jstring :: "string \<Rightarrow> json" where
  "jstring s = JStr (quote_text s)"

text \<open>
  \<open>json.Marshal\<close> of a \<open>json.RawMessage\<close>: the text is compacted and the HTML characters and
  the two line separators inside its strings are escaped.
\<close>

function html_text :: "string \<Rightarrow> string" where
  "html_text [] = []"
| "html_text (c # s) =
     (if c = CHR ''<'' \<or> c = CHR ''>'' \<or> c = CHR ''&'' then esc_byte c @ html_text s
      else if line_sep (c # s) then esc_line_sep (c # s) @ html_text (drop 2 s)
      else c # html_text s)"
  by pat_completeness auto
termination
  by (relation "measure length") auto

fun html_esc :: "json \<Rightarrow> json" where
  "html_esc (JStr r) = JStr (html_text r)"
| "html_esc (JArr vs) = JArr (map html_esc vs)"
| "html_esc (JObj ms) = JObj (map (\<lambda>m. (html_text (fst m), html_esc (snd m))) ms)"
| "html_esc j = j"

section \<open>Integers\<close>

fun dec_nat :: "nat \<Rightarrow> string" where
  "dec_nat n = (if n < 10 then [char_of (48 + n)] else dec_nat (n div 10) @ [char_of (48 + n mod 10)])"

declare dec_nat.simps [simp del]

definition dec_int :: "int \<Rightarrow> string" where
  "dec_int i = (if i < 0 then CHR ''-'' # dec_nat (nat (- i)) else dec_nat (nat i))"

definition nat_value :: "string \<Rightarrow> nat" where
  "nat_value s = foldl (\<lambda>n c. 10 * n + (byte_val c - 48)) 0 s"

definition int64_range :: "int \<Rightarrow> bool" where
  "int64_range i \<longleftrightarrow> - (2 ^ 63) \<le> i \<and> i < 2 ^ 63"

text \<open>
  \<open>strconv.ParseInt (l, 10, 64)\<close> on the text of a JSON number: a fraction, an exponent and
  a value outside the range are errors.
\<close>

definition parse_int64 :: "string \<Rightarrow> int option" where
  "parse_int64 l =
     (let neg = has_prefix l ''-''; ds = (if neg then drop 1 l else l);
          i = (if neg then - int (nat_value ds) else int (nat_value ds))
      in if ds \<noteq> [] \<and> list_all is_digit ds \<and> int64_range i then Some i else None)"

definition jint :: "int \<Rightarrow> json" where
  "jint i = JNum (dec_int i)"

section \<open>Field names\<close>

text \<open>
  A member belongs to the field of the same name, else to the first field whose name is
  equal under simple case folding: ASCII case, and the Kelvin sign and the long s.
\<close>

definition fold_byte :: "char \<Rightarrow> char" where
  "fold_byte c = (if 97 \<le> byte_val c \<and> byte_val c \<le> 122 then char_of (byte_val c - 32) else c)"

fun fold_name :: "string \<Rightarrow> string" where
  "fold_name [] = []"
| "fold_name (c # s) =
     (if has_prefix (c # s) [CHR 0xE2, CHR 0x84, CHR 0xAA] then CHR ''K'' # fold_name (drop 2 s)
      else if has_prefix (c # s) [CHR 0xC5, CHR 0xBF] then CHR ''S'' # fold_name (drop 1 s)
      else fold_byte c # fold_name s)"

definition field_of :: "string list \<Rightarrow> string \<Rightarrow> string option" where
  "field_of names k =
     (if k \<in> set names then Some k else find (\<lambda>n. fold_name n = fold_name k) names)"


section \<open>Unquoting inverts quoting\<close>

lemma byte_val_text_lits [simp]:
  "byte_val CHR ''<'' = 60" "byte_val CHR ''>'' = 62" "byte_val CHR ''&'' = 38"
  "byte_val CHR ''b'' = 98" "byte_val CHR ''r'' = 114" "byte_val CHR ''d'' = 100"
  "byte_val CHR ''2'' = 50" "byte_val CHR ''8'' = 56" "byte_val CHR ''9'' = 57"
  "byte_val CHR 0x08 = 8" "byte_val CHR 0x0C = 12" "byte_val CHR ''/'' = 47"
  "byte_val CHR 0xE2 = 226" "byte_val CHR 0x80 = 128" "byte_val CHR 0xA8 = 168"
  "byte_val CHR 0xA9 = 169" "byte_val CHR ''+'' = 43"
  by (simp_all add: byte_val_def)

lemma byte_val_char_of [simp]: "n < 256 \<Longrightarrow> byte_val (char_of n) = n"
  by (simp add: byte_val_def)

lemma char_of_byte_val [simp]: "char_of (byte_val c) = c"
  by (simp add: byte_val_def)

lemma rune_len_ascii [simp]: "byte_val c < 128 \<Longrightarrow> rune_len (c # s) = 1"
  by (simp add: rune_len_def rune_need_def)

lemma rune_need_1: "rune_need c = Suc 0 \<longleftrightarrow> byte_val c < 128"
  by (simp add: rune_need_def)

lemma rune_len_eq_1: "rune_len (c # s) = 1 \<Longrightarrow> byte_val c < 128"
  by (auto simp: rune_len_def rune_need_1 split: if_splits list.splits)

lemma rune_len_le: "rune_len s \<le> length s"
  by (cases s) (auto simp: rune_len_def split: if_splits list.splits)

lemma rune_len_long:
  assumes "1 < rune_len s"
  obtains a b r where "s = a # b # r" and "rune_need a = rune_len s" and "second_ok a b"
    and "rune_len s - 2 \<le> length r" and "list_all cont_byte (take (rune_len s - 2) r)"
  using assms by (auto simp: rune_len_def split: if_splits list.splits)

lemma rune_len_take [simp]:
  assumes "0 < rune_len s"
  shows "rune_len (take (rune_len s) s @ t) = rune_len s"
proof (cases "1 < rune_len s")
  case True
  then obtain a b r where s: "s = a # b # r" and n: "rune_need a = rune_len s" and ok: "second_ok a b"
    and le: "rune_len s - 2 \<le> length r" and co: "list_all cont_byte (take (rune_len s - 2) r)"
    by (rule rune_len_long)
  have "take (rune_len s) s = a # b # take (rune_len s - 2) r"
    using True s by (simp add: take_Cons' numeral_2_eq_2)
  then show ?thesis using True n ok le co
    by (simp add: rune_len_def [of "a # b # _"])
next
  case False
  with assms obtain a r where "s = a # r" and "rune_len s = 1" by (cases s) (auto simp: rune_len_def)
  then show ?thesis using rune_len_eq_1 [of a r] by simp
qed

lemma rune_bytes_high:
  assumes "1 < rune_len s"
  shows "\<forall>c \<in> set (take (rune_len s) s). 128 \<le> byte_val c"
proof -
  obtain a b r where s: "s = a # b # r" and n: "rune_need a = rune_len s" and ok: "second_ok a b"
    and co: "list_all cont_byte (take (rune_len s - 2) r)"
    using assms by (rule rune_len_long)
  have "take (rune_len s) s = a # b # take (rune_len s - 2) r"
    using assms s by (simp add: take_Cons' numeral_2_eq_2)
  moreover have "128 \<le> byte_val a" using n assms by (auto simp: rune_need_def byte_in_def split: if_splits)
  moreover have "128 \<le> byte_val b" using ok by (auto simp: second_ok_def byte_in_def split: if_splits)
  ultimately show ?thesis using co by (auto simp: list_all_iff cont_byte_def)
qed

lemma is_hex_digit [simp]: "n < 16 \<Longrightarrow> is_hex (hex_digit n)"
  by (auto simp: is_hex_def is_digit_def hex_digit_def)

lemma hex_value_digit [simp]: "n < 16 \<Longrightarrow> hex_value (hex_digit n) = n"
  by (auto simp: hex_value_def is_digit_def hex_digit_def)

lemma hex_value_lits [simp]:
  "hex_value CHR ''0'' = 0" "hex_value CHR ''2'' = 2" "hex_value CHR ''8'' = 8" "hex_value CHR ''9'' = 9"
  by (simp_all add: hex_value_def is_digit_def)

lemma unquote_esc_byte:
  assumes "byte_val c < 128"
  shows "unquote_text (esc_byte c @ t) = c # unquote_text t"
proof (cases "needs_hex c")
  case True
  have "byte_val c div 16 < 16" using assms by simp
  then have "hex4_value (CHR ''0'' # CHR ''0'' # hex_digit (byte_val c div 16)
      # hex_digit (byte_val c mod 16) # t) = byte_val c"
    by (simp add: hex4_value_def)
  with True assms show ?thesis
    by (auto simp: esc_byte_def simple_unescape_def is_surrogate_def encode_rune_def Let_def needs_hex_def)
next
  case False
  with assms show ?thesis by (auto simp: esc_byte_def simple_unescape_def needs_hex_def)
qed

lemma unquote_line_sep:
  assumes "line_sep s"
  shows "unquote_text (esc_line_sep s @ t) = take 3 s @ unquote_text t"
proof -
  have "hex4_value (CHR ''2'' # CHR ''0'' # CHR ''2'' # CHR ''8'' # t) = 8232"
    and "hex4_value (CHR ''2'' # CHR ''0'' # CHR ''2'' # CHR ''9'' # t) = 8233"
    by (simp_all add: hex4_value_def)
  moreover from assms obtain u where "s = [CHR 0xE2, CHR 0x80, CHR 0xA8] @ u
      \<or> s = [CHR 0xE2, CHR 0x80, CHR 0xA9] @ u"
    by (auto simp: line_sep_def has_prefix_iff)
  moreover have "char_of (226 :: nat) = CHR 0xE2" "char_of (128 :: nat) = CHR 0x80"
    "char_of (168 :: nat) = CHR 0xA8" "char_of (169 :: nat) = CHR 0xA9"
    using char_of_byte_val [of "CHR 0xE2"] char_of_byte_val [of "CHR 0x80"]
      char_of_byte_val [of "CHR 0xA8"] char_of_byte_val [of "CHR 0xA9"]
    by (simp_all del: char_of_byte_val)
  ultimately show ?thesis
    by (auto simp: esc_line_sep_def is_surrogate_def encode_rune_def)
qed

lemma line_sep_len: "line_sep s \<Longrightarrow> rune_len s = 3"
  by (auto simp: line_sep_def has_prefix_iff rune_len_def rune_need_def second_ok_def byte_in_def
      cont_byte_def)

theorem unquote_quote [json_rt]: "valid_utf8 s \<Longrightarrow> unquote_text (quote_text s) = s"
proof (induction s rule: quote_text.induct)
  case (2 c s)
  let ?n = "rune_len (c # s)"
  from 2 have n: "0 < ?n" and v: "valid_utf8 (drop (?n - 1) s)" by auto
  consider "?n = 1" | "line_sep (c # s)" | "1 < ?n" "\<not> line_sep (c # s)" using n by linarith
  then show ?case
  proof cases
    case 1
    then show ?thesis using 2 v rune_len_eq_1 [OF 1] unquote_esc_byte by simp
  next
    case 2
    note sep = this
    then have "?n = 3" by (rule line_sep_len)
    then show ?thesis using "2.IH"(3) sep v unquote_line_sep [OF sep] by simp
  next
    case 3
    let ?m = "take (?n - 1) s"
    have tk: "take ?n (c # s) = c # ?m" using n by (simp add: take_Cons')
    have c: "c \<noteq> CHR 0x5C"
      using rune_bytes_high [OF 3(1)] tk by auto
    have "rune_len (c # ?m @ quote_text (drop (?n - 1) s)) = ?n"
      using rune_len_take [OF n] tk by simp
    moreover have "take ?n (c # ?m @ u) = c # ?m" for u
      using rune_len_le [of "c # s"] 3(1) by (simp add: take_Cons' min_def)
    moreover have "drop (?n - 1) (?m @ u) = u" for u
      using rune_len_le [of "c # s"] by simp
    ultimately show ?thesis using "2.IH"(4) 3 v tk c n
      by (simp del: take_Suc_Cons)
  qed
qed simp

lemma raw_ok_high:
  "\<forall>c \<in> set a. 128 \<le> byte_val c \<Longrightarrow> raw_ok (a @ t) \<longleftrightarrow> raw_ok t"
  by (induction a) auto

lemma is_hex_lits [simp]:
  "is_hex CHR ''0''" "is_hex CHR ''2''" "is_hex CHR ''8''" "is_hex CHR ''9''" "is_hex CHR ''f''"
  "is_hex CHR ''d''"
  by (simp_all add: is_hex_def is_digit_def)

lemma raw_ok_esc_byte:
  assumes "byte_val c < 128"
  shows "raw_ok (esc_byte c @ t) \<longleftrightarrow> raw_ok t"
proof -
  have "byte_val c div 16 < 16" using assms by simp
  then show ?thesis by (auto simp: esc_byte_def needs_hex_def simple_escape_def)
qed

lemma raw_ok_esc_line_sep [simp]: "raw_ok (esc_line_sep s @ t) \<longleftrightarrow> raw_ok t"
  by (auto simp: esc_line_sep_def)

lemma raw_ok_quote [simp]: "raw_ok (quote_text s)"
proof (induction s rule: quote_text.induct)
  case (2 c s)
  let ?n = "rune_len (c # s)"
  consider "?n = 0" | "?n = 1" | "line_sep (c # s)" "1 < ?n" | "1 < ?n" "\<not> line_sep (c # s)" by linarith
  then show ?case
  proof cases
    case 1
    then show ?thesis using 2 by simp
  next
    case 2
    then show ?thesis using "2.IH"(2) rune_len_eq_1 [OF 2] by (simp add: raw_ok_esc_byte)
  next
    case 3
    then show ?thesis using "2.IH"(3) by simp
  next
    case 4
    then show ?thesis using "2.IH"(4) raw_ok_high [OF rune_bytes_high [OF 4(1)]] by simp
  qed
qed simp


section \<open>HTML escaping\<close>

lemma html_hex: "\<forall>c \<in> set a. byte_val c < 128 \<and> c \<notin> {CHR ''<'', CHR ''>'', CHR ''&''} \<Longrightarrow>
    html_text (a @ t) = a @ html_text t"
proof (induction a)
  case (Cons c a)
  then have "byte_val c < 128" "c \<noteq> CHR ''<''" "c \<noteq> CHR ''>''" "c \<noteq> CHR ''&''" by simp_all
  moreover from this have "c \<noteq> CHR 0xE2" by (intro notI) simp
  then have "\<not> line_sep (c # a @ t)" by (simp add: line_sep_def)
  ultimately show ?case using Cons by simp
qed simp

lemma is_hex_plain: "is_hex c \<Longrightarrow> byte_val c < 128 \<and> c \<notin> {CHR ''<'', CHR ''>'', CHR ''&''}"
  by (auto simp: is_hex_def is_digit_def)

lemma raw_ok_html [simp]: "raw_ok r \<Longrightarrow> raw_ok (html_text r)"
proof (induction r rule: raw_ok.induct)
  case (2 c s)
  show ?case
  proof (cases "c = CHR 0x5C")
    case True
    with "2.prems" obtain e s' where s: "s = e # s'" by (cases s) auto
    show ?thesis
    proof (cases "e = CHR ''u''")
      case u: True
      let ?h = "take 4 s'"
      from 2 True s u have h: "4 \<le> length s'" "list_all is_hex ?h" and r: "raw_ok (html_text (drop 4 s'))"
        by auto
      have "html_text (?h @ drop 4 s') = ?h @ html_text (drop 4 s')"
        using h(2) is_hex_plain by (intro html_hex) (auto simp: list_all_iff)
      then have "html_text s' = ?h @ html_text (drop 4 s')" by simp
      moreover have "length ?h = 4" using h(1) by simp
      ultimately show ?thesis using True s u h r by (simp add: line_sep_def)
    next
      case False
      with 2 True s show ?thesis by (auto simp: line_sep_def simple_escape_def)
    qed
  next
    case False
    with 2 have r: "raw_ok (html_text s)" by auto
    show ?thesis
    proof (cases "line_sep (c # s)")
      case True
      then obtain x u where s: "s = CHR 0x80 # x # u" and x: "x = CHR 0xA8 \<or> x = CHR 0xA9"
        by (auto simp: line_sep_def has_prefix_iff)
      then have "html_text s = CHR 0x80 # x # html_text u"
        by (auto simp: line_sep_def)
      with r x have "raw_ok (html_text u)" by auto
      with True s show ?thesis by (auto simp: line_sep_def has_prefix_iff)
    next
      case not_sep: False
      have "32 \<le> byte_val c" and "c \<noteq> CHR 0x22" using "2.prems" by simp_all
      with r False not_sep show ?thesis
        by (simp add: raw_ok_esc_byte)
    qed
  qed
qed simp

lemma html_esc_wf [simp]: "jwf j \<Longrightarrow> jwf (html_esc j)"
  by (induction j) (auto simp: prod_set_defs)

lemma html_esc_depth [simp]: "jdepth (html_esc j) = jdepth j"
proof (induction j)
  case (JArr vs)
  then have "jdepth ` html_esc ` set vs = jdepth ` set vs" by (auto simp: image_iff)
  then show ?case by (simp add: image_image)
next
  case (JObj ms)
  then have "(\<lambda>m. jdepth (html_esc (snd m))) ` set ms = (\<lambda>m. jdepth (snd m)) ` set ms"
    by (intro image_cong) auto
  then show ?case by (simp add: image_image)
qed auto

section \<open>Integers\<close>

lemma is_digit_char [simp]: "(n :: nat) < 10 \<Longrightarrow> is_digit (char_of (48 + n))"
  by (simp add: is_digit_def)

lemma dec_nat_digits: "list_all is_digit (dec_nat n) \<and> dec_nat n \<noteq> []"
proof (induction n rule: dec_nat.induct)
  case (1 n)
  have "n mod 10 < 10" by simp
  with 1 show ?case by (subst dec_nat.simps, subst (2) dec_nat.simps) auto
qed

lemma nat_value_append: "nat_value (a @ [c]) = 10 * nat_value a + (byte_val c - 48)"
  by (simp add: nat_value_def)

lemma nat_value_dec [simp]: "nat_value (dec_nat n) = n"
proof (induction n rule: dec_nat.induct)
  case (1 n)
  have "n mod 10 < 10" by simp
  then have "48 + n mod 10 < 256" by linarith
  with 1 show ?case
    by (subst dec_nat.simps) (auto simp: nat_value_append simp: nat_value_def [of "[_]"])
qed

lemma dec_nat_head: "dec_nat n = CHR ''0'' # r \<Longrightarrow> r = []"
proof (induction n arbitrary: r rule: dec_nat.induct)
  case (1 n)
  show ?case
  proof (cases "n < 10")
    case True
    with 1 show ?thesis by (simp add: dec_nat.simps [of n])
  next
    case False
    then have n: "dec_nat n = dec_nat (n div 10) @ [char_of (48 + n mod 10)]"
      by (simp add: dec_nat.simps [of n])
    obtain c t where c: "dec_nat (n div 10) = c # t"
      using dec_nat_digits [of "n div 10"] by (cases "dec_nat (n div 10)") auto
    with n 1 have "c = CHR ''0''" by simp
    with 1 False c have "t = []" by simp
    with c \<open>c = CHR ''0''\<close> have "nat_value (dec_nat (n div 10)) = 0" by (simp add: nat_value_def)
    with False show ?thesis by simp
  qed
qed

lemma digits_scan: "list_all is_digit s \<Longrightarrow> takeWhile is_digit s = s \<and> dropWhile is_digit s = []"
  by (induction s) auto

lemma scan_int_dec: "scan_int (dec_nat n) = Some (dec_nat n, [])"
proof -
  obtain c t where c: "dec_nat n = c # t"
    using dec_nat_digits [of n] by (cases "dec_nat n") auto
  then have "is_digit c" and "list_all is_digit t" using dec_nat_digits [of n] by auto
  with c dec_nat_head [of n t] show ?thesis
    using digits_scan [of t] by (auto simp: scan_int_def)
qed

lemma dec_nat_no_sign: "\<not> has_prefix (dec_nat n) ''-''"
  using dec_nat_digits [of n] by (cases "dec_nat n") (auto simp: is_digit_def)

lemma num_ok_dec_int [simp]: "num_ok (dec_int i)"
  using dec_nat_no_sign
  by (simp add: num_ok_def scan_num_def dec_int_def scan_int_dec scan_frac_def scan_exp_def)

theorem parse_dec_int [json_rt]: "int64_range i \<Longrightarrow> parse_int64 (dec_int i) = Some i"
  using dec_nat_no_sign dec_nat_digits by (simp add: parse_int64_def dec_int_def)

section \<open>Printed documents have no control bytes\<close>

lemma raw_ok_printable: "raw_ok r \<Longrightarrow> c \<in> set r \<Longrightarrow> 32 \<le> byte_val c"
proof (induction r rule: raw_ok.induct)
  case (2 b s)
  show ?case
  proof (cases "b = CHR 0x5C")
    case True
    with "2.prems" obtain e s' where s: "s = e # s'" by (cases s) auto
    show ?thesis
    proof (cases "e = CHR ''u''")
      case u: True
      have "set s' = set (take 4 s') \<union> set (drop 4 s')" by (metis append_take_drop_id set_append)
      moreover have "\<forall>x \<in> set (take 4 s'). 32 \<le> byte_val x"
        using "2.prems" True s u by (auto simp: list_all_iff is_hex_def is_digit_def)
      ultimately show ?thesis using 2 True s u by auto
    next
      case False
      then show ?thesis using 2 True s by (auto simp: simple_escape_def)
    qed
  next
    case False
    then show ?thesis using 2 by auto
  qed
qed simp

lemma takeWhile_digits: "c \<in> set (takeWhile is_digit s) \<Longrightarrow> is_digit c"
  by (auto dest: set_takeWhileD)

lemma scan_int_chars: "scan_int s = Some (i, t) \<Longrightarrow> c \<in> set i \<Longrightarrow> is_digit c"
  by (auto simp: scan_int_def is_digit_def [of "CHR ''0''"] split: list.splits if_splits
      dest: takeWhile_digits)

lemma scan_frac_chars: "scan_frac s = Some (f, t) \<Longrightarrow> c \<in> set f \<Longrightarrow> is_digit c \<or> c = CHR ''.''"
  by (auto simp: scan_frac_def split: list.splits if_splits dest: takeWhile_digits)

lemma scan_exp_chars:
  "scan_exp s = Some (e, t) \<Longrightarrow> c \<in> set e
     \<Longrightarrow> is_digit c \<or> c \<in> {CHR ''-'', CHR ''+'', CHR ''e'', CHR ''E''}"
  by (auto simp: scan_exp_def Let_def split: list.splits if_splits dest: takeWhile_digits)

lemma num_ok_printable:
  assumes "num_ok l" and "c \<in> set l"
  shows "32 \<le> byte_val c"
proof -
  define sg where "sg = (if has_prefix l ''-'' then ''-'' else [])"
  from assms(1) obtain i s1 f s2 e where
    "scan_int (drop (length sg) l) = Some (i, s1)" "scan_frac s1 = Some (f, s2)"
    "scan_exp s2 = Some (e, [])" and l: "l = sg @ i @ f @ e"
    unfolding num_ok_def scan_num_def Let_def sg_def by (auto split: option.splits prod.splits)
  moreover have "set sg \<subseteq> {CHR ''-''}" by (auto simp: sg_def)
  then have "c = CHR ''-'' \<or> c \<in> set i \<or> c \<in> set f \<or> c \<in> set e"
    using assms(2) by (subst (asm) l) auto
  ultimately have "is_digit c \<or> c \<in> {CHR ''-'', CHR ''+'', CHR ''.'', CHR ''e'', CHR ''E''}"
    using scan_int_chars scan_frac_chars scan_exp_chars by blast
  then show ?thesis by (auto simp: is_digit_def)
qed

lemma printable_lits:
  "32 \<le> byte_val CHR ''l''" "32 \<le> byte_val CHR ''a''" "32 \<le> byte_val CHR ''s''"
  by (simp_all add: byte_val_def)

lemma jprint_printable:
  "jwf j \<Longrightarrow> \<forall>c \<in> set (jprint j). 32 \<le> byte_val c"
  "\<forall>v \<in> set vs. jwf v \<Longrightarrow> \<forall>c \<in> set (jprint_elems vs). 32 \<le> byte_val c"
  "\<forall>m \<in> set ms. raw_ok (fst m) \<and> jwf (snd m) \<Longrightarrow> \<forall>c \<in> set (jprint_mems ms). 32 \<le> byte_val c"
  by (induction j and vs and ms rule: jprint_jprint_elems_jprint_mems.induct)
     (auto simp: jquote_def printable_lits dest: raw_ok_printable num_ok_printable split: if_splits)

end
