(* ===== verification/Json_Struct.thy ===== *)
theory Json_Struct
  imports Json_Text
begin

text \<open>
  Go structs through \<open>encoding/json\<close>: \<open>decode_mems\<close> assigns the members of an object to the
  fields of a struct in document order (a later duplicate overwrites, an unknown member is
  ignored, a member of the wrong type makes \<open>json.Unmarshal\<close> report an error), and the
  \<open>_mem\<close> functions give the members that \<open>json.Marshal\<close> writes, with \<open>omitempty\<close> where the
  tag has it. A Go \<open>map[string]string\<close> is an association list; \<open>json.Marshal\<close> writes it in
  the order of its keys and \<open>json.Unmarshal\<close> builds it by \<open>smap_put\<close>, in the same order.
\<close>

type_synonym smap = "(string \<times> string) list"

fun smap_put :: "string \<Rightarrow> 'a \<Rightarrow> (string \<times> 'a) list \<Rightarrow> (string \<times> 'a) list" where
  "smap_put k v [] = [(k, v)]"
| "smap_put k v ((k', v') # m) =
     (if k = k' then (k, v) # m
      else if k < k' then (k, v) # (k', v') # m
      else (k', v') # smap_put k v m)"

definition smap_sorted :: "(string \<times> 'a) list \<Rightarrow> bool" where
  "smap_sorted m \<longleftrightarrow> sorted_wrt (<) (map fst m)"

text \<open>A \<open>json.RawMessage\<close>: absent, a document, or bytes that are no document.\<close>

datatype raw_message = RawNone | RawDoc json | RawBad

section \<open>Decoding\<close>

definition dec_string :: "json \<Rightarrow> string \<Rightarrow> string option" where
  "dec_string j old =
     (case j of JStr r \<Rightarrow> Some (unquote_text r) | JNull \<Rightarrow> Some old | _ \<Rightarrow> None)"

definition dec_int64 :: "json \<Rightarrow> int \<Rightarrow> int option" where
  "dec_int64 j old = (case j of JNum l \<Rightarrow> parse_int64 l | JNull \<Rightarrow> Some old | _ \<Rightarrow> None)"

definition dec_bool :: "json \<Rightarrow> bool \<Rightarrow> bool option" where
  "dec_bool j old = (case j of JBool b \<Rightarrow> Some b | JNull \<Rightarrow> Some old | _ \<Rightarrow> None)"

fun dec_smap_mems :: "(string \<times> json) list \<Rightarrow> smap \<Rightarrow> smap option" where
  "dec_smap_mems [] m = Some m"
| "dec_smap_mems (kv # ms) m =
     (case dec_string (snd kv) [] of
        None \<Rightarrow> None
      | Some v \<Rightarrow> dec_smap_mems ms (smap_put (unquote_text (fst kv)) v m))"

definition dec_smap :: "json \<Rightarrow> smap \<Rightarrow> smap option" where
  "dec_smap j old =
     (case j of JObj ms \<Rightarrow> dec_smap_mems ms old | JNull \<Rightarrow> Some [] | _ \<Rightarrow> None)"

fun decode_mems ::
  "(string \<Rightarrow> json \<Rightarrow> 'a \<Rightarrow> 'a option) \<Rightarrow> string list \<Rightarrow> (string \<times> json) list \<Rightarrow> 'a \<Rightarrow> 'a option"
where
  "decode_mems set_field names [] x = Some x"
| "decode_mems set_field names (kv # ms) x =
     (case field_of names (unquote_text (fst kv)) of
        None \<Rightarrow> decode_mems set_field names ms x
      | Some n \<Rightarrow>
          (case set_field n (snd kv) x of
             None \<Rightarrow> None
           | Some x' \<Rightarrow> decode_mems set_field names ms x'))"

definition decode_struct ::
  "(string \<Rightarrow> json \<Rightarrow> 'a \<Rightarrow> 'a option) \<Rightarrow> string list \<Rightarrow> json \<Rightarrow> 'a \<Rightarrow> 'a option"
where
  "decode_struct set_field names j x =
     (case j of
        JObj ms \<Rightarrow> decode_mems set_field names ms x
      | JNull \<Rightarrow> Some x
      | _ \<Rightarrow> None)"

section \<open>Encoding\<close>

definition str_mem :: "string \<Rightarrow> string \<Rightarrow> (string \<times> json) list" where
  "str_mem n s = [(n, jstring s)]"

definition str_mem_opt :: "string \<Rightarrow> string \<Rightarrow> (string \<times> json) list" where
  "str_mem_opt n s = (if s = [] then [] else str_mem n s)"

definition int_mem :: "string \<Rightarrow> int \<Rightarrow> (string \<times> json) list" where
  "int_mem n i = [(n, jint i)]"

definition int_mem_opt :: "string \<Rightarrow> int \<Rightarrow> (string \<times> json) list" where
  "int_mem_opt n i = (if i = 0 then [] else int_mem n i)"

definition smap_json :: "smap \<Rightarrow> json" where
  "smap_json m = JObj (map (\<lambda>(k, v). (quote_text k, jstring v)) (sort_key fst m))"

definition smap_mem_opt :: "string \<Rightarrow> smap \<Rightarrow> (string \<times> json) list" where
  "smap_mem_opt n m = (if m = [] then [] else [(n, smap_json m)])"

definition raw_mem_opt :: "string \<Rightarrow> raw_message \<Rightarrow> (string \<times> json) list" where
  "raw_mem_opt n r = (case r of RawDoc j \<Rightarrow> [(n, html_esc j)] | _ \<Rightarrow> [])"

section \<open>Lemmas\<close>

lemma dec_string_simps [simp, json_rt]:
  "dec_string JNull old = Some old"
  "valid_utf8 s \<Longrightarrow> dec_string (jstring s) old = Some s"
  by (simp_all add: dec_string_def jstring_def unquote_quote)

lemma dec_int64_simps [simp, json_rt]:
  "dec_int64 JNull old = Some old"
  "int64_range i \<Longrightarrow> dec_int64 (jint i) old = Some i"
  by (simp_all add: dec_int64_def jint_def parse_dec_int)

lemma decode_mems_append [simp]:
  "decode_mems f names (ms @ ms') x = Option.bind (decode_mems f names ms x) (decode_mems f names ms')"
  by (induction ms arbitrary: x) (auto split: option.splits)

lemma jstring_wf [simp]: "jwf (jstring s)" "jdepth (jstring s) = 0"
  by (simp_all add: jstring_def)

lemma jint_wf [simp]: "jwf (jint i)" "jdepth (jint i) = 0"
  by (simp_all add: jint_def)

lemma smap_put_dom [simp]: "fst ` set (smap_put k v m) = insert k (fst ` set m)"
  by (induction k v m rule: smap_put.induct) auto

lemma smap_put_sorted: "smap_sorted m \<Longrightarrow> smap_sorted (smap_put k v m)"
proof (induction m)
  case (Cons p m)
  obtain k' v' where p: "p = (k', v')" by (cases p)
  show ?case
  proof (cases "k' < k")
    case True
    have "\<forall>x \<in> set (map fst (smap_put k v m)). k' < x"
      using Cons.prems p True smap_put_dom [of k v m] by (auto simp: smap_sorted_def)
    with Cons p True show ?thesis by (auto simp: smap_sorted_def)
  next
    case False
    with Cons.prems p show ?thesis by (auto simp: smap_sorted_def)
  qed
qed (simp add: smap_sorted_def)

lemma smap_put_last:
  "(\<forall>p \<in> set m. fst p < k) \<Longrightarrow> smap_put k v m = m @ [(k, v)]"
  by (induction m) auto

lemma map_of_smap_put: "smap_sorted m \<Longrightarrow> map_of (smap_put k v m) = (map_of m)(k \<mapsto> v)"
proof (induction m)
  case (Cons p m)
  obtain k' v' where p: "p = (k', v')" by (cases p)
  have "k \<notin> fst ` set m" if "k < k'" using Cons.prems p that by (auto simp: smap_sorted_def)
  with Cons p show ?case by (auto simp: smap_sorted_def fun_eq_iff map_of_eq_None_iff)
qed simp

definition smap_utf8 :: "smap \<Rightarrow> bool" where
  "smap_utf8 m \<longleftrightarrow> (\<forall>p \<in> set m. valid_utf8 (fst p) \<and> valid_utf8 (snd p))"

lemma dec_smap_mems_sorted:
  "smap_sorted (a @ m) \<Longrightarrow> smap_utf8 m \<Longrightarrow>
     dec_smap_mems (map (\<lambda>(k, v). (quote_text k, jstring v)) m) a = Some (a @ m)"
proof (induction m arbitrary: a)
  case (Cons p m)
  obtain k v where p: "p = (k, v)" by (cases p)
  have "\<forall>q \<in> set a. fst q < k"
    using Cons.prems p by (auto simp: smap_sorted_def sorted_wrt_append)
  then have "smap_put k v a = a @ [(k, v)]" by (rule smap_put_last)
  moreover have "valid_utf8 k" "valid_utf8 v" using Cons.prems p by (auto simp: smap_utf8_def)
  ultimately show ?case
    using Cons.IH [of "a @ [(k, v)]"] Cons.prems p by (auto simp: unquote_quote smap_utf8_def)
qed simp

lemma smap_sorted_distinct: "smap_sorted m \<Longrightarrow> distinct (map fst m)"
  by (auto simp: smap_sorted_def intro: strict_sorted_iff [THEN iffD1, THEN conjunct2])

lemma sort_key_smap: "distinct (map fst m) \<Longrightarrow> smap_sorted (sort_key fst m)"
  by (simp add: smap_sorted_def strict_sorted_iff distinct_map)

theorem dec_smap_json [json_rt]:
  assumes "distinct (map fst m)" and "smap_utf8 m"
  shows "dec_smap (smap_json m) [] = Some (sort_key fst m)"
  using dec_smap_mems_sorted [of "[]" "sort_key fst m"] sort_key_smap [OF assms(1)] assms(2)
  by (simp add: dec_smap_def smap_json_def smap_utf8_def)

lemma smap_json_wf [simp]: "jwf (smap_json m)" "jdepth (smap_json m) \<le> 1"
  by (auto simp: smap_json_def image_image case_prod_beta image_constant_conv)


section \<open>Struct members\<close>

text \<open>Names that quoting leaves alone, which all field names are.\<close>

definition plain :: "string \<Rightarrow> bool" where
  "plain n \<longleftrightarrow> list_all (\<lambda>c. 32 \<le> byte_val c \<and> byte_val c < 128 \<and> c \<noteq> CHR 0x22 \<and> c \<noteq> CHR 0x5C) n"

lemma plain_raw_ok [simp]: "plain n \<Longrightarrow> raw_ok n"
  by (induction n) (auto simp: plain_def)

lemma plain_unquote [simp]: "plain n \<Longrightarrow> unquote_text n = n"
  by (induction n) (auto simp: plain_def)

lemmas mem_defs = str_mem_opt_def str_mem_def int_mem_opt_def int_mem_def smap_mem_opt_def
  raw_mem_opt_def

lemma decode_one:
  "plain n \<Longrightarrow> n \<in> set names \<Longrightarrow> decode_mems f names [(n, j)] x = f n j x"
  by (auto simp: field_of_def split: option.splits)

lemma decode_str_mem [json_rt]:
  "plain n \<Longrightarrow> n \<in> set names \<Longrightarrow> decode_mems f names (str_mem n s) x = f n (jstring s) x"
  by (simp add: str_mem_def decode_one del: decode_mems.simps)

lemma decode_int_mem [json_rt]:
  "plain n \<Longrightarrow> n \<in> set names \<Longrightarrow> decode_mems f names (int_mem n i) x = f n (jint i) x"
  by (simp add: int_mem_def decode_one del: decode_mems.simps)

lemma decode_str_mem_opt [json_rt]:
  "plain n \<Longrightarrow> n \<in> set names \<Longrightarrow> f n (jstring []) x = Some x
     \<Longrightarrow> decode_mems f names (str_mem_opt n s) x = f n (jstring s) x"
  by (cases "s = []") (simp_all add: str_mem_opt_def decode_str_mem)

lemma decode_int_mem_opt [json_rt]:
  "plain n \<Longrightarrow> n \<in> set names \<Longrightarrow> f n (jint 0) x = Some x
     \<Longrightarrow> decode_mems f names (int_mem_opt n i) x = f n (jint i) x"
  by (cases "i = 0") (simp_all add: int_mem_opt_def decode_int_mem)

lemma mem_json_wf [simp]:
  "plain n \<Longrightarrow> m \<in> set (str_mem n s) \<Longrightarrow> raw_ok (fst m) \<and> jwf (snd m) \<and> jdepth (snd m) = 0"
  "plain n \<Longrightarrow> m \<in> set (str_mem_opt n s) \<Longrightarrow> raw_ok (fst m) \<and> jwf (snd m) \<and> jdepth (snd m) = 0"
  "plain n \<Longrightarrow> m \<in> set (int_mem n i) \<Longrightarrow> raw_ok (fst m) \<and> jwf (snd m) \<and> jdepth (snd m) = 0"
  "plain n \<Longrightarrow> m \<in> set (int_mem_opt n i) \<Longrightarrow> raw_ok (fst m) \<and> jwf (snd m) \<and> jdepth (snd m) = 0"
  by (auto simp: mem_defs split: if_splits)

lemma int64_range_0 [simp]: "int64_range 0"
  by (simp add: int64_range_def)

text \<open>An object whose members are well-formed and flat enough.\<close>

lemma jobj_wf:
  assumes "\<And>m. m \<in> set ms \<Longrightarrow> raw_ok (fst m) \<and> jwf (snd m) \<and> jdepth (snd m) \<le> k"
  shows "jwf (JObj ms) \<and> jdepth (JObj ms) \<le> Suc k"
  using assms by auto

end
