(* ===== verification/Contract.thy ===== *)
theory Contract
  imports Wire_Prelude
begin

text \<open>
  \<open>contract/contract.go\<close>: the version every arm declares, the compatibility of a stamp with
  it, and the names of the two modes, directions and atoms. The locale \<open>stamped\<close> is the
  contract of an artifact that carries a stamp (a run request, a run result, a trace frame).
\<close>

definition contract_version :: string where
  "contract_version = ''v0.0.3''"

definition major_minor :: "string \<Rightarrow> string" where
  "major_minor v0 =
     (let v = trim_prefix v0 ''v''
      in case last_index_byte v (CHR ''.'') of
           Some i \<Rightarrow> (if 0 < i then take i v else v)
         | None \<Rightarrow> v)"

definition compatible :: "string \<Rightarrow> bool" where
  "compatible v \<longleftrightarrow> (if v = [] then True else major_minor v = major_minor contract_version)"

definition mode_call :: string where "mode_call = ''call''"

definition mode_channel :: string where "mode_channel = ''channel''"

definition dir_efferent :: string where "dir_efferent = ''efferent''"

definition dir_afferent :: string where "dir_afferent = ''afferent''"

definition atom_call :: string where "atom_call = ''http_request''"

definition atom_channel :: string where "atom_channel = ''bidi_command''"

lemma major_minor_semver:
  assumes "mm \<noteq> []" and "hd mm \<noteq> CHR ''v''" and "CHR ''.'' \<notin> set p"
  shows "major_minor (''v'' @ mm @ CHR ''.'' # p) = mm"
    and "major_minor (mm @ CHR ''.'' # p) = mm"
proof -
  obtain c r where "mm = c # r" and "c \<noteq> CHR ''v''" using assms(1,2) by (cases mm) auto
  then have "trim_prefix (mm @ CHR ''.'' # p) ''v'' = mm @ CHR ''.'' # p"
    by (simp add: trim_prefix_def)
  with assms show "major_minor (''v'' @ mm @ CHR ''.'' # p) = mm"
    and "major_minor (mm @ CHR ''.'' # p) = mm"
    by (simp_all add: major_minor_def Let_def trim_prefix_def)
qed

lemma major_minor_version [simp]: "major_minor contract_version = ''0.0''"
  by (simp add: contract_version_def major_minor_def trim_prefix_def)

text \<open>
  A stamp \<open>v<major.minor>.<patch>\<close> (with or without the \<open>v\<close>) is compatible exactly when
  its major.minor is the contract's, 0.0, whatever the patch component; an empty stamp is
  compatible.
\<close>

theorem compatible_semver:
  assumes "mm \<noteq> []" and "hd mm \<noteq> CHR ''v''" and "CHR ''.'' \<notin> set p"
  shows "(compatible (''v'' @ mm @ CHR ''.'' # p) \<longleftrightarrow> mm = ''0.0'')
       \<and> (compatible (mm @ CHR ''.'' # p) \<longleftrightarrow> mm = ''0.0'')
       \<and> compatible []"
  using major_minor_semver [OF assms] by (simp add: compatible_def)

theorem compatible_semver_witness:
  "compatible ''v0.0.9'' \<and> compatible ''0.0.2'' \<and> \<not> compatible ''v0.1.0'' \<and> \<not> compatible ''v1.0.0''"
  using compatible_semver [of "''0.0''" "''9''"] compatible_semver [of "''0.0''" "''2''"]
    compatible_semver [of "''0.1''" "''0''"] compatible_semver [of "''1.0''" "''0''"]
  by simp

lemma compatible_version: "compatible contract_version"
  by (simp add: compatible_def contract_version_def)

text \<open>
  The dot of a pre-release component is taken for the one before the patch, so a
  pre-release of the contract's own version does not count as the same major.minor.
\<close>

lemma prerelease_incompatible: "\<not> compatible ''v0.0.3-rc.1''"
  by (simp add: compatible_def) (simp add: major_minor_def trim_prefix_def)

locale stamped =
  fixes stamp :: "'a \<Rightarrow> 'a" and stamp_of :: "'a \<Rightarrow> string"
  assumes stamp_version: "stamp_of (stamp x) = contract_version"
begin

lemma stamp_compatible: "compatible (stamp_of (stamp x))"
  by (simp add: stamp_version compatible_version)

lemma stamp_twice: "stamp_of (stamp (stamp x)) = stamp_of (stamp x)"
  by (simp add: stamp_version)

end

end
