(* ===== verification/Transports.thy ===== *)
theory Transports
  imports Json_Struct Contract
begin

text \<open>
  \<open>contract/transports/transports.go\<close>: the table of transports over the two atoms, its
  loading from the embedded \<open>transports.json\<close> and the honesty check \<open>Coherent\<close>, which
  reports the first entry that over-promises. The abstract specification is \<open>honest\<close>, a
  property of one entry without any order of checks; \<open>coherent_spec\<close> shows that the code's
  ordered checks accept a table exactly when every entry is honest.
\<close>

record transport_entry =
  ent_name :: string
  ent_mode :: string
  ent_where :: string
  ent_atom :: string
  ent_status :: string
  ent_stdlib_only :: bool
  ent_provided_by :: string
  ent_note :: string

record manifest =
  man_principle :: string
  man_modes :: smap
  man_transports :: "transport_entry list"

definition zero_entry :: transport_entry where
  "zero_entry = \<lparr>ent_name = [], ent_mode = [], ent_where = [], ent_atom = [], ent_status = [],
     ent_stdlib_only = False, ent_provided_by = [], ent_note = []\<rparr>"

definition zero_manifest :: manifest where
  "zero_manifest = \<lparr>man_principle = [], man_modes = [], man_transports = []\<rparr>"

section \<open>Loading\<close>

definition entry_fields :: "string list" where
  "entry_fields = [''name'', ''mode'', ''where'', ''atom'', ''status'', ''stdlib_only'',
     ''provided_by'', ''note'']"

definition set_entry_field :: "string \<Rightarrow> json \<Rightarrow> transport_entry \<Rightarrow> transport_entry option" where
  "set_entry_field n j e =
     (if n = ''name'' then map_option (\<lambda>s. e\<lparr>ent_name := s\<rparr>) (dec_string j (ent_name e))
      else if n = ''mode'' then map_option (\<lambda>s. e\<lparr>ent_mode := s\<rparr>) (dec_string j (ent_mode e))
      else if n = ''where'' then map_option (\<lambda>s. e\<lparr>ent_where := s\<rparr>) (dec_string j (ent_where e))
      else if n = ''atom'' then map_option (\<lambda>s. e\<lparr>ent_atom := s\<rparr>) (dec_string j (ent_atom e))
      else if n = ''status'' then map_option (\<lambda>s. e\<lparr>ent_status := s\<rparr>) (dec_string j (ent_status e))
      else if n = ''stdlib_only''
        then map_option (\<lambda>b. e\<lparr>ent_stdlib_only := b\<rparr>) (dec_bool j (ent_stdlib_only e))
      else if n = ''provided_by''
        then map_option (\<lambda>s. e\<lparr>ent_provided_by := s\<rparr>) (dec_string j (ent_provided_by e))
      else map_option (\<lambda>s. e\<lparr>ent_note := s\<rparr>) (dec_string j (ent_note e)))"

fun dec_entries :: "json list \<Rightarrow> transport_entry list option" where
  "dec_entries [] = Some []"
| "dec_entries (j # js) =
     (case decode_struct set_entry_field entry_fields j zero_entry of
        None \<Rightarrow> None
      | Some e \<Rightarrow> map_option (\<lambda>es. e # es) (dec_entries js))"

definition set_manifest_field :: "string \<Rightarrow> json \<Rightarrow> manifest \<Rightarrow> manifest option" where
  "set_manifest_field n j m =
     (if n = ''principle'' then map_option (\<lambda>s. m\<lparr>man_principle := s\<rparr>) (dec_string j (man_principle m))
      else if n = ''modes'' then map_option (\<lambda>s. m\<lparr>man_modes := s\<rparr>) (dec_smap j (man_modes m))
      else (case j of
              JArr js \<Rightarrow> map_option (\<lambda>es. m\<lparr>man_transports := es\<rparr>) (dec_entries js)
            | JNull \<Rightarrow> Some (m\<lparr>man_transports := []\<rparr>)
            | _ \<Rightarrow> None))"

datatype load_error = DoesNotParse | ZeroTransports

definition load :: "string \<Rightarrow> load_error + manifest" where
  "load raw =
     (case Option.bind (parse_json raw)
             (\<lambda>j. decode_struct set_manifest_field [''principle'', ''modes'', ''transports''] j
                    zero_manifest) of
        None \<Rightarrow> Inl DoesNotParse
      | Some m \<Rightarrow> if length (man_transports m) = 0 then Inl ZeroTransports else Inr m)"

section \<open>The honesty check\<close>

datatype coherent_error =
    IncompleteEntry transport_entry
  | WireWithoutAtom string
  | WireNotStdlib string
  | WireNotLive string string
  | UnknownAdapterStatus string string
  | AdapterWithoutProvider string
  | UnknownWhere string string
  | UnknownAtom string string

definition coherent_entry :: "transport_entry \<Rightarrow> coherent_error option" where
  "coherent_entry e =
     (if ent_name e = [] \<or> ent_mode e = [] \<or> ent_where e = [] \<or> ent_status e = []
      then Some (IncompleteEntry e)
      else
        (case
           (if ent_where e = ''wire'' then
              (if ent_atom e = [] then Some (WireWithoutAtom (ent_name e))
               else if \<not> ent_stdlib_only e then Some (WireNotStdlib (ent_name e))
               else if ent_status e \<noteq> ''live''
               then Some (WireNotLive (ent_name e) (ent_status e))
               else None)
            else if ent_where e = ''adapter'' then
              (if ent_status e \<notin> set [''needs-adapter'', ''implemented'', ''experimental-primitive'']
               then Some (UnknownAdapterStatus (ent_name e) (ent_status e))
               else if ent_provided_by e = [] then Some (AdapterWithoutProvider (ent_name e))
               else None)
            else Some (UnknownWhere (ent_name e) (ent_where e)))
         of Some err \<Rightarrow> Some err
          | None \<Rightarrow>
              (if ent_atom e \<notin> set [[], ''http_request'', ''bidi_command'', ''http_request|bidi_command'']
               then Some (UnknownAtom (ent_name e) (ent_atom e))
               else None)))"

fun coherent_list :: "transport_entry list \<Rightarrow> coherent_error option" where
  "coherent_list [] = None"
| "coherent_list (e # es) =
     (case coherent_entry e of Some err \<Rightarrow> Some err | None \<Rightarrow> coherent_list es)"

definition coherent :: "manifest \<Rightarrow> coherent_error option" where
  "coherent m = coherent_list (man_transports m)"

section \<open>The specification\<close>

definition names_an_atom :: "string \<Rightarrow> bool" where
  "names_an_atom a \<longleftrightarrow> a \<in> {atom_call, atom_channel, atom_call @ ''|'' @ atom_channel}"

definition honest_wire :: "transport_entry \<Rightarrow> bool" where
  "honest_wire e \<longleftrightarrow> ent_where e = ''wire'' \<and> names_an_atom (ent_atom e) \<and> ent_stdlib_only e
     \<and> ent_status e = ''live''"

definition honest_adapter :: "transport_entry \<Rightarrow> bool" where
  "honest_adapter e \<longleftrightarrow> ent_where e = ''adapter'' \<and> (ent_atom e = [] \<or> names_an_atom (ent_atom e))
     \<and> ent_status e \<in> {''needs-adapter'', ''implemented'', ''experimental-primitive''}
     \<and> ent_provided_by e \<noteq> []"

definition honest :: "transport_entry \<Rightarrow> bool" where
  "honest e \<longleftrightarrow> ent_name e \<noteq> [] \<and> ent_mode e \<noteq> [] \<and> (honest_wire e \<or> honest_adapter e)"

lemma coherent_entry_None: "coherent_entry e = None \<longleftrightarrow> honest e"
  by (auto simp: coherent_entry_def honest_def honest_wire_def honest_adapter_def names_an_atom_def
      atom_call_def atom_channel_def split: option.splits if_splits)

lemma coherent_list_None: "coherent_list es = None \<longleftrightarrow> (\<forall>e \<in> set es. honest e)"
  by (induction es) (auto simp: coherent_entry_None split: option.splits
      simp flip: coherent_entry_None)

lemma coherent_list_Some:
  "coherent_list es = Some err \<longleftrightarrow>
     (\<exists>as e bs. es = as @ e # bs \<and> (\<forall>a \<in> set as. honest a) \<and> coherent_entry e = Some err)"
proof (induction es)
  case (Cons x es)
  show ?case
  proof (cases "coherent_entry x")
    case None
    then have "honest x" by (simp add: coherent_entry_None)
    have "(\<exists>as e bs. x # es = as @ e # bs \<and> (\<forall>a \<in> set as. honest a) \<and> coherent_entry e = Some err)
        \<longleftrightarrow> (\<exists>as e bs. es = as @ e # bs \<and> (\<forall>a \<in> set as. honest a) \<and> coherent_entry e = Some err)"
      (is "?l \<longleftrightarrow> ?r")
    proof
      assume ?l
      then show ?r using None by (fastforce simp: Cons_eq_append_conv)
    next
      assume ?r
      then obtain as e bs where "es = as @ e # bs" "\<forall>a \<in> set as. honest a" "coherent_entry e = Some err"
        by blast
      then show ?l using \<open>honest x\<close> by (intro exI [of _ "x # as"]) auto
    qed
    with None Cons show ?thesis by simp
  next
    case (Some err')
    then have "\<not> honest x" by (simp flip: coherent_entry_None)
    moreover have "x # es = [] @ x # es" by simp
    ultimately show ?thesis using Some
      by (fastforce simp: Cons_eq_append_conv)
  qed
qed simp

text \<open>
  C28. \<open>Coherent\<close> accepts a table exactly when every entry is honest: it has a name and a
  mode and is either a wire transport that names an atom, is stdlib-only and live, or an
  adapter with a provider, a known status and no atom or a real one. Otherwise it reports
  the error of the first entry that is not honest.
\<close>

theorem coherent_spec:
  "(coherent m = None \<longleftrightarrow> (\<forall>e \<in> set (man_transports m). honest e))
   \<and> (coherent m = Some err \<longleftrightarrow>
       (\<exists>as e bs. man_transports m = as @ e # bs \<and> (\<forall>a \<in> set as. honest a)
          \<and> \<not> honest e \<and> coherent_entry e = Some err))"
  unfolding coherent_def coherent_list_None coherent_list_Some
  by (auto simp flip: coherent_entry_None)

section \<open>The shipped table\<close>

text \<open>The table of \<open>contract/transports/transports.json\<close>, which the build embeds.\<close>

definition shipped_manifest :: manifest where
  \<open>shipped_manifest =
     \<lparr>man_principle = ''The wire is two atoms: http_request (CALL) and bidi_command (CHANNEL). Every transport reduces to one of these two modes. If a transport carries raw bytes with no application framing, it is wire. If it adds protocol semantics (framing, routing, negotiation), it is an adapter.'',
      man_modes = [(''CALL'', ''one request, one response, then nothing. Atom: http_request (internal/httpx, net/http).''), (''CHANNEL'', ''one long-lived bidirectional stream. Atom: bidi_command (internal/wsx, hand-rolled RFC6455). SSE/MJPEG are afferent-only (degenerate) channels that ride httpx.'')],
      man_transports =
       [\<lparr>ent_name = ''http'', ent_mode = ''CALL'', ent_where = ''wire'',
        ent_atom = ''http_request'', ent_status = ''live'', ent_stdlib_only = True,
        ent_provided_by = [],
        ent_note = ''net/http. cmd/wire is a transparent witness proxy; cmd/mcp http_request.''\<rparr>,
        \<lparr>ent_name = ''websocket'', ent_mode = ''CHANNEL'', ent_where = ''wire'',
        ent_atom = ''bidi_command'', ent_status = ''live'', ent_stdlib_only = True,
        ent_provided_by = [],
        ent_note = ''internal/wsx hand-rolls the upgrade; cmd/channel holds the BiDi/CDP socket -> broker.''\<rparr>,
        \<lparr>ent_name = ''sse'', ent_mode = ''CHANNEL (afferent)'', ent_where = ''wire'',
        ent_atom = ''http_request'', ent_status = ''live'', ent_stdlib_only = True,
        ent_provided_by = [],
        ent_note = ''8 /feed: text/event-stream + http.Flusher; consumed by EventSource. Server-push, no client->server.''\<rparr>,
        \<lparr>ent_name = ''mjpeg'', ent_mode = ''CHANNEL (afferent)'', ent_where = ''wire'',
        ent_atom = ''http_request'', ent_status = ''live'', ent_stdlib_only = True,
        ent_provided_by = [],
        ent_note = ''8 /stream: multipart/x-mixed-replace. The afferent media plane.''\<rparr>,
        \<lparr>ent_name = ''unix_socket'', ent_mode = ''CALL|CHANNEL'', ent_where = ''wire'',
        ent_atom = ''http_request|bidi_command'', ent_status = ''live'', ent_stdlib_only = True,
        ent_provided_by = [],
        ent_note = ''Same CALL/CHANNEL bytes over a unix dialer instead of tcp. net.Dial("unix",...). No framing -> wire, not adapter. URL: http+unix:///path.sock:/req or ws+unix:///path.sock:/req.''\<rparr>,
        \<lparr>ent_name = ''grpc'', ent_mode = ''CALL|CHANNEL'', ent_where = ''adapter'',
        ent_atom = [], ent_status = ''needs-adapter'', ent_stdlib_only = False,
        ent_provided_by = ''adapters/grpc'',
        ent_note = ''unary=CALL, server-stream=CHANNEL over HTTP/2. The .proto + length-prefixed framing are capability-shaped -> adapter.''\<rparr>,
        \<lparr>ent_name = ''gitbroker'', ent_mode = ''CALL'', ent_where = ''adapter'',
        ent_atom = ''http_request'', ent_status = ''implemented'', ent_stdlib_only = True,
        ent_provided_by = ''adapters/gitbroker'',
        ent_note = ''Store-and-forward relay over git commits (requires the git executable, no Go library dependencies). Policy-gated host fires each envelope through the witness and commits a thick receipt; host-side auth slots and HALT. Queue delivery reduces to CALL-post + CALL-poll.''\<rparr>,
        \<lparr>ent_name = ''mqtt'', ent_mode = ''CHANNEL'', ent_where = ''adapter'',
        ent_atom = ''http_request'', ent_status = ''implemented'', ent_stdlib_only = True,
        ent_provided_by = ''adapters/mqtt'',
        ent_note = ''Persistent broker relay with stdlib client and broker: QoS 1, retain, wills, TLS and persistent sessions. The broker CHANNEL is adapter-internal; every envelope fires as a policy-gated http_request to the witness (/fetch or /run), with host-side auth slots and thick retained receipts. The adapter does not expose a bidi_command socket.''\<rparr>,
        \<lparr>ent_name = ''webrtc'', ent_mode = ''CHANNEL'', ent_where = ''adapter'',
        ent_atom = [], ent_status = ''experimental-primitive'', ent_stdlib_only = False,
        ent_provided_by = ''adapters/webrtc'',
        ent_note = ''Transport PRIMITIVE with an echo peer only, not a relay adapter: no witness integration, policy gate, application authentication or relay receipts. SDP/ICE/DTLS/SCTP negotiation uses an httpx signaling CALL, then a wsx-style DataChannel with bidi_command-shaped exchanges. Pion dependencies are isolated in the nested adapters/webrtc Go module. Media/SRTP is not implemented; the wire never sees SDP.''\<rparr>]\<rparr>\<close>

lemma coherent_shipped: "coherent shipped_manifest = None"
  by (simp add: coherent_def shipped_manifest_def coherent_entry_def)

theorem coherent_spec_witness:
  "list_all honest (man_transports shipped_manifest) \<and> length (man_transports shipped_manifest) = 9
   \<and> coherent shipped_manifest = None"
  using coherent_spec [of shipped_manifest] coherent_shipped
  by (simp add: list_all_iff) (simp add: shipped_manifest_def)

end
