(* ===== verification/Run_Contract.thy ===== *)
theory Run_Contract
  imports Json_Struct Contract
begin

text \<open>
  \<open>contract/run/run.go\<close>: the request and the result of seating a target, their stamping
  with the contract version, and their JSON form (the struct tags, with \<open>omitempty\<close>). Both
  types implement the \<open>stamped\<close> interface; a request survives the trip through JSON, and
  the member names of a result are those of its set fields.
\<close>

definition kind_byod :: string where "kind_byod = ''byod''"

definition kind_browser :: string where "kind_browser = ''browser''"

record run_request =
  rq_contract :: string
  rq_kind :: string
  rq_target :: string
  rq_hub_url :: string
  rq_mjpeg :: int
  rq_team :: string
  rq_port :: int
  rq_url :: string
  rq_bin :: string
  rq_broker :: int
  rq_profile :: string

record run_result =
  rs_contract :: string
  rs_kind :: string
  rs_session_id :: string
  rs_hub_url :: string
  rs_stream :: string
  rs_transport :: string
  rs_pid :: int
  rs_platform :: string
  rs_device :: string
  rs_iproxy_pid :: int
  rs_engine :: string
  rs_broker_hint :: string

definition stamp_request :: "run_request \<Rightarrow> run_request" where
  "stamp_request r = r\<lparr>rq_contract := contract_version\<rparr>"

definition stamp_result :: "run_result \<Rightarrow> run_result" where
  "stamp_result r = r\<lparr>rs_contract := contract_version\<rparr>"

definition result_compatible :: "run_result \<Rightarrow> bool" where
  "result_compatible r = compatible (rs_contract r)"

section \<open>The JSON form\<close>

definition request_json :: "run_request \<Rightarrow> json" where
  "request_json r = JObj
     (str_mem_opt ''contract'' (rq_contract r) @ str_mem ''kind'' (rq_kind r)
      @ str_mem ''target'' (rq_target r) @ str_mem_opt ''hub_url'' (rq_hub_url r)
      @ int_mem_opt ''mjpeg'' (rq_mjpeg r) @ str_mem_opt ''team'' (rq_team r)
      @ int_mem_opt ''port'' (rq_port r) @ str_mem_opt ''url'' (rq_url r)
      @ str_mem_opt ''bin'' (rq_bin r) @ int_mem_opt ''broker'' (rq_broker r)
      @ str_mem_opt ''profile'' (rq_profile r))"

definition result_json :: "run_result \<Rightarrow> json" where
  "result_json r = JObj
     (str_mem_opt ''contract'' (rs_contract r) @ str_mem_opt ''kind'' (rs_kind r)
      @ str_mem ''session_id'' (rs_session_id r) @ str_mem ''hub_url'' (rs_hub_url r)
      @ str_mem_opt ''stream'' (rs_stream r) @ str_mem ''transport'' (rs_transport r)
      @ int_mem_opt ''pid'' (rs_pid r) @ str_mem_opt ''platform'' (rs_platform r)
      @ str_mem_opt ''device'' (rs_device r) @ int_mem_opt ''iproxy_pid'' (rs_iproxy_pid r)
      @ str_mem_opt ''engine'' (rs_engine r) @ str_mem_opt ''broker_hint'' (rs_broker_hint r))"

definition zero_request :: run_request where
  "zero_request = \<lparr>rq_contract = [], rq_kind = [], rq_target = [], rq_hub_url = [], rq_mjpeg = 0,
     rq_team = [], rq_port = 0, rq_url = [], rq_bin = [], rq_broker = 0, rq_profile = []\<rparr>"

definition request_fields :: "string list" where
  "request_fields = [''contract'', ''kind'', ''target'', ''hub_url'', ''mjpeg'', ''team'', ''port'',
     ''url'', ''bin'', ''broker'', ''profile'']"

definition set_request_field :: "string \<Rightarrow> json \<Rightarrow> run_request \<Rightarrow> run_request option" where
  "set_request_field n j r =
     (if n = ''contract'' then map_option (\<lambda>s. r\<lparr>rq_contract := s\<rparr>) (dec_string j (rq_contract r))
      else if n = ''kind'' then map_option (\<lambda>s. r\<lparr>rq_kind := s\<rparr>) (dec_string j (rq_kind r))
      else if n = ''target'' then map_option (\<lambda>s. r\<lparr>rq_target := s\<rparr>) (dec_string j (rq_target r))
      else if n = ''hub_url'' then map_option (\<lambda>s. r\<lparr>rq_hub_url := s\<rparr>) (dec_string j (rq_hub_url r))
      else if n = ''mjpeg'' then map_option (\<lambda>i. r\<lparr>rq_mjpeg := i\<rparr>) (dec_int64 j (rq_mjpeg r))
      else if n = ''team'' then map_option (\<lambda>s. r\<lparr>rq_team := s\<rparr>) (dec_string j (rq_team r))
      else if n = ''port'' then map_option (\<lambda>i. r\<lparr>rq_port := i\<rparr>) (dec_int64 j (rq_port r))
      else if n = ''url'' then map_option (\<lambda>s. r\<lparr>rq_url := s\<rparr>) (dec_string j (rq_url r))
      else if n = ''bin'' then map_option (\<lambda>s. r\<lparr>rq_bin := s\<rparr>) (dec_string j (rq_bin r))
      else if n = ''broker'' then map_option (\<lambda>i. r\<lparr>rq_broker := i\<rparr>) (dec_int64 j (rq_broker r))
      else map_option (\<lambda>s. r\<lparr>rq_profile := s\<rparr>) (dec_string j (rq_profile r)))"

definition marshal_request :: "run_request \<Rightarrow> string" where
  "marshal_request r = jprint (request_json r)"

definition unmarshal_request :: "string \<Rightarrow> run_request option" where
  "unmarshal_request s =
     Option.bind (parse_json s)
       (\<lambda>j. decode_struct set_request_field request_fields j zero_request)"

section \<open>The stamped interface\<close>

interpretation run_req: stamped stamp_request rq_contract
  by unfold_locales (simp add: stamp_request_def)

interpretation run_res: stamped stamp_result rs_contract
  by unfold_locales (simp add: stamp_result_def)

text \<open>
  A stamped request and a stamped result are compatible with the contract, and
  stamping changes nothing but the stamp.
\<close>

theorem stamped_run_compatible:
  "compatible (rq_contract (stamp_request r)) \<and> result_compatible (stamp_result s)
   \<and> (stamp_request r)\<lparr>rq_contract := rq_contract r\<rparr> = r
   \<and> (stamp_result s)\<lparr>rs_contract := rs_contract s\<rparr> = s"
  by (simp add: run_req.stamp_compatible run_res.stamp_compatible result_compatible_def)
     (simp add: stamp_request_def stamp_result_def)

section \<open>Round trip\<close>

text \<open>Strings are UTF-8 and numbers fit Go's \<open>int\<close>.\<close>

definition request_ok :: "run_request \<Rightarrow> bool" where
  "request_ok r \<longleftrightarrow>
     list_all valid_utf8 [rq_contract r, rq_kind r, rq_target r, rq_hub_url r, rq_team r,
        rq_url r, rq_bin r, rq_profile r]
     \<and> list_all int64_range [rq_mjpeg r, rq_port r, rq_broker r]"


lemma request_names [simp]: "n \<in> set request_fields \<Longrightarrow> plain n"
  by (auto simp: request_fields_def plain_def byte_val_def)

lemma request_json_wf: "jwf (request_json r) \<and> jdepth (request_json r) \<le> 1"
  unfolding request_json_def One_nat_def
  by (rule jobj_wf) (auto dest!: mem_json_wf [rotated] simp: plain_def byte_val_def)

lemma decode_request_json:
  assumes "request_ok r"
  shows "decode_struct set_request_field request_fields (request_json r) zero_request = Some r"
proof -
  have p: "n \<in> set request_fields \<Longrightarrow> plain n" for n by simp
  show ?thesis using assms
    by (simp add: decode_struct_def request_json_def request_ok_def set_request_field_def json_rt p
        request_fields_def zero_request_def)
qed

text \<open>
  A request survives JSON: what \<open>json.Marshal\<close> writes for it, \<open>json.Unmarshal\<close> reads
  back as the same request, for UTF-8 strings and numbers in Go's \<open>int\<close>.
\<close>

theorem request_roundtrip:
  assumes "request_ok r"
  shows "unmarshal_request (marshal_request r) = Some r"
  using request_json_wf [of r] decode_request_json [OF assms]
  by (simp add: unmarshal_request_def marshal_request_def parse_jprint max_depth_def)

definition sample_request :: run_request where
  "sample_request = zero_request\<lparr>rq_contract := contract_version, rq_kind := kind_browser,
     rq_target := ''firefox'', rq_port := 4444, rq_profile := ''/tmp/p'', rq_broker := 4445\<rparr>"

theorem request_roundtrip_witness:
  "unmarshal_request (marshal_request sample_request) = Some sample_request"
proof -
  have "request_ok sample_request"
    by (simp add: request_ok_def sample_request_def zero_request_def contract_version_def
        kind_browser_def int64_range_def rune_len_def rune_need_def byte_val_def)
  then show ?thesis by (rule request_roundtrip)
qed

text \<open>A result has the members of its kind and no others.\<close>

lemma result_byod_members:
  assumes "rs_contract r \<noteq> []" "rs_kind r = kind_byod" "rs_platform r \<noteq> []" "rs_device r \<noteq> []"
    "rs_stream r \<noteq> []" "rs_iproxy_pid r \<noteq> 0" "rs_pid r = 0" "rs_engine r = []" "rs_broker_hint r = []"
  shows "\<exists>ms. result_json r = JObj ms \<and> map fst ms =
    [''contract'', ''kind'', ''session_id'', ''hub_url'', ''stream'', ''transport'', ''platform'',
     ''device'', ''iproxy_pid'']"
  using assms by (simp add: result_json_def mem_defs kind_byod_def)

end
