(* ===== verification/Trace.thy ===== *)
theory Trace
  imports Json_Struct Contract
begin

text \<open>
  \<open>contract/trace/trace.go\<close>: the neutral NDJSON trace. A frame is a record; \<open>emit\<close> is
  \<open>Writer.Emit\<close> over any \<open>io.Writer\<close> (a parameter), \<open>read_trace\<close> is \<open>Read\<close> over the bytes of
  its reader, with \<open>bufio.Scanner\<close>'s line splitting and its limit of 8 MiB. The locale
  \<open>line_codec\<close> is the interface between the two: a line format that decodes what it encodes
  and never writes a line break inside a line. Its client lemma is that a file of encoded
  lines reads back.
\<close>

record frame =
  fr_contract :: string
  fr_seq :: int
  fr_ts :: int
  fr_session :: string
  fr_mode :: string
  fr_dir :: string
  fr_method :: string
  fr_url :: string
  fr_status :: int
  fr_command :: string
  fr_event :: string
  fr_headers :: smap
  fr_body :: raw_message
  fr_auth_slot :: string

definition trace_compatible :: "string \<Rightarrow> bool" where
  "trace_compatible v = compatible v"

definition zero_frame :: frame where
  "zero_frame = \<lparr>fr_contract = [], fr_seq = 0, fr_ts = 0, fr_session = [], fr_mode = [],
     fr_dir = [], fr_method = [], fr_url = [], fr_status = 0, fr_command = [], fr_event = [],
     fr_headers = [], fr_body = RawNone, fr_auth_slot = []\<rparr>"

section \<open>The JSON form of a frame\<close>

definition frame_json :: "frame \<Rightarrow> json" where
  "frame_json f = JObj
     (str_mem_opt ''contract'' (fr_contract f) @ int_mem ''seq'' (fr_seq f)
      @ int_mem ''ts'' (fr_ts f) @ str_mem ''session'' (fr_session f)
      @ str_mem ''mode'' (fr_mode f) @ str_mem ''dir'' (fr_dir f)
      @ str_mem_opt ''method'' (fr_method f) @ str_mem_opt ''url'' (fr_url f)
      @ int_mem_opt ''status'' (fr_status f) @ str_mem_opt ''command'' (fr_command f)
      @ str_mem_opt ''event'' (fr_event f) @ smap_mem_opt ''headers'' (fr_headers f)
      @ raw_mem_opt ''body'' (fr_body f) @ str_mem_opt ''auth_slot'' (fr_auth_slot f))"

text \<open>\<open>json.Marshal\<close> fails only on a body that is no JSON.\<close>

definition marshal_frame :: "frame \<Rightarrow> string option" where
  "marshal_frame f = (if fr_body f = RawBad then None else Some (jprint (frame_json f)))"

definition frame_fields :: "string list" where
  "frame_fields = [''contract'', ''seq'', ''ts'', ''session'', ''mode'', ''dir'', ''method'', ''url'',
     ''status'', ''command'', ''event'', ''headers'', ''body'', ''auth_slot'']"

definition set_frame_field :: "string \<Rightarrow> json \<Rightarrow> frame \<Rightarrow> frame option" where
  "set_frame_field n j f =
     (if n = ''contract'' then map_option (\<lambda>s. f\<lparr>fr_contract := s\<rparr>) (dec_string j (fr_contract f))
      else if n = ''seq'' then map_option (\<lambda>i. f\<lparr>fr_seq := i\<rparr>) (dec_int64 j (fr_seq f))
      else if n = ''ts'' then map_option (\<lambda>i. f\<lparr>fr_ts := i\<rparr>) (dec_int64 j (fr_ts f))
      else if n = ''session'' then map_option (\<lambda>s. f\<lparr>fr_session := s\<rparr>) (dec_string j (fr_session f))
      else if n = ''mode'' then map_option (\<lambda>s. f\<lparr>fr_mode := s\<rparr>) (dec_string j (fr_mode f))
      else if n = ''dir'' then map_option (\<lambda>s. f\<lparr>fr_dir := s\<rparr>) (dec_string j (fr_dir f))
      else if n = ''method'' then map_option (\<lambda>s. f\<lparr>fr_method := s\<rparr>) (dec_string j (fr_method f))
      else if n = ''url'' then map_option (\<lambda>s. f\<lparr>fr_url := s\<rparr>) (dec_string j (fr_url f))
      else if n = ''status'' then map_option (\<lambda>i. f\<lparr>fr_status := i\<rparr>) (dec_int64 j (fr_status f))
      else if n = ''command'' then map_option (\<lambda>s. f\<lparr>fr_command := s\<rparr>) (dec_string j (fr_command f))
      else if n = ''event'' then map_option (\<lambda>s. f\<lparr>fr_event := s\<rparr>) (dec_string j (fr_event f))
      else if n = ''headers'' then map_option (\<lambda>m. f\<lparr>fr_headers := m\<rparr>) (dec_smap j (fr_headers f))
      else if n = ''body'' then Some (f\<lparr>fr_body := RawDoc j\<rparr>)
      else map_option (\<lambda>s. f\<lparr>fr_auth_slot := s\<rparr>) (dec_string j (fr_auth_slot f)))"

definition unmarshal_frame :: "string \<Rightarrow> frame option" where
  "unmarshal_frame line =
     Option.bind (parse_json line)
       (\<lambda>j. decode_struct set_frame_field frame_fields j zero_frame)"

section \<open>The writer\<close>

record 's trace_writer =
  tw_sink :: 's
  tw_seq :: int

definition new_writer :: "'s \<Rightarrow> 's trace_writer" where
  "new_writer w = \<lparr>tw_sink = w, tw_seq = 0\<rparr>"

datatype emit_error = MarshalError | SinkError string

text \<open>
  \<open>write\<close> is the \<open>Write\<close> method of the underlying \<open>io.Writer\<close>: the new state of the sink,
  and an error if there is one. The sequence number is taken before the frame is marshalled.
\<close>

definition emit ::
  "('s \<Rightarrow> string \<Rightarrow> 's \<times> string option) \<Rightarrow> 's trace_writer \<Rightarrow> frame
     \<Rightarrow> 's trace_writer \<times> emit_error option"
where
  "emit write e f0 =
     (let f = f0\<lparr>fr_contract := contract_version, fr_seq := tw_seq e\<rparr>;
          e' = e\<lparr>tw_seq := wrap64 (tw_seq e + 1)\<rparr>
      in case marshal_frame f of
           None \<Rightarrow> (e', Some MarshalError)
         | Some b \<Rightarrow>
             (case write (tw_sink e') (b @ [CHR 0x0A]) of
                (s, err) \<Rightarrow> (e'\<lparr>tw_sink := s\<rparr>, map_option SinkError err)))"

text \<open>A sequence of calls whose errors the caller ignores, and the buffer of the tests.\<close>

fun emit_all ::
  "('s \<Rightarrow> string \<Rightarrow> 's \<times> string option) \<Rightarrow> 's trace_writer \<Rightarrow> frame list \<Rightarrow> 's trace_writer"
where
  "emit_all write e [] = e"
| "emit_all write e (f # fs) = emit_all write (fst (emit write e f)) fs"

definition buffer_write :: "string \<Rightarrow> string \<Rightarrow> string \<times> string option" where
  "buffer_write b s = (b @ s, None)"

section \<open>The reader\<close>

definition max_token :: nat where
  "max_token = 8 * 1024 * 1024"

text \<open>
  \<open>bufio.ScanLines\<close>: the pieces between line feeds (no piece after a final one), each without
  a carriage return at its end.
\<close>

definition text_lines :: "string \<Rightarrow> string list" where
  "text_lines s =
     (let ps = split_byte s (CHR 0x0A) in if last ps = [] then butlast ps else ps)"

definition drop_cr :: "string \<Rightarrow> string" where
  "drop_cr l = (if l \<noteq> [] \<and> last l = CHR 0x0D then butlast l else l)"

datatype read_error = BadLine | TokenTooLong | SourceError string

fun read_lines :: "(string \<Rightarrow> 'b option) \<Rightarrow> string list \<Rightarrow> 'b list \<times> read_error option" where
  "read_lines dec [] = ([], None)"
| "read_lines dec (l # ls) =
     (if max_token \<le> length l then ([], Some TokenTooLong)
      else if drop_cr l = [] then read_lines dec ls
      else
        (case dec (drop_cr l) of
           None \<Rightarrow> ([], Some BadLine)
         | Some f \<Rightarrow> (case read_lines dec ls of (fs, err) \<Rightarrow> (f # fs, err))))"

text \<open>\<open>Read\<close> on the bytes a reader delivered before it ended, or failed with an error.\<close>

definition read_trace :: "string \<Rightarrow> string option \<Rightarrow> frame list \<times> read_error option" where
  "read_trace data source_err =
     (case read_lines unmarshal_frame (text_lines data) of
        (fs, Some err) \<Rightarrow> (fs, Some err)
      | (fs, None) \<Rightarrow> (fs, map_option SourceError source_err))"

section \<open>The interface of a line format\<close>

locale line_codec =
  fixes enc :: "'a \<Rightarrow> string" and dec :: "string \<Rightarrow> 'b option"
    and view :: "'a \<Rightarrow> 'b" and ok :: "'a \<Rightarrow> bool"
  assumes dec_enc: "ok x \<Longrightarrow> dec (enc x) = Some (view x)"
    and enc_one_line: "ok x \<Longrightarrow> CHR 0x0A \<notin> set (enc x)"
    and enc_visible: "ok x \<Longrightarrow> drop_cr (enc x) = enc x \<and> enc x \<noteq> []"
begin

definition file_of :: "'a list \<Rightarrow> string" where
  "file_of xs = concat (map (\<lambda>x. enc x @ [CHR 0x0A]) xs)"

lemma split_file:
  "\<forall>x \<in> set xs. ok x \<Longrightarrow> split_byte (file_of xs) (CHR 0x0A) = map enc xs @ [[]]"
  by (induction xs) (auto simp: file_of_def enc_one_line)

lemma lines_file: "\<forall>x \<in> set xs. ok x \<Longrightarrow> text_lines (file_of xs) = map enc xs"
  by (simp add: text_lines_def split_file)

lemma read_encoded:
  "\<forall>x \<in> set xs. ok x \<and> length (enc x) < max_token
     \<Longrightarrow> read_lines dec (map enc xs) = (map view xs, None)"
  by (induction xs) (auto simp: dec_enc enc_visible)

lemma read_file:
  "\<forall>x \<in> set xs. ok x \<and> length (enc x) < max_token
     \<Longrightarrow> read_lines dec (text_lines (file_of xs)) = (map view xs, None)"
  using read_encoded [of xs] by (simp add: lines_file)

lemma read_overlong:
  "\<forall>x \<in> set xs. ok x \<and> length (enc x) < max_token \<Longrightarrow> ok y \<Longrightarrow> max_token \<le> length (enc y)
     \<Longrightarrow> \<forall>z \<in> set zs. ok z
     \<Longrightarrow> read_lines dec (text_lines (file_of (xs @ y # zs))) = (map view xs, Some TokenTooLong)"
  by (subst lines_file, force) (induction xs, auto simp: dec_enc enc_visible)

end

section \<open>Frames are a line format\<close>

text \<open>What \<open>json.Marshal\<close> does to a frame: its headers are sorted, its body is compacted.\<close>

definition canon_frame :: "frame \<Rightarrow> frame" where
  "canon_frame f = f\<lparr>fr_headers := sort_key fst (fr_headers f),
     fr_body := (case fr_body f of RawDoc j \<Rightarrow> RawDoc (html_esc j) | r \<Rightarrow> r)\<rparr>"

definition body_ok :: "raw_message \<Rightarrow> bool" where
  "body_ok r = (case r of RawNone \<Rightarrow> True | RawDoc j \<Rightarrow> jwf j \<and> jdepth j < max_depth | RawBad \<Rightarrow> False)"

definition frame_ok :: "frame \<Rightarrow> bool" where
  "frame_ok f \<longleftrightarrow>
     list_all valid_utf8 [fr_contract f, fr_session f, fr_mode f, fr_dir f, fr_method f, fr_url f,
       fr_command f, fr_event f, fr_auth_slot f]
     \<and> list_all int64_range [fr_seq f, fr_ts f, fr_status f]
     \<and> distinct (map fst (fr_headers f)) \<and> smap_utf8 (fr_headers f) \<and> body_ok (fr_body f)"

definition frame_line :: "frame \<Rightarrow> string" where
  "frame_line f = (case marshal_frame f of Some b \<Rightarrow> b | None \<Rightarrow> [])"

lemma frame_names [simp]: "n \<in> set frame_fields \<Longrightarrow> plain n"
  by (auto simp: frame_fields_def plain_def byte_val_def)

lemma frame_json_wf:
  assumes "frame_ok f"
  shows "jwf (frame_json f) \<and> jdepth (frame_json f) \<le> max_depth"
proof -
  have m: "max_depth = Suc (max_depth - 1)" "1 \<le> max_depth - 1" by (simp_all add: max_depth_def)
  have "raw_ok (fst m) \<and> jwf (snd m) \<and> jdepth (snd m) \<le> max_depth - 1"
    if "m \<in> set (smap_mem_opt ''headers'' (fr_headers f))" for m
    using that smap_json_wf [of "fr_headers f"] m(2)
    by (auto simp: smap_mem_opt_def byte_val_def split: if_splits)
  moreover have "raw_ok (fst m) \<and> jwf (snd m) \<and> jdepth (snd m) \<le> max_depth - 1"
    if "m \<in> set (raw_mem_opt ''body'' (fr_body f))" for m
    using that assms
    by (auto simp: raw_mem_opt_def frame_ok_def body_ok_def byte_val_def split: raw_message.splits)
  ultimately show ?thesis
    unfolding frame_json_def
    by (subst m(1), intro jobj_wf) (auto dest!: mem_json_wf [rotated] simp: plain_def byte_val_def)
qed

lemma decode_smap_mem_opt:
  assumes "plain n" "n \<in> set names" "f n (smap_json []) x = Some x"
  shows "decode_mems f names (smap_mem_opt n m) x = f n (smap_json m) x"
  using assms by (cases "m = []") (simp_all add: smap_mem_opt_def decode_one del: decode_mems.simps(2))

lemma decode_raw_mem_opt:
  assumes "plain n" "n \<in> set names" "r \<noteq> RawBad"
  shows "decode_mems f names (raw_mem_opt n r) x =
    (case r of RawDoc j \<Rightarrow> f n (html_esc j) x | _ \<Rightarrow> Some x)"
  using assms
  by (cases r) (simp_all add: raw_mem_opt_def decode_one del: decode_mems.simps(2))

lemma decode_frame_json:
  assumes "frame_ok f"
  shows "decode_struct set_frame_field frame_fields (frame_json f) zero_frame = Some (canon_frame f)"
proof -
  have p: "n \<in> set frame_fields \<Longrightarrow> plain n" for n by simp
  have h: "dec_smap (smap_json (fr_headers f)) [] = Some (sort_key fst (fr_headers f))"
    using assms by (simp add: frame_ok_def dec_smap_json)
  have h0: "dec_smap (smap_json []) [] = Some []" by (simp add: smap_json_def dec_smap_def)
  have b: "fr_body f \<noteq> RawBad" using assms by (auto simp: frame_ok_def body_ok_def)
  show ?thesis using assms
    by (cases "fr_body f")
       (simp_all add: decode_struct_def frame_json_def frame_ok_def body_ok_def set_frame_field_def
        json_rt decode_smap_mem_opt decode_raw_mem_opt p h h0 b frame_fields_def zero_frame_def
        canon_frame_def)
qed

lemma marshal_frame_Some: "frame_ok f \<Longrightarrow> marshal_frame f = Some (jprint (frame_json f))"
  by (auto simp: marshal_frame_def frame_ok_def body_ok_def)

lemma unmarshal_frame_line: "frame_ok f \<Longrightarrow> unmarshal_frame (frame_line f) = Some (canon_frame f)"
  using frame_json_wf [of f]
  by (simp add: frame_line_def marshal_frame_Some unmarshal_frame_def parse_jprint decode_frame_json)

lemma frame_line_printable: "frame_ok f \<Longrightarrow> c \<in> set (frame_line f) \<Longrightarrow> 32 \<le> byte_val c"
  using frame_json_wf [of f] jprint_printable(1) by (auto simp: frame_line_def marshal_frame_Some)

lemma frame_line_last: "frame_ok f \<Longrightarrow> frame_line f \<noteq> [] \<and> last (frame_line f) = CHR ''}''"
  by (simp add: frame_line_def marshal_frame_Some frame_json_def)

interpretation ndjson: line_codec frame_line unmarshal_frame canon_frame frame_ok
proof unfold_locales
  fix f :: frame
  assume ok: "frame_ok f"
  then show "unmarshal_frame (frame_line f) = Some (canon_frame f)" by (rule unmarshal_frame_line)
  show "CHR 0x0A \<notin> set (frame_line f)" using frame_line_printable [OF ok] by fastforce
  show "drop_cr (frame_line f) = frame_line f \<and> frame_line f \<noteq> []"
    using frame_line_last [OF ok] by (simp add: drop_cr_def)
qed


section \<open>What a writer leaves for a reader\<close>

definition stamp_frame :: "int \<Rightarrow> frame \<Rightarrow> frame" where
  "stamp_frame n f = f\<lparr>fr_contract := contract_version, fr_seq := n\<rparr>"

interpretation frame_stamp: stamped "stamp_frame n" fr_contract
  by unfold_locales (simp add: stamp_frame_def)

lemma stamp_frame_body [simp]: "fr_body (stamp_frame n f) = fr_body f"
  by (simp add: stamp_frame_def)

text \<open>The frames that a sequence of calls of \<open>Emit\<close> writes, from the sequence number \<open>n\<close> on.\<close>

fun emitted :: "int \<Rightarrow> frame list \<Rightarrow> frame list" where
  "emitted n [] = []"
| "emitted n (f # fs) =
     (if fr_body f = RawBad then [] else [stamp_frame n f]) @ emitted (wrap64 (n + 1)) fs"

lemma emit_buffer:
  "emit buffer_write e f =
     (e\<lparr>tw_sink := tw_sink e @ (if fr_body f = RawBad then [] else frame_line (stamp_frame (tw_seq e) f) @ [CHR 0x0A]),
        tw_seq := wrap64 (tw_seq e + 1)\<rparr>,
      if fr_body f = RawBad then Some MarshalError else None)"
  by (simp add: emit_def Let_def buffer_write_def frame_line_def marshal_frame_def
      flip: stamp_frame_def)

lemma emit_all_buffer:
  "tw_sink (emit_all buffer_write e fs) =
     tw_sink e @ concat (map (\<lambda>f. frame_line f @ [CHR 0x0A]) (emitted (tw_seq e) fs))"
  by (induction fs arbitrary: e) (auto simp: emit_buffer)

lemma emitted_closed:
  "emitted (wrap64 k) fs =
     map (\<lambda>i. stamp_frame (wrap64 (k + int i)) (fs ! i))
       (filter (\<lambda>i. fr_body (fs ! i) \<noteq> RawBad) [0..<length fs])"
proof (induction fs arbitrary: k)
  case (Cons f fs)
  have "[0..<length (f # fs)] = 0 # map Suc [0..<length fs]"
    by (simp add: upt_conv_Cons map_Suc_upt del: upt_Suc)
  moreover have "k + 1 + int i = k + int (Suc i)" for i by simp
  ultimately show ?case
    using Cons [of "k + 1"] by (simp add: filter_map comp_def add.assoc del: upt_Suc)
qed simp

lemma wrap64_int64_range [simp]: "int64_range (wrap64 i)"
  using wrap64_range by (simp add: int64_range_def)

text \<open>
  C27. What the calls of a writer leave in a buffer, \<open>Read\<close> reads back: the frame of the
  \<open>i\<close>-th call in canonical form (sorted headers, compacted body), stamped with the contract
  version and with the sequence number \<open>i\<close>, whatever stamp and number the caller had set.
  A frame whose body is no JSON is reported to its caller, is not in the trace, and its
  number is not used again.
\<close>

theorem emit_read_roundtrip:
  assumes "\<And>i. i < length fs \<Longrightarrow> fr_body (fs ! i) \<noteq> RawBad \<Longrightarrow>
      frame_ok (stamp_frame (wrap64 (int i)) (fs ! i))
      \<and> length (frame_line (stamp_frame (wrap64 (int i)) (fs ! i))) < max_token"
  shows "read_trace (tw_sink (emit_all buffer_write (new_writer []) fs)) None =
    (map (\<lambda>i. canon_frame (stamp_frame (wrap64 (int i)) (fs ! i)))
       (filter (\<lambda>i. fr_body (fs ! i) \<noteq> RawBad) [0..<length fs]), None)"
proof -
  let ?fs = "emitted (wrap64 0) fs"
  have sink: "tw_sink (emit_all buffer_write (new_writer []) fs) = ndjson.file_of ?fs"
    by (simp add: emit_all_buffer new_writer_def ndjson.file_of_def wrap64_id)
  have "\<forall>f \<in> set ?fs. frame_ok f \<and> length (frame_line f) < max_token"
    using assms emitted_closed [of 0 fs] by auto
  then have "read_lines unmarshal_frame (text_lines (ndjson.file_of ?fs)) = (map canon_frame ?fs, None)"
    by (rule ndjson.read_file)
  then show ?thesis by (simp add: sink read_trace_def emitted_closed comp_def)
qed

definition sample_frame :: frame where
  "sample_frame = zero_frame\<lparr>fr_contract := ''caller-lies'', fr_seq := 99, fr_session := ''s'',
     fr_mode := mode_call, fr_dir := dir_efferent, fr_method := ''GET'',
     fr_url := ''http://x/{sid}'', fr_auth_slot := ''header:Authorization''\<rparr>"

lemma dec_nat_length: "n < 10 ^ Suc k \<Longrightarrow> length (dec_nat n) \<le> Suc k"
proof (induction k arbitrary: n)
  case 0
  then show ?case by (simp add: dec_nat.simps [of n])
next
  case (Suc k)
  show ?case
  proof (cases "n < 10")
    case False
    have "n div 10 < 10 ^ Suc k" using Suc.prems by (simp add: less_mult_imp_div_less)
    with Suc.IH False show ?thesis by (simp add: dec_nat.simps [of n])
  qed (simp add: dec_nat.simps [of n])
qed

lemma dec_int_length: "int64_range i \<Longrightarrow> length (dec_int i) \<le> 20"
proof -
  assume "int64_range i"
  then have "nat i < 10 ^ Suc 18" "nat (- i) < 10 ^ Suc 18"
    by (auto simp: int64_range_def nat_less_iff)
  then show ?thesis using dec_nat_length [of "nat i" 18] dec_nat_length [of "nat (- i)" 18]
    by (simp add: dec_int_def)
qed

lemma sample_frame_ok:
  "frame_ok (stamp_frame (wrap64 i) sample_frame)
   \<and> length (frame_line (stamp_frame (wrap64 i) sample_frame)) < max_token"
proof
  show ok: "frame_ok (stamp_frame (wrap64 i) sample_frame)"
    by (simp add: frame_ok_def body_ok_def stamp_frame_def sample_frame_def zero_frame_def smap_utf8_def
        contract_version_def mode_call_def dir_efferent_def rune_len_def rune_need_def byte_val_def)
  have "length (jprint (frame_json (stamp_frame (wrap64 i) sample_frame))) \<le> 200"
    using dec_int_length [of "wrap64 i"]
    by (simp add: frame_json_def jquote_def mem_defs
        stamp_frame_def sample_frame_def zero_frame_def jint_def jstring_def
        contract_version_def mode_call_def dir_efferent_def rune_len_def rune_need_def byte_val_def
        esc_byte_def needs_hex_def dec_int_def [of 0] dec_nat.simps [of 0])
  then show "length (frame_line (stamp_frame (wrap64 i) sample_frame)) < max_token"
    by (simp add: frame_line_def marshal_frame_Some [OF ok] max_token_def)
qed

theorem emit_read_roundtrip_witness:
  "read_trace (tw_sink (emit_all buffer_write (new_writer [])
      [sample_frame, sample_frame\<lparr>fr_body := RawBad\<rparr>, sample_frame])) None
   = ([stamp_frame 0 sample_frame, stamp_frame 2 sample_frame], None)"
proof -
  let ?fs = "[sample_frame, sample_frame\<lparr>fr_body := RawBad\<rparr>, sample_frame]"
  have "frame_ok (stamp_frame (wrap64 (int i)) (?fs ! i))
      \<and> length (frame_line (stamp_frame (wrap64 (int i)) (?fs ! i))) < max_token"
    if "i < length ?fs" "fr_body (?fs ! i) \<noteq> RawBad" for i
    using that sample_frame_ok by (auto simp: less_Suc_eq numeral_3_eq_3)
  then have "read_trace (tw_sink (emit_all buffer_write (new_writer []) ?fs)) None =
    (map (\<lambda>i. canon_frame (stamp_frame (wrap64 (int i)) (?fs ! i)))
       (filter (\<lambda>i. fr_body (?fs ! i) \<noteq> RawBad) [0..<length ?fs]), None)"
    by (rule emit_read_roundtrip)
  also have "[0..<length ?fs] = [0, 1, 2]" by (simp add: upt_rec)
  finally show ?thesis
    by (simp add: wrap64_def canon_frame_def stamp_frame_def sample_frame_def zero_frame_def)
qed

text \<open>
  C32. The writer does not know the reader's limit: a frame whose line has 8 MiB or more is
  written without an error, and the reader stops there with \<open>bufio.ErrTooLong\<close>, losing every
  later frame of the trace.
\<close>

theorem overlong_frame_unreadable:
  assumes "\<And>i. i < length (fs @ g # hs) \<Longrightarrow> fr_body ((fs @ g # hs) ! i) \<noteq> RawBad
        \<and> frame_ok (stamp_frame (wrap64 (int i)) ((fs @ g # hs) ! i))"
    and "\<And>i. i < length fs \<Longrightarrow> length (frame_line (stamp_frame (wrap64 (int i)) (fs ! i))) < max_token"
    and "max_token \<le> length (frame_line (stamp_frame (wrap64 (int (length fs))) g))"
  shows "snd (emit buffer_write (emit_all buffer_write (new_writer []) fs) g) = None
    \<and> read_trace (tw_sink (emit_all buffer_write (new_writer []) (fs @ g # hs))) None =
        (map (\<lambda>i. canon_frame (stamp_frame (wrap64 (int i)) (fs ! i))) [0..<length fs],
         Some TokenTooLong)"
proof
  let ?st = "\<lambda>i. stamp_frame (wrap64 (int i)) ((fs @ g # hs) ! i)"
  let ?n = "length fs"
  have g: "fr_body g \<noteq> RawBad" using assms(1) [of ?n] by simp
  then show "snd (emit buffer_write (emit_all buffer_write (new_writer []) fs) g) = None"
    by (simp add: emit_buffer)
  have "filter (\<lambda>i. fr_body ((fs @ g # hs) ! i) \<noteq> RawBad) [0..<length (fs @ g # hs)]
      = [0..<length (fs @ g # hs)]"
  proof (rule filter_True, rule ballI)
    fix i
    assume "i \<in> set [0..<length (fs @ g # hs)]"
    then have "i < length (fs @ g # hs)" by (simp only: set_upt atLeastLessThan_iff)
    from assms(1) [OF this] show "fr_body ((fs @ g # hs) ! i) \<noteq> RawBad" ..
  qed
  then have em: "emitted (wrap64 0) (fs @ g # hs) = map ?st [0..<length (fs @ g # hs)]"
    by (simp only: emitted_closed) simp
  have upt: "[0..<length (fs @ g # hs)] = [0..<?n] @ ?n # [Suc ?n..<length (fs @ g # hs)]"
    using upt_add_eq_append [of 0 ?n "Suc (length hs)"] by (simp add: upt_conv_Cons del: upt_Suc)
  let ?xs = "map ?st [0..<?n]" and ?zs = "map ?st [Suc ?n..<length (fs @ g # hs)]"
  have "tw_sink (emit_all buffer_write (new_writer []) (fs @ g # hs)) = ndjson.file_of (?xs @ ?st ?n # ?zs)"
    using em upt by (simp add: emit_all_buffer new_writer_def ndjson.file_of_def wrap64_id del: upt_Suc)
  moreover have "read_lines unmarshal_frame (text_lines (ndjson.file_of (?xs @ ?st ?n # ?zs)))
      = (map canon_frame ?xs, Some TokenTooLong)"
  proof (rule ndjson.read_overlong)
    show "\<forall>x \<in> set ?xs. frame_ok x \<and> length (frame_line x) < max_token"
    proof
      fix x
      assume "x \<in> set ?xs"
      then obtain i where "i < ?n" "x = ?st i" by auto
      with assms(1) [of i] assms(2) [of i]
      show "frame_ok x \<and> length (frame_line x) < max_token" by (simp add: nth_append)
    qed
    show "frame_ok (?st ?n)" "max_token \<le> length (frame_line (?st ?n))"
      using assms(1) [of ?n] assms(3) by simp_all
    show "\<forall>z \<in> set ?zs. frame_ok z"
    proof
      fix z
      assume "z \<in> set ?zs"
      then obtain i where "i \<in> set [Suc ?n..<length (fs @ g # hs)]" "z = ?st i"
        by (simp only: set_map) blast
      then have "i < length (fs @ g # hs)" "z = ?st i" by (simp_all only: set_upt atLeastLessThan_iff)
      with assms(1) [of i] show "frame_ok z" by simp
    qed
  qed
  ultimately show "read_trace (tw_sink (emit_all buffer_write (new_writer []) (fs @ g # hs))) None =
        (map (\<lambda>i. canon_frame (stamp_frame (wrap64 (int i)) (fs ! i))) [0..<?n], Some TokenTooLong)"
    by (simp add: read_trace_def comp_def nth_append)
qed

definition huge_frame :: frame where
  "huge_frame = sample_frame\<lparr>fr_url := replicate max_token (CHR ''x'')\<rparr>"

lemma quote_replicate [simp]:
  "quote_text (replicate n (CHR ''x'')) = replicate n (CHR ''x'')"
  "valid_utf8 (replicate n (CHR ''x''))"
  by (induction n) (simp_all add: esc_byte_def needs_hex_def byte_val_def rune_len_def rune_need_def)

lemma huge_frame_ok:
  "frame_ok (stamp_frame (wrap64 i) huge_frame)
   \<and> max_token \<le> length (frame_line (stamp_frame (wrap64 i) huge_frame))"
proof
  show ok: "frame_ok (stamp_frame (wrap64 i) huge_frame)"
    using sample_frame_ok [of i] by (simp add: frame_ok_def huge_frame_def stamp_frame_def)
  have "max_token \<le> length (jprint (frame_json (stamp_frame (wrap64 i) huge_frame)))"
    by (simp add: frame_json_def mem_defs stamp_frame_def huge_frame_def jstring_def jquote_def
        max_token_def)
  then show "max_token \<le> length (frame_line (stamp_frame (wrap64 i) huge_frame))"
    by (simp only: frame_line_def marshal_frame_Some [OF ok] option.case)
qed

theorem overlong_frame_unreadable_witness:
  "snd (emit buffer_write (new_writer []) huge_frame) = None
   \<and> read_trace (tw_sink (emit_all buffer_write (new_writer []) [huge_frame, sample_frame])) None
     = ([], Some TokenTooLong)"
proof -
  have b: "fr_body huge_frame \<noteq> RawBad" "fr_body sample_frame \<noteq> RawBad"
    by (simp_all add: huge_frame_def sample_frame_def zero_frame_def)
  have "fr_body (([] @ huge_frame # [sample_frame]) ! i) \<noteq> RawBad
      \<and> frame_ok (stamp_frame (wrap64 (int i)) (([] @ huge_frame # [sample_frame]) ! i))"
    if "i < length ([] @ huge_frame # [sample_frame])" for i
    using that b huge_frame_ok sample_frame_ok by (auto simp: less_Suc_eq)
  from overlong_frame_unreadable [OF this] huge_frame_ok [of 0] show ?thesis
    by simp
qed

section \<open>Reading is compositional\<close>

lemma split_byte_append_sep: "split_byte (a @ c # b) c = split_byte a c @ split_byte b c"
  by (induction a) (auto split: list.splits)

lemma read_lines_append:
  "read_lines dec (xs @ ys) =
     (case read_lines dec xs of
        (fs, Some err) \<Rightarrow> (fs, Some err)
      | (fs, None) \<Rightarrow> (case read_lines dec ys of (gs, err) \<Rightarrow> (fs @ gs, err)))"
  by (induction xs) (auto split: option.splits prod.splits)

lemma read_lines_blank_end: "read_lines dec (xs @ [[]]) = read_lines dec xs"
  by (simp add: read_lines_append drop_cr_def max_token_def split: prod.splits option.splits)

lemma read_text_lines:
  "read_lines dec (text_lines s) = read_lines dec (split_byte s (CHR 0x0A))"
proof (cases "last (split_byte s (CHR 0x0A)) = []")
  case True
  then have "split_byte s (CHR 0x0A) = text_lines s @ [[]]"
    by (metis append_butlast_last_id split_byte_nonempty text_lines_def)
  then show ?thesis by (metis read_lines_blank_end)
qed (simp add: text_lines_def)

text \<open>
  Traces can be concatenated and flushed in parts: reading two texts joined by a line
  break gives the frames of the first, then, unless the first had an error, the frames and
  the error of the second; blank lines make no difference.
\<close>

theorem read_trace_concat:
  "read_trace (a @ CHR 0x0A # b) err =
     (case read_trace a None of
        (fs, Some e) \<Rightarrow> (fs, Some e)
      | (fs, None) \<Rightarrow> (case read_trace b err of (gs, e) \<Rightarrow> (fs @ gs, e)))
   \<and> read_trace (CHR 0x0A # b) err = read_trace b err"
proof -
  have "read_lines dec ([] # ls) = read_lines dec ls" for dec :: "string \<Rightarrow> frame option" and ls
    by (simp add: drop_cr_def max_token_def)
  then show ?thesis
    by (auto simp: read_trace_def read_text_lines split_byte_append_sep read_lines_append
        split: option.splits prod.splits)
qed

end
