(* ===== verification/Go_Text.thy ===== *)
theory Go_Text
  imports Json_Struct
begin

text \<open>
  Two text formats of Go's library that the atoms share: base64 (\<open>StdEncoding\<close>), with a
  decoder and the proof that it inverts the encoder, and the canonical form of header names
  (\<open>textproto.CanonicalMIMEHeaderKey\<close>), under which \<open>http.Header\<close> stores its values.
\<close>

section \<open>Base64\<close>

definition b64_alphabet :: string where
  "b64_alphabet = ''ABCDEFGHIJKLMNOPQRSTUVWXYZabcdefghijklmnopqrstuvwxyz0123456789+/''"

definition b64_char :: "nat \<Rightarrow> char" where
  "b64_char n = b64_alphabet ! n"

fun base64 :: "string \<Rightarrow> string" where
  "base64 [] = []"
| "base64 [a] =
     [b64_char (byte_val a div 4), b64_char (byte_val a mod 4 * 16), CHR ''='', CHR ''='']"
| "base64 [a, b] =
     [b64_char (byte_val a div 4), b64_char (byte_val a mod 4 * 16 + byte_val b div 16),
      b64_char (byte_val b mod 16 * 4), CHR ''='']"
| "base64 (a # b # c # r) =
     b64_char (byte_val a div 4) # b64_char (byte_val a mod 4 * 16 + byte_val b div 16)
     # b64_char (byte_val b mod 16 * 4 + byte_val c div 64) # b64_char (byte_val c mod 64)
     # base64 r"

definition b64_val :: "char \<Rightarrow> nat option" where
  "b64_val c = str_index b64_alphabet [c]"

text \<open>The inverse on what the encoder writes: \<open>None\<close> on anything else.\<close>

fun base64_decode :: "string \<Rightarrow> string option" where
  "base64_decode [] = Some []"
| "base64_decode (p # q # r # s # t) =
     (case (b64_val p, b64_val q) of
        (Some x, Some y) \<Rightarrow>
          if r = CHR ''='' \<and> s = CHR ''='' \<and> t = [] then Some [char_of (x * 4 + y div 16)]
          else
            (case b64_val r of
               None \<Rightarrow> None
             | Some z \<Rightarrow>
                 if s = CHR ''='' \<and> t = []
                 then Some [char_of (x * 4 + y div 16), char_of (y mod 16 * 16 + z div 4)]
                 else
                   (case b64_val s of
                      None \<Rightarrow> None
                    | Some w \<Rightarrow>
                        map_option (\<lambda>u. char_of (x * 4 + y div 16) # char_of (y mod 16 * 16 + z div 4)
                            # char_of (z mod 4 * 64 + w) # u) (base64_decode t)))
      | _ \<Rightarrow> None)"
| "base64_decode _ = None"

lemma b64_table: "list_all (\<lambda>n. b64_val (b64_char n) = Some n \<and> b64_char n \<noteq> CHR ''='') [0..<64]"
  by code_simp

lemma b64_val_char [simp]: "n < 64 \<Longrightarrow> b64_val (b64_char n) = Some n"
  and b64_char_pad [simp]: "n < 64 \<Longrightarrow> b64_char n \<noteq> CHR ''=''"
  using b64_table by (auto simp: list_all_iff)

lemma sextets:
  "byte_val a div 4 < 64" "byte_val a mod 4 * 16 < 64" "byte_val a mod 4 * 16 + byte_val b div 16 < 64"
  "byte_val b mod 16 * 4 < 64" "byte_val b mod 16 * 4 + byte_val c div 64 < 64" "byte_val c mod 64 < 64"
  using byte_val_less [of a] byte_val_less [of b] byte_val_less [of c] by linarith+

lemma octet_div [simp]:
  "byte_val a div 16 div 16 = 0" "byte_val a div 64 div 4 = 0"
  "byte_val a div 16 mod 16 = byte_val a div 16" "byte_val a div 64 mod 4 = byte_val a div 64"
proof -
  have "byte_val a div 16 < 16" "byte_val a div 64 < 4"
    using byte_val_less [of a] by linarith+
  then show "byte_val a div 16 div 16 = 0" "byte_val a div 64 div 4 = 0"
    "byte_val a div 16 mod 16 = byte_val a div 16" "byte_val a div 64 mod 4 = byte_val a div 64"
    by simp_all
qed

lemma octet_glue [simp]:
  "byte_val a div 4 * 4 + byte_val a mod 4 = byte_val a"
  "byte_val a div 16 * 16 + byte_val a mod 16 = byte_val a"
  "byte_val a div 64 * 64 + byte_val a mod 64 = byte_val a"
  by (rule div_mult_mod_eq)+

theorem base64_roundtrip: "base64_decode (base64 s) = Some s"
proof (induction s rule: base64.induct)
  case (4 a b c r)
  then show ?case by (simp add: sextets)
qed (simp_all add: sextets)

lemma base64_inject: "base64 a = base64 b \<longleftrightarrow> a = b"
  by (metis base64_roundtrip option.inject)

lemma b64_char_visible: "n < 64 \<Longrightarrow> 33 \<le> byte_val (b64_char n) \<and> byte_val (b64_char n) < 128"
proof -
  have "list_all (\<lambda>n. 33 \<le> byte_val (b64_char n) \<and> byte_val (b64_char n) < 128) [0..<64]" by code_simp
  then show "n < 64 \<Longrightarrow> 33 \<le> byte_val (b64_char n) \<and> byte_val (b64_char n) < 128"
    by (simp add: list_all_iff)
qed

lemma base64_visible_bytes: "c \<in> set (base64 s) \<Longrightarrow> 33 \<le> byte_val c \<and> byte_val c < 128"
proof (induction s rule: base64.induct)
  case (4 a b c r)
  then show ?case using sextets b64_char_visible by auto
qed (use sextets b64_char_visible in \<open>auto simp: byte_val_def\<close>)

lemma base64_eq_Nil [simp]: "base64 s = [] \<longleftrightarrow> s = []"
  by (induction s rule: base64.induct) simp_all

section \<open>Trimming\<close>

text \<open>White space of \<open>strings.TrimSpace\<close> neither starts nor ends with a visible ASCII byte.\<close>

definition visible :: "char \<Rightarrow> bool" where
  "visible c \<longleftrightarrow> 33 \<le> byte_val c \<and> byte_val c < 128"

definition visible_ends :: "string \<Rightarrow> bool" where
  "visible_ends s \<longleftrightarrow> s \<noteq> [] \<and> visible (hd s) \<and> visible (last s)"

lemma trim_left_keep: "find (\<lambda>p. p \<noteq> [] \<and> has_prefix s p) ps = None \<Longrightarrow> trim_left_any s ps = s"
  by (simp add: trim_left_any.simps)

lemma space_seqs_not_ascii:
  assumes "visible c"
  shows "find (\<lambda>p. p \<noteq> [] \<and> has_prefix (c # s) p) space_seqs = None"
    and "find (\<lambda>p. p \<noteq> [] \<and> has_prefix (c # s) p) (map rev space_seqs) = None"
proof -
  have "\<forall>d \<in> set (map hd space_seqs @ map last space_seqs). \<not> visible d"
    by code_simp
  with assms have "\<forall>p \<in> set space_seqs. hd p \<noteq> c \<and> last p \<noteq> c" by auto
  then show "find (\<lambda>p. p \<noteq> [] \<and> has_prefix (c # s) p) space_seqs = None"
    and "find (\<lambda>p. p \<noteq> [] \<and> has_prefix (c # s) p) (map rev space_seqs) = None"
    by (auto simp: find_None_iff has_prefix_iff Cons_eq_append_conv) (metis last_rev list.sel(1) rev_rev_ident last_snoc)+
qed

lemma trim_left_visible:
  assumes "s \<noteq> []" and "visible (hd s)"
  shows "trim_left_any s space_seqs = s" and "trim_left_any s (map rev space_seqs) = s"
  using assms space_seqs_not_ascii [of "hd s" "tl s"] by (simp_all add: trim_left_keep)

lemma trim_space_visible: "visible_ends s \<Longrightarrow> trim_space s = s"
  by (simp add: trim_space_def visible_ends_def trim_left_visible hd_rev)

lemma trim_left_crlf:
  "trim_left_any (CHR 0x0A # CHR 0x0D # s) (map rev space_seqs) = trim_left_any s (map rev space_seqs)"
  by (simp add: trim_left_any.simps [of "CHR 0x0A # CHR 0x0D # s"] trim_left_any.simps [of "CHR 0x0D # s"]
      space_seqs_def has_prefix_def)

lemma trim_space_crlf: "visible_ends s \<Longrightarrow> trim_space (s @ [CHR 0x0D, CHR 0x0A]) = s"
  by (simp add: trim_space_def visible_ends_def trim_left_visible trim_left_crlf hd_rev)

section \<open>Header names\<close>

definition token_byte :: "char \<Rightarrow> bool" where
  "token_byte c \<longleftrightarrow>
     c \<in> set ''!#$%&*+-.^_`|~'' \<or> c = CHR 0x27 \<or> (48 \<le> byte_val c \<and> byte_val c \<le> 57)
     \<or> (65 \<le> byte_val c \<and> byte_val c \<le> 90) \<or> (97 \<le> byte_val c \<and> byte_val c \<le> 122)"

fun canon_bytes :: "bool \<Rightarrow> string \<Rightarrow> string" where
  "canon_bytes upper [] = []"
| "canon_bytes upper (c # s) =
     (if upper then fold_byte c else lower_byte c) # canon_bytes (c = CHR ''-'') s"

definition canonical_key :: "string \<Rightarrow> string" where
  "canonical_key k = (if k \<noteq> [] \<and> list_all token_byte k then canon_bytes True k else k)"

text \<open>\<open>http.Header.Set\<close> and \<open>Get\<close> on single values.\<close>

definition header_set :: "string \<Rightarrow> string \<Rightarrow> smap \<Rightarrow> smap" where
  "header_set k v h = smap_put (canonical_key k) v h"

definition header_get :: "string \<Rightarrow> smap \<Rightarrow> string" where
  "header_get k h = (case map_of h (canonical_key k) of Some v \<Rightarrow> v | None \<Rightarrow> [])"

lemma byte_val_fold_byte [simp]:
  "byte_val (fold_byte c) = (if 97 \<le> byte_val c \<and> byte_val c \<le> 122 then byte_val c - 32 else byte_val c)"
  using byte_val_less [of c] by (auto simp: fold_byte_def)

lemma byte_val_lower_byte [simp]:
  "byte_val (lower_byte c) = (if 65 \<le> byte_val c \<and> byte_val c \<le> 90 then byte_val c + 32 else byte_val c)"
  using byte_val_less [of c] by (auto simp: lower_byte_def Let_def byte_val_def)

lemma char_eq_byte_val: "c = d \<longleftrightarrow> byte_val c = byte_val d"
  by simp

lemma header_set_sorted: "smap_sorted h \<Longrightarrow> smap_sorted (header_set k v h)"
  by (simp add: header_set_def smap_put_sorted)

lemma header_get_set [simp]:
  "smap_sorted h \<Longrightarrow> header_get k (header_set k' v h) =
     (if canonical_key k = canonical_key k' then v else header_get k h)"
  by (simp add: header_get_def header_set_def map_of_smap_put)

end
