(* ===== verification/Wsx_Frame.thy ===== *)
theory Wsx_Frame
  imports Go_Text "HOL-Library.Word"
begin

unbundle bit_operations_syntax

text \<open>
  The frame codec of the CHANNEL atom (\<open>internal/wsx/wsx.go\<close>): \<open>readFrame\<close>, \<open>ReadText\<close>,
  \<open>WriteText\<close>, \<open>writeControl\<close> and \<open>Close\<close>, on bytes of type \<^typ>\<open>8 word\<close>. A connection is
  the bytes its peer still delivers with the error that ends them, the state of the raw
  socket, and the number of random bytes taken so far. \<open>write\<close> is the socket's \<open>Write\<close>,
  \<open>rand\<close> the random source and \<open>alloc\<close> the longest slice the runtime can make: parameters of
  the model. The locale \<open>message_stream\<close> is the interface to the components that read
  messages one after the other.
\<close>

type_synonym byte = "8 word"

definition bytes_of :: "string \<Rightarrow> byte list" where
  "bytes_of s = map (\<lambda>c. word_of_nat (byte_val c)) s"

definition text_of :: "byte list \<Rightarrow> string" where
  "text_of bs = map (\<lambda>b. char_of (unat b)) bs"

datatype io_error = Eof | UnexpectedEof | IoError string

record 's conn =
  cn_in :: "byte list"
  cn_end :: io_error
  cn_raw :: 's
  cn_taken :: nat

section \<open>Big-endian numbers and masks\<close>

text \<open>\<open>binary.BigEndian\<close>: \<open>be_bytes k n\<close> are the \<open>k\<close> low bytes of \<open>n\<close>, the highest first.\<close>

primrec be_bytes :: "nat \<Rightarrow> nat \<Rightarrow> byte list" where
  "be_bytes 0 n = []"
| "be_bytes (Suc k) n = be_bytes k (n div 256) @ [word_of_nat n]"

definition be_uint :: "byte list \<Rightarrow> nat" where
  "be_uint bs = foldl (\<lambda>n b. n * 256 + unat b) 0 bs"

fun mask_from :: "nat \<Rightarrow> byte list \<Rightarrow> byte list \<Rightarrow> byte list" where
  "mask_from i m [] = []"
| "mask_from i m (b # bs) = (b XOR m ! (i AND 3)) # mask_from (Suc i) m bs"

section \<open>Reading\<close>

text \<open>
  \<open>io.ReadFull\<close>: the next \<open>n\<close> bytes. At the end of the stream the error is \<open>io.EOF\<close> only if
  no byte was read; either way the stream is used up.
\<close>

definition read_full :: "io_error \<Rightarrow> nat \<Rightarrow> byte list \<Rightarrow> (io_error + byte list) \<times> byte list" where
  "read_full err n bs =
     (if n \<le> length bs then (Inr (take n bs), drop n bs)
      else (Inl (if bs \<noteq> [] \<and> err = Eof then UnexpectedEof else err), []))"

datatype frame_result = FrameOk byte "byte list" | FrameErr io_error | FramePanic

text \<open>
  The payload length is a Go \<open>int\<close>, so a 64-bit length with the top bit set is negative;
  \<open>make\<close> panics on that and on a length that the runtime cannot allocate.
\<close>

definition read_payload ::
  "nat \<Rightarrow> io_error \<Rightarrow> byte \<Rightarrow> bool \<Rightarrow> int \<Rightarrow> byte list \<Rightarrow> frame_result \<times> byte list"
where
  "read_payload alloc err opcode masked n bs =
     (case (if masked then read_full err 4 bs else (Inr [0, 0, 0, 0], bs)) of
        (Inl e, bs1) \<Rightarrow> (FrameErr e, bs1)
      | (Inr mk, bs1) \<Rightarrow>
          if n < 0 \<or> int alloc < n then (FramePanic, bs1)
          else
            (case read_full err (nat n) bs1 of
               (Inl e, bs2) \<Rightarrow> (FrameErr e, bs2)
             | (Inr payload, bs2) \<Rightarrow>
                 (FrameOk opcode (if masked then mask_from 0 mk payload else payload), bs2)))"

definition read_frame :: "nat \<Rightarrow> io_error \<Rightarrow> byte list \<Rightarrow> frame_result \<times> byte list" where
  "read_frame alloc err bs =
     (case read_full err 2 bs of
        (Inl e, bs1) \<Rightarrow> (FrameErr e, bs1)
      | (Inr h, bs1) \<Rightarrow>
          (let opcode = h ! 0 AND 0x0f; masked = (h ! 1 AND 0x80 \<noteq> 0); n = unat (h ! 1 AND 0x7f) in
           if n = 126 then
             (case read_full err 2 bs1 of
                (Inl e, bs2) \<Rightarrow> (FrameErr e, bs2)
              | (Inr ext, bs2) \<Rightarrow> read_payload alloc err opcode masked (int (be_uint ext)) bs2)
           else if n = 127 then
             (case read_full err 8 bs1 of
                (Inl e, bs2) \<Rightarrow> (FrameErr e, bs2)
              | (Inr ext, bs2) \<Rightarrow>
                  read_payload alloc err opcode masked (wrap64 (int (be_uint ext))) bs2)
           else read_payload alloc err opcode masked (int n) bs1))"

section \<open>Writing\<close>

definition take_mask :: "(nat \<Rightarrow> byte) \<Rightarrow> 's conn \<Rightarrow> byte list \<times> 's conn" where
  "take_mask rand c =
     (map (\<lambda>i. rand (cn_taken c + i)) [0..<4], c\<lparr>cn_taken := cn_taken c + 4\<rparr>)"

definition conn_write ::
  "('s \<Rightarrow> byte list \<Rightarrow> 's \<times> io_error option) \<Rightarrow> 's conn \<Rightarrow> byte list \<Rightarrow> 's conn \<times> io_error option"
where
  "conn_write write c bs =
     (case write (cn_raw c) bs of (s, err) \<Rightarrow> (c\<lparr>cn_raw := s\<rparr>, err))"

definition text_header :: "nat \<Rightarrow> byte list" where
  "text_header n =
     (if n < 126 then [0x81, 0x80 OR word_of_nat n]
      else if n < 2 ^ 16 then [0x81, 0x80 OR 126, word_of_nat (n div 256), word_of_nat n]
      else [0x81, 0x80 OR 127] @ be_bytes 8 n)"

definition write_text ::
  "('s \<Rightarrow> byte list \<Rightarrow> 's \<times> io_error option) \<Rightarrow> (nat \<Rightarrow> byte) \<Rightarrow> 's conn \<Rightarrow> string
     \<Rightarrow> 's conn \<times> io_error option"
where
  "write_text write rand c s =
     (let payload = bytes_of s; (mk, c1) = take_mask rand c
      in conn_write write c1 (text_header (length payload) @ mk @ mask_from 0 mk payload))"

definition write_control ::
  "('s \<Rightarrow> byte list \<Rightarrow> 's \<times> io_error option) \<Rightarrow> (nat \<Rightarrow> byte) \<Rightarrow> 's conn \<Rightarrow> byte \<Rightarrow> byte list
     \<Rightarrow> 's conn \<times> io_error option"
where
  "write_control write rand c opcode payload0 =
     (let payload = (if length payload0 > 125 then take 125 payload0 else payload0);
          (mk, c1) = take_mask rand c
      in conn_write write c1
           ([0x80 OR opcode, 0x80 OR word_of_nat (length payload)] @ mk @ mask_from 0 mk payload))"

text \<open>\<open>Close\<close>: a close frame whose fate is ignored, then the socket's own \<open>Close\<close>.\<close>

definition close_conn ::
  "('s \<Rightarrow> byte list \<Rightarrow> 's \<times> io_error option) \<Rightarrow> (nat \<Rightarrow> byte) \<Rightarrow> ('s \<Rightarrow> 's \<times> io_error option)
     \<Rightarrow> 's conn \<Rightarrow> 's conn \<times> io_error option"
where
  "close_conn write rand close c =
     (let c1 = fst (write_control write rand c 0x8 [])
      in case close (cn_raw c1) of (s, err) \<Rightarrow> (c1\<lparr>cn_raw := s\<rparr>, err))"

section \<open>The text loop\<close>

lemma read_full_shrinks: "length (snd (read_full err n bs)) \<le> length bs - n"
  by (simp add: read_full_def)

lemma read_payload_shrinks:
  "length (snd (read_payload alloc err opcode masked n bs)) \<le> length bs"
  by (auto simp: read_payload_def read_full_def)

lemma read_frame_snd: "length (snd (read_frame alloc err bs)) \<le> length bs - 2"
  by (auto simp: read_frame_def read_full_def Let_def
      intro: order_trans [OF read_payload_shrinks])

lemma read_frame_shrinks:
  assumes "read_frame alloc err bs = (FrameOk opcode payload, bs')"
  shows "length bs' < length bs"
proof -
  have "2 \<le> length bs" using assms by (auto simp: read_frame_def read_full_def split: if_splits)
  then show ?thesis using read_frame_snd [of alloc err bs] assms by simp
qed

lemma write_control_in [simp]: "cn_in (fst (write_control write rand c opcode payload)) = cn_in c"
  by (simp add: write_control_def conn_write_def take_mask_def Let_def split: prod.split)

lemma write_control_keeps: "(c', e) = write_control write rand c opcode payload \<Longrightarrow> cn_in c' = cn_in c"
  by (metis fst_conv write_control_in)

lemma read_frame_shrinks':
  "(FrameOk opcode payload, bs') = read_frame alloc err bs \<Longrightarrow> length bs' < length bs"
  by (rule read_frame_shrinks) (rule sym)

datatype text_result = Text string | ReadErr io_error | ReadPanic

text \<open>
  \<open>ReadText\<close>: skips what is neither text nor close, answers pings. An error of the pong ends
  the call.
\<close>

function read_text ::
  "nat \<Rightarrow> ('s \<Rightarrow> byte list \<Rightarrow> 's \<times> io_error option) \<Rightarrow> (nat \<Rightarrow> byte) \<Rightarrow> 's conn
     \<Rightarrow> text_result \<times> 's conn"
where
  "read_text alloc write rand c =
     (case read_frame alloc (cn_end c) (cn_in c) of
        (FrameErr e, bs) \<Rightarrow> (ReadErr e, c\<lparr>cn_in := bs\<rparr>)
      | (FramePanic, bs) \<Rightarrow> (ReadPanic, c\<lparr>cn_in := bs\<rparr>)
      | (FrameOk opcode payload, bs) \<Rightarrow>
          (let c1 = c\<lparr>cn_in := bs\<rparr> in
           if opcode = 0x1 then (Text (text_of payload), c1)
           else if opcode = 0x8 then (ReadErr Eof, c1)
           else if opcode = 0x9 then
             (case write_control write rand c1 0xA payload of
                (c2, Some e) \<Rightarrow> (ReadErr e, c2)
              | (c2, None) \<Rightarrow> read_text alloc write rand c2)
           else read_text alloc write rand c1))"
  by pat_completeness auto

termination
  by (relation "measure (\<lambda>(alloc, write, rand, c). length (cn_in c))")
    (auto dest!: read_frame_shrinks' write_control_keeps)

declare read_text.simps [simp del]

lemma read_text_shrinks: "read_text alloc wr rand c = (Text s, c') \<Longrightarrow> length (cn_in c') < length (cn_in c)"
proof (induction alloc wr rand c rule: read_text.induct)
  case (1 alloc wr rand c)
  obtain f bs where f: "read_frame alloc (cn_end c) (cn_in c) = (f, bs)" by fastforce
  show ?case
  proof (cases f)
    case (FrameOk opcode payload)
    have less: "length bs < length (cn_in c)" using read_frame_shrinks f FrameOk by fastforce
    obtain c2 e where w: "write_control wr rand (c\<lparr>cn_in := bs\<rparr>) 0xA payload = (c2, e)" by fastforce
    have "cn_in c2 = bs" using write_control_keeps [OF w [symmetric]] by simp
    with 1 f FrameOk w less show ?thesis
      by (fastforce simp: read_text.simps [of alloc wr rand c] Let_def split: if_splits option.splits)
  qed (use 1 f in \<open>auto simp: read_text.simps [of alloc wr rand c]\<close>)
qed


section \<open>The codec is its own inverse\<close>

lemma text_bytes [simp]: "text_of (bytes_of s) = s"
  by (simp add: text_of_def bytes_of_def comp_def unat_of_nat take_bit_nat_eq_self)

lemma length_bytes_of [simp]: "length (bytes_of s) = length s"
  by (simp add: bytes_of_def)

lemma bytes_of_append [simp]: "bytes_of (a @ b) = bytes_of a @ bytes_of b"
  by (simp add: bytes_of_def)

lemma length_be_bytes [simp]: "length (be_bytes k n) = k"
  by (induction k arbitrary: n) simp_all

lemma be_uint_snoc [simp]: "be_uint (bs @ [b]) = be_uint bs * 256 + unat b"
  by (simp add: be_uint_def)

lemma unat_byte: "unat (word_of_nat n :: byte) = n mod 256"
  by (simp add: unat_of_nat take_bit_eq_mod)

lemma be_roundtrip: "be_uint (be_bytes k n) = n mod 256 ^ k"
proof (induction k arbitrary: n)
  case (Suc k)
  have "n div 256 mod 256 ^ k * 256 + n mod 256 = n mod (256 * 256 ^ k)"
    by (simp add: mod_mult2_eq mult.commute)
  with Suc show ?case by (simp add: unat_byte)
qed (simp add: be_uint_def)

lemma length_mask_from [simp]: "length (mask_from i m bs) = length bs"
  by (induction i m bs rule: mask_from.induct) simp_all

lemma mask_from_inverse [simp]: "mask_from i m (mask_from i m bs) = bs"
  by (induction i m bs rule: mask_from.induct) (simp_all add: xor.assoc)

lemma read_full_append [simp]: "length a = n \<Longrightarrow> read_full err n (a @ rest) = (Inr a, rest)"
  by (auto simp: read_full_def)

definition len_code :: "byte \<Rightarrow> nat \<Rightarrow> byte list" where
  "len_code mb n =
     (if n < 126 then [mb OR word_of_nat n]
      else if n < 2 ^ 16 then [mb OR 126, word_of_nat (n div 256), word_of_nat n]
      else [mb OR 127] @ be_bytes 8 n)"

text \<open>
  A frame as RFC 6455 lays it out, its length in the shortest form: first byte \<open>b0\<close> (the FIN
  bit and the opcode), and masked if there is a mask.
\<close>

definition frame_bytes :: "byte \<Rightarrow> byte list option \<Rightarrow> byte list \<Rightarrow> byte list" where
  "frame_bytes b0 mk payload =
     (case mk of
        None \<Rightarrow> b0 # len_code 0 (length payload) @ payload
      | Some m \<Rightarrow> b0 # len_code 0x80 (length payload) @ m @ mask_from 0 m payload)"

definition mask_bit :: "bool \<Rightarrow> byte" where
  "mask_bit masked = (if masked then 0x80 else 0)"

lemma and_low7: "(w :: byte) AND 0x7f = take_bit 7 w"
  by (simp add: take_bit_eq_mask mask_eq_decr_exp)

lemma and_top: "(w :: byte) AND 0x80 = 0 \<longleftrightarrow> \<not> bit w 7"
  using and_exp_eq_0_iff_not_bit [of w 7] by simp

lemma mask_bit_bits [simp]: "take_bit 7 (mask_bit m) = 0" "bit (mask_bit m) 7 \<longleftrightarrow> m"
  by (cases m; simp add: mask_bit_def)+

lemma len_bits [simp]:
  assumes "n < 128"
  shows "unat ((mask_bit m OR word_of_nat n) AND 0x7f) = n"
    and "(mask_bit m OR word_of_nat n) AND 0x80 = 0 \<longleftrightarrow> \<not> m"
proof -
  have "unat (take_bit 7 (word_of_nat n :: byte)) = n"
    using assms by (simp add: take_bit_of_nat unat_byte take_bit_nat_eq_self)
  then show "unat ((mask_bit m OR word_of_nat n) AND 0x7f) = n"
    by (simp add: and_low7)
  have "\<not> bit n 7" using assms by (simp add: bit_iff_odd)
  then show "(mask_bit m OR word_of_nat n) AND 0x80 = 0 \<longleftrightarrow> \<not> m"
    by (simp add: and_top bit_or_iff bit_of_nat_iff)
qed

lemma len_bits_big [simp]:
  "unat ((mask_bit m OR 126) AND 0x7f) = 126" "(mask_bit m OR 126) AND 0x80 = 0 \<longleftrightarrow> \<not> m"
  "unat ((mask_bit m OR 127) AND 0x7f) = 127" "(mask_bit m OR 127) AND 0x80 = 0 \<longleftrightarrow> \<not> m"
  by (cases m; simp add: mask_bit_def)+

lemma read_frame_len:
  assumes "n < 2 ^ 63"
  shows "read_frame alloc err (b0 # len_code (mask_bit m) n @ bs) =
    read_payload alloc err (b0 AND 0x0f) m (int n) bs"
proof -
  consider "n < 126" | "126 \<le> n" "n < 2 ^ 16" | "2 ^ 16 \<le> n" by linarith
  then show ?thesis
  proof cases
    case 1
    then show ?thesis by (simp add: read_frame_def len_code_def read_full_def)
  next
    case 2
    have "be_uint [word_of_nat (n div 256), word_of_nat n] = n"
      using 2 by (simp add: be_uint_def unat_byte)
    with 2 show ?thesis by (simp add: read_frame_def len_code_def read_full_def)
  next
    case 3
    have "be_uint (be_bytes 8 n) = n" using assms by (simp add: be_roundtrip)
    then have "wrap64 (int (be_uint (be_bytes 8 n))) = int n" using assms by (simp add: wrap64_id)
    moreover have "read_full err 8 (be_bytes 8 n @ bs) = (Inr (be_bytes 8 n), bs)" by simp
    moreover have "read_full err 2 (b0 # (mask_bit m OR 127) # be_bytes 8 n @ bs) =
        (Inr [b0, mask_bit m OR 127], be_bytes 8 n @ bs)" by (simp add: read_full_def)
    ultimately show ?thesis using 3
      by (simp add: read_frame_def len_code_def del: be_bytes.simps)
  qed
qed

theorem read_frame_bytes:
  assumes "length payload < 2 ^ 63" and "length payload \<le> alloc"
    and "\<forall>m. mk = Some m \<longrightarrow> length m = 4"
  shows "read_frame alloc err (frame_bytes b0 mk payload @ rest) = (FrameOk (b0 AND 0x0f) payload, rest)"
proof (cases mk)
  case None
  then show ?thesis
    using assms read_frame_len [OF assms(1), of alloc err b0 False "payload @ rest"]
    by (simp add: frame_bytes_def mask_bit_def read_payload_def)
next
  case (Some m)
  then show ?thesis
    using assms read_frame_len [OF assms(1), of alloc err b0 True "m @ mask_from 0 m payload @ rest"]
    by (simp add: frame_bytes_def mask_bit_def read_payload_def)
qed


section \<open>Streams of messages\<close>

text \<open>
  The interface that the readers of a channel use: a message put on the stream under any nonce
  is the next one that is got, and the rest of the stream is untouched.
\<close>

primrec read_many :: "('b list \<Rightarrow> (string \<times> 'b list) option) \<Rightarrow> nat \<Rightarrow> 'b list \<Rightarrow> (string list \<times> 'b list) option"
where
  "read_many get 0 bs = Some ([], bs)"
| "read_many get (Suc n) bs =
     (case get bs of
        None \<Rightarrow> None
      | Some (s, bs1) \<Rightarrow> map_option (\<lambda>(ss, bs2). (s # ss, bs2)) (read_many get n bs1))"

locale message_stream =
  fixes put :: "'k \<Rightarrow> string \<Rightarrow> 'b list" and get :: "'b list \<Rightarrow> (string \<times> 'b list) option"
    and ok :: "'k \<Rightarrow> string \<Rightarrow> bool"
  assumes get_put: "ok k s \<Longrightarrow> get (put k s @ rest) = Some (s, rest)"
begin

lemma put_prefix_free:
  "ok k s \<Longrightarrow> ok k' s' \<Longrightarrow> put k s @ rest = put k' s' @ rest' \<Longrightarrow> s = s' \<and> rest = rest'"
  by (metis get_put option.inject prod.inject)

lemma read_many_put:
  "\<forall>(k, s) \<in> set kss. ok k s \<Longrightarrow>
     read_many get (length kss) (concat (map (\<lambda>(k, s). put k s) kss) @ rest) = Some (map snd kss, rest)"
  by (induction kss) (auto simp: get_put)

end

definition mask_at :: "(nat \<Rightarrow> byte) \<Rightarrow> nat \<Rightarrow> byte list" where
  "mask_at rand t = map (\<lambda>i. rand (t + i)) [0..<4]"

lemma length_mask_at [simp]: "length (mask_at rand t) = 4"
  by (simp add: mask_at_def)

lemma write_text_alt:
  "write_text write rand c s =
     conn_write write (c\<lparr>cn_taken := cn_taken c + 4\<rparr>)
       (frame_bytes 0x81 (Some (mask_at rand (cn_taken c))) (bytes_of s))"
  by (simp add: write_text_def take_mask_def frame_bytes_def text_header_def len_code_def
      mask_at_def Let_def)

lemma write_control_alt:
  "write_control write rand c opcode payload =
     conn_write write (c\<lparr>cn_taken := cn_taken c + 4\<rparr>)
       (frame_bytes (0x80 OR opcode) (Some (mask_at rand (cn_taken c))) (take 125 payload))"
  by (simp add: write_control_def take_mask_def frame_bytes_def len_code_def mask_at_def Let_def
      min_def)

text \<open>A socket that takes every write.\<close>

definition append_write :: "byte list \<Rightarrow> byte list \<Rightarrow> byte list \<times> io_error option" where
  "append_write out bs = (out @ bs, None)"

text \<open>The next message of a stream that holds no ping, as the readers see it.\<close>

definition get_text :: "nat \<Rightarrow> byte list \<Rightarrow> (string \<times> byte list) option" where
  "get_text alloc bs =
     (case read_text alloc append_write (\<lambda>_. 0)
        \<lparr>cn_in = bs, cn_end = Eof, cn_raw = [], cn_taken = 0\<rparr> of
        (Text s, c) \<Rightarrow> Some (s, cn_in c)
      | _ \<Rightarrow> None)"

definition fits :: "nat \<Rightarrow> byte list \<Rightarrow> bool" where
  "fits alloc payload \<longleftrightarrow> length payload < 2 ^ 63 \<and> length payload \<le> alloc"

definition put_text :: "byte list \<Rightarrow> string \<Rightarrow> byte list" where
  "put_text m s = frame_bytes 0x81 (Some m) (bytes_of s)"

interpretation ws: message_stream put_text "get_text alloc"
  "\<lambda>m s. length m = 4 \<and> fits alloc (bytes_of s)" for alloc
proof unfold_locales
  fix m :: "byte list" and s rest
  assume "length m = 4 \<and> fits alloc (bytes_of s)"
  then have "read_frame alloc Eof (frame_bytes 0x81 (Some m) (bytes_of s) @ rest) =
      (FrameOk (0x81 AND 0x0f) (bytes_of s), rest)"
    by (intro read_frame_bytes) (auto simp: fits_def)
  then show "get_text alloc (put_text m s @ rest) = Some (s, rest)"
    by (simp add: get_text_def put_text_def read_text.simps)
qed

definition send_texts ::
  "(nat \<Rightarrow> byte) \<Rightarrow> string list \<Rightarrow> byte list conn \<Rightarrow> byte list conn" where
  "send_texts rand msgs c = fold (\<lambda>s c. fst (write_text append_write rand c s)) msgs c"

fun mask_run :: "(nat \<Rightarrow> byte) \<Rightarrow> nat \<Rightarrow> string list \<Rightarrow> (byte list \<times> string) list" where
  "mask_run rand t [] = []"
| "mask_run rand t (s # ss) = (mask_at rand t, s) # mask_run rand (t + 4) ss"

lemma mask_run_facts [simp]:
  "length (mask_run rand t ss) = length ss" "map snd (mask_run rand t ss) = ss"
  "(m, s) \<in> set (mask_run rand t ss) \<Longrightarrow> length m = 4 \<and> s \<in> set ss"
  by (induction rand t ss rule: mask_run.induct) auto

lemma send_texts_raw:
  "cn_raw (send_texts rand msgs c) =
     cn_raw c @ concat (map (\<lambda>(k, s). put_text k s) (mask_run rand (cn_taken c) msgs))"
  by (induction msgs arbitrary: c)
    (auto simp: send_texts_def write_text_alt conn_write_def append_write_def put_text_def)

text \<open>
  C1. Messages arrive as they were sent: whatever masks the random source gives, the bytes that a
  sequence of \<open>WriteText\<close> puts on the socket are read back by \<open>ReadText\<close> as the same texts, in
  order, each with its exact length (7, 16 or 64-bit form), and what follows them stays unread.
\<close>

theorem texts_arrive:
  assumes "cn_raw c = []" and "\<forall>s \<in> set msgs. length s \<le> alloc" and "alloc < 2 ^ 63"
  shows "read_many (get_text alloc) (length msgs) (cn_raw (send_texts rand msgs c) @ rest) = Some (msgs, rest)"
proof -
  have "\<forall>(k, s) \<in> set (mask_run rand (cn_taken c) msgs). length k = 4 \<and> fits alloc (bytes_of s)"
    using assms(2,3) by (auto simp: fits_def dest!: mask_run_facts(3))
  from ws.read_many_put [OF this, of rest] show ?thesis
    by (simp add: send_texts_raw assms(1))
qed

definition idle_conn :: "byte list conn" where
  "idle_conn = \<lparr>cn_in = [], cn_end = Eof, cn_raw = [], cn_taken = 0\<rparr>"

lemma texts_arrive_witness:
  "read_many (get_text 1000) (length [''hi'', ''there'']) (cn_raw (send_texts (\<lambda>i. word_of_nat (i * 37)) [''hi'', ''there''] idle_conn) @ [0x88])
     = Some ([''hi'', ''there''], [0x88])"
  using texts_arrive [of idle_conn "[''hi'', ''there'']" 1000 "\<lambda>i. word_of_nat (i * 37)" "[0x88]"]
  by (simp add: idle_conn_def)

section \<open>Control frames between messages\<close>

type_synonym wire_frame = "byte \<times> byte list option \<times> byte list"

definition wire_frame_ok :: "nat \<Rightarrow> wire_frame \<Rightarrow> bool" where
  "wire_frame_ok alloc f = (case f of (b0, mk, payload) \<Rightarrow> fits alloc payload \<and> (\<forall>m. mk = Some m \<longrightarrow> length m = 4))"

definition opcode_of :: "wire_frame \<Rightarrow> byte" where
  "opcode_of f = fst f AND 0x0f"

definition wire_bytes :: "wire_frame \<Rightarrow> byte list" where
  "wire_bytes f = (case f of (b0, mk, payload) \<Rightarrow> frame_bytes b0 mk payload)"

text \<open>The pongs due for a run of frames: one per ping, with at most 125 bytes of its payload.\<close>

fun pongs :: "(nat \<Rightarrow> byte) \<Rightarrow> nat \<Rightarrow> wire_frame list \<Rightarrow> byte list" where
  "pongs rand t [] = []"
| "pongs rand t (f # fs) =
     (if opcode_of f = 0x9
      then frame_bytes 0x8A (Some (mask_at rand t)) (take 125 (snd (snd f))) @ pongs rand (t + 4) fs
      else pongs rand t fs)"

definition ping_count :: "wire_frame list \<Rightarrow> nat" where
  "ping_count fs = length (filter (\<lambda>f. opcode_of f = 0x9) fs)"

lemma read_wire_bytes:
  "wire_frame_ok alloc f \<Longrightarrow> read_frame alloc err (wire_bytes f @ rest) = (FrameOk (opcode_of f) (snd (snd f)), rest)"
  by (cases f) (auto simp: wire_frame_ok_def wire_bytes_def opcode_of_def fits_def read_frame_bytes)

lemma read_text_skips:
  assumes "\<forall>f \<in> set fs. wire_frame_ok alloc f \<and> opcode_of f \<notin> {0x1, 0x8}"
  shows "read_text alloc append_write rand (c\<lparr>cn_in := concat (map wire_bytes fs) @ rest\<rparr>) =
    read_text alloc append_write rand
      (c\<lparr>cn_in := rest, cn_raw := cn_raw c @ pongs rand (cn_taken c) fs,
        cn_taken := cn_taken c + 4 * ping_count fs\<rparr>)"
  using assms
proof (induction fs arbitrary: c)
  case Nil
  then show ?case by (simp add: ping_count_def)
next
  case (Cons f fs)
  let ?more = "concat (map wire_bytes fs) @ rest"
  have frame: "read_frame alloc (cn_end c) (wire_bytes f @ ?more) = (FrameOk (opcode_of f) (snd (snd f)), ?more)"
    using Cons.prems by (intro read_wire_bytes) simp
  have op: "opcode_of f \<noteq> 1" "opcode_of f \<noteq> 8" using Cons.prems by auto
  show ?case
  proof (cases "opcode_of f = 9")
    case True
    define c1 where "c1 = c\<lparr>cn_raw := cn_raw c @ frame_bytes 0x8A (Some (mask_at rand (cn_taken c))) (take 125 (snd (snd f))),
      cn_taken := cn_taken c + 4\<rparr>"
    have "read_text alloc append_write rand (c\<lparr>cn_in := concat (map wire_bytes (f # fs)) @ rest\<rparr>) =
        read_text alloc append_write rand (c1\<lparr>cn_in := ?more\<rparr>)"
      using True frame by (subst read_text.simps, cases c)
        (simp add: write_control_alt conn_write_def append_write_def c1_def)
    also have "\<dots> = read_text alloc append_write rand
        (c1\<lparr>cn_in := rest, cn_raw := cn_raw c1 @ pongs rand (cn_taken c1) fs,
          cn_taken := cn_taken c1 + 4 * ping_count fs\<rparr>)"
      using Cons by simp
    finally show ?thesis using True by (simp add: c1_def ping_count_def add.assoc)
  next
    case False
    have "read_text alloc append_write rand (c\<lparr>cn_in := concat (map wire_bytes (f # fs)) @ rest\<rparr>) =
        read_text alloc append_write rand (c\<lparr>cn_in := ?more\<rparr>)"
      using False frame op by (subst read_text.simps) simp
    with Cons False show ?thesis by (simp add: ping_count_def)
  qed
qed

text \<open>
  C2. \<open>ReadText\<close> over any run of frames without a text or close frame, masked or not: it skips
  them, answers each ping, in order, with one masked pong frame carrying the ping's payload (cut
  to 125 bytes), and then returns the payload of the text frame, or \<open>io.EOF\<close> at a close frame,
  with the bytes after it unread. The answer does not look at the FIN bit.
\<close>

theorem read_text_spec:
  assumes "\<forall>f \<in> set (fs @ [g]). wire_frame_ok alloc f" and "\<forall>f \<in> set fs. opcode_of f \<notin> {0x1, 0x8}"
    and "opcode_of g \<in> {0x1, 0x8}"
  shows "read_text alloc append_write rand (c\<lparr>cn_in := concat (map wire_bytes (fs @ [g])) @ rest\<rparr>) =
    (if opcode_of g = 0x1 then Text (text_of (snd (snd g))) else ReadErr Eof,
     c\<lparr>cn_in := rest, cn_raw := cn_raw c @ pongs rand (cn_taken c) fs,
       cn_taken := cn_taken c + 4 * ping_count fs\<rparr>)"
proof -
  have "read_frame alloc (cn_end c) (wire_bytes g @ rest) = (FrameOk (opcode_of g) (snd (snd g)), rest)"
    using assms(1) by (intro read_wire_bytes) simp
  then show ?thesis
    using assms read_text_skips [of fs alloc rand "wire_bytes g @ rest" c]
    by (auto simp: read_text.simps)
qed

definition ping_sample :: "wire_frame list" where
  "ping_sample = [(0x89, None, bytes_of ''p''), (0x82, None, [1, 2]), (0x01, None, bytes_of ''Hel'')]"

lemma read_text_spec_witness:
  "read_text 100 append_write (\<lambda>_. 0)
      (idle_conn\<lparr>cn_in := concat (map wire_bytes ping_sample) @ wire_bytes (0x80, None, bytes_of ''lo'')\<rparr>) =
    (Text ''Hel'', idle_conn\<lparr>cn_in := [0x80, 2, 108, 111], cn_raw := [0x8A, 0x81, 0, 0, 0, 0, 112], cn_taken := 4\<rparr>)"
proof -
  have split: "ping_sample = take 2 ping_sample @ [(0x01, None, bytes_of ''Hel'')]"
    by (simp add: ping_sample_def)
  have wire: "wire_bytes (0x80, None, bytes_of ''lo'') = [0x80, 2, 108, 111]" by code_simp
  have "\<forall>f \<in> set (take 2 ping_sample @ [(0x01, None, bytes_of ''Hel'')]). wire_frame_ok 100 f"
    by (simp add: ping_sample_def wire_frame_ok_def fits_def)
  moreover have "\<forall>f \<in> set (take 2 ping_sample). opcode_of f \<notin> {0x1, 0x8}"
    by (simp add: ping_sample_def opcode_of_def)
  moreover have "opcode_of (0x01, None, bytes_of ''Hel'') \<in> {0x1, 0x8}" by (simp add: opcode_of_def)
  moreover have "pongs (\<lambda>_. 0) 0 (take 2 ping_sample) = [0x8A, 0x81, 0, 0, 0, 0, 112]" by code_simp
  moreover have "ping_count (take 2 ping_sample) = 1" by code_simp
  ultimately show ?thesis
    using read_text_spec [of "take 2 ping_sample" "(0x01, None, bytes_of ''Hel'')" 100 "\<lambda>_. 0"
        "[0x80, 2, 108, 111]" idle_conn]
    by (simp add: split [symmetric] wire opcode_of_def idle_conn_def)
qed



end
