(* ===== verification/Sha1.thy ===== *)
theory Sha1
  imports Wsx_Frame
begin

text \<open>
  SHA-1 (\<open>crypto/sha1\<close> of Go's library), which the opening handshake of a channel uses to
  derive the accept key, on 32-bit words as FIPS 180-4 gives it. Nothing is proved about the
  hash itself: the theorems on the handshake hold for it as for any function.
\<close>

type_synonym hash = "32 word \<times> 32 word \<times> 32 word \<times> 32 word \<times> 32 word"

definition rotl :: "nat \<Rightarrow> 32 word \<Rightarrow> 32 word" where
  "rotl n w = push_bit n w OR drop_bit (32 - n) w"

definition word_of_bytes :: "byte list \<Rightarrow> 32 word" where
  "word_of_bytes bs = foldl (\<lambda>w b. push_bit 8 w OR ucast b) 0 bs"

definition bytes_of_word :: "32 word \<Rightarrow> byte list" where
  "bytes_of_word w = [ucast (drop_bit 24 w), ucast (drop_bit 16 w), ucast (drop_bit 8 w), ucast w]"

fun chunks :: "nat \<Rightarrow> nat \<Rightarrow> 'a list \<Rightarrow> 'a list list" where
  "chunks 0 k xs = []"
| "chunks (Suc n) k xs = take k xs # chunks n k (drop k xs)"

text \<open>The message with its padding: a one bit, zeros, and the length in bits.\<close>

definition sha1_pad :: "byte list \<Rightarrow> byte list" where
  "sha1_pad bs =
     (let n = length bs; z = (119 - n mod 64) mod 64
      in bs @ 0x80 # replicate z 0 @ be_bytes 8 (8 * n))"

text \<open>The 80 words of a block, the latest first.\<close>

fun sha1_expand :: "nat \<Rightarrow> 32 word list \<Rightarrow> 32 word list" where
  "sha1_expand 0 ws = ws"
| "sha1_expand (Suc k) ws =
     sha1_expand k (rotl 1 (ws ! 2 XOR ws ! 7 XOR ws ! 13 XOR ws ! 15) # ws)"

definition sha1_f :: "nat \<Rightarrow> 32 word \<Rightarrow> 32 word \<Rightarrow> 32 word \<Rightarrow> 32 word \<times> 32 word" where
  "sha1_f t b c d =
     (if t < 20 then ((b AND c) OR (NOT b AND d), 0x5A827999)
      else if t < 40 then (b XOR c XOR d, 0x6ED9EBA1)
      else if t < 60 then ((b AND c) OR (b AND d) OR (c AND d), 0x8F1BBCDC)
      else (b XOR c XOR d, 0xCA62C1D6))"

fun sha1_rounds :: "nat \<Rightarrow> 32 word list \<Rightarrow> hash \<Rightarrow> hash" where
  "sha1_rounds t [] h = h"
| "sha1_rounds t (w # ws) (a, b, c, d, e) =
     (case sha1_f t b c d of
        (f, k) \<Rightarrow> sha1_rounds (Suc t) ws (rotl 5 a + f + e + k + w, a, rotl 30 b, c, d))"

definition sha1_block :: "byte list \<Rightarrow> hash \<Rightarrow> hash" where
  "sha1_block bs h =
     (let ws = map word_of_bytes (chunks 16 4 bs)
      in case sha1_rounds 0 (rev (sha1_expand 64 (rev ws))) h of
           (a, b, c, d, e) \<Rightarrow>
             (case h of (a0, b0, c0, d0, e0) \<Rightarrow> (a0 + a, b0 + b, c0 + c, d0 + d, e0 + e)))"

definition sha1 :: "byte list \<Rightarrow> byte list" where
  "sha1 bs =
     (let p = sha1_pad bs
      in case fold sha1_block (chunks (length p div 64) 64 p)
           (0x67452301, 0xEFCDAB89, 0x98BADCFE, 0x10325476, 0xC3D2E1F0) of
           (a, b, c, d, e) \<Rightarrow> concat (map bytes_of_word [a, b, c, d, e]))"

end
