(* ===== verification/Httpx.thy ===== *)
theory Httpx
  imports Go_Text
begin

text \<open>
  \<open>internal/httpx/httpx.go\<close>: the CALL atom. \<open>apply_auth\<close> is \<open>Auth.Apply\<close>, \<open>unix_scheme\<close> the
  detection of unix-socket URLs and \<open>http_do\<close> is \<open>Do\<close>. The network is a parameter of the
  model: \<open>exchange\<close> is what \<open>client.Do\<close> returns for a request on a client, and \<open>url_err\<close> the
  error of \<open>net/url\<close>'s parser on a URL. The locale \<open>unix_form\<close> is the address form that the
  CALL and the CHANNEL atom share.
\<close>

record httpx_request =
  hq_method :: string
  hq_url :: string
  hq_headers :: smap
  hq_body :: string

record httpx_response =
  hp_status :: int
  hp_headers :: "(string \<times> string list) list"
  hp_body :: string

record httpx_auth =
  au_type :: string
  au_user :: string
  au_key :: string
  au_header :: string

definition apply_auth :: "httpx_auth \<Rightarrow> httpx_request \<Rightarrow> httpx_request" where
  "apply_auth a r =
     (let put = (\<lambda>k v. r\<lparr>hq_headers := smap_put k v (hq_headers r)\<rparr>)
      in if to_lower (au_type a) = ''basic'' then
           put ''Authorization'' (''Basic '' @ base64 (au_user a @ '':'' @ au_key a))
         else if to_lower (au_type a) = ''bearer'' then
           put ''Authorization'' (''Bearer '' @ au_key a)
         else if to_lower (au_type a) = ''apikey'' then
           put (if au_header a = [] then ''X-API-Key'' else au_header a) (au_key a)
         else r)"

section \<open>Unix-socket URLs\<close>

definition http_unix_prefixes :: "string list" where
  "http_unix_prefixes = [''http+unix://'', ''https+unix://'', ''unix://'']"

text \<open>The leading slash that the request path is given.\<close>

definition slashed :: "string \<Rightarrow> string" where
  "slashed req = (if has_prefix req ''/'' then req else ''/'' @ req)"

definition unix_scheme :: "string \<Rightarrow> (string \<times> string) option" where
  "unix_scheme raw =
     (case find (\<lambda>p. has_prefix raw p) http_unix_prefixes of
        None \<Rightarrow> None
      | Some p \<Rightarrow>
          (let rest = trim_prefix raw p
           in case str_index rest '':'' of
                None \<Rightarrow> Some (rest, ''http://unix/'')
              | Some i \<Rightarrow>
                  Some (take i rest, ''http://unix'' @ slashed (drop (i + 1) rest))))"

locale unix_form =
  fixes split :: "string \<Rightarrow> (string \<times> string) option"
    and prefixes :: "string list" and base :: string
  assumes split_path: "p \<in> set prefixes \<Longrightarrow> CHR '':'' \<notin> set sock
      \<Longrightarrow> split (p @ sock @ CHR '':'' # req) = Some (sock, base @ slashed req)"
    and split_root: "p \<in> set prefixes \<Longrightarrow> CHR '':'' \<notin> set sock
      \<Longrightarrow> split (p @ sock) = Some (sock, base @ ''/'')"
    and split_None: "split s = None \<longleftrightarrow> (\<forall>p \<in> set prefixes. \<not> has_prefix s p)"
begin

lemma split_total:
  assumes "p \<in> set prefixes"
  obtains sock req where "split (p @ rest) = Some (sock, base @ CHR ''/'' # req)"
    and "CHR '':'' \<notin> set sock"
proof (cases "CHR '':'' \<in> set rest")
  case True
  then obtain sock req where "rest = sock @ CHR '':'' # req" "CHR '':'' \<notin> set sock"
    by (meson split_list_first)
  with split_path [OF assms this(2), of req] that show thesis
    by (cases "has_prefix req ''/''") (auto simp: slashed_def has_prefix_iff)
next
  case False
  with split_root [OF assms] that show thesis by auto
qed

lemma split_sound:
  assumes "split s = Some (sock, r)"
  shows "CHR '':'' \<notin> set sock \<and> (\<exists>req. r = base @ CHR ''/'' # req)"
proof -
  from assms obtain p where "p \<in> set prefixes" "has_prefix s p" using split_None [of s] by auto
  then obtain rest where "s = p @ rest" by (auto simp: has_prefix_iff)
  with \<open>p \<in> set prefixes\<close> assms show ?thesis
    by (metis split_total option.inject prod.inject)
qed

lemma scheme_irrelevant:
  "p \<in> set prefixes \<Longrightarrow> q \<in> set prefixes \<Longrightarrow> split (p @ rest) = split (q @ rest)"
proof (cases "CHR '':'' \<in> set rest")
  case True
  assume "p \<in> set prefixes" "q \<in> set prefixes"
  moreover from True obtain sock req where "rest = sock @ CHR '':'' # req" "CHR '':'' \<notin> set sock"
    by (meson split_list_first)
  ultimately show ?thesis by (simp add: split_path)
qed (simp add: split_root)

end

lemma http_prefix_find:
  "p \<in> set http_unix_prefixes \<Longrightarrow> find (\<lambda>q. has_prefix (p @ rest) q) http_unix_prefixes = Some p"
  by (auto simp: http_unix_prefixes_def)

interpretation http_unix: unix_form unix_scheme http_unix_prefixes "''http://unix''"
proof unfold_locales
  fix p sock req
  assume p: "p \<in> set http_unix_prefixes" and s: "CHR '':'' \<notin> set sock"
  show "unix_scheme (p @ sock @ CHR '':'' # req) = Some (sock, ''http://unix'' @ slashed req)"
    using s by (simp add: unix_scheme_def http_prefix_find [OF p] Let_def)
  show "unix_scheme (p @ sock) = Some (sock, ''http://unix'' @ ''/'')"
    using s by (simp add: unix_scheme_def http_prefix_find [OF p] Let_def)
next
  fix s
  show "unix_scheme s = None \<longleftrightarrow> (\<forall>p \<in> set http_unix_prefixes. \<not> has_prefix s p)"
  proof (cases "find (has_prefix s) http_unix_prefixes")
    case None
    then have "\<forall>p \<in> set http_unix_prefixes. \<not> has_prefix s p" by (auto simp: find_None_iff)
    with None show ?thesis by (simp add: unix_scheme_def)
  next
    case (Some p)
    then have "p \<in> set http_unix_prefixes" "has_prefix s p" by (auto simp: find_Some_iff)
    with Some show ?thesis by (auto simp: unix_scheme_def Let_def split: option.splits)
  qed
qed

section \<open>Do\<close>

datatype dialer = DialTcp | DialUnix string

record http_client =
  cl_timeout_ms :: int
  cl_dialer :: dialer

record wire_request =
  wq_method :: string
  wq_url :: string
  wq_headers :: smap
  wq_body :: "string option"

record wire_response =
  wp_status :: int
  wp_headers :: "(string \<times> string list) list"
  wp_body :: string
  wp_body_err :: "string option"

datatype do_error = BadMethod string | BadUrl string | ClientError string | BodyError string

definition default_client :: http_client where
  "default_client = \<lparr>cl_timeout_ms = 60 * 1000, cl_dialer = DialTcp\<rparr>"

definition unix_client :: "string \<Rightarrow> int \<Rightarrow> http_client" where
  "unix_client socket timeout = \<lparr>cl_timeout_ms = timeout, cl_dialer = DialUnix socket\<rparr>"

text \<open>The client and the URL that the call uses.\<close>

definition route_call :: "http_client option \<Rightarrow> string \<Rightarrow> http_client \<times> string" where
  "route_call client url =
     (case unix_scheme url of
        Some (socket, http_url) \<Rightarrow> (unix_client socket (60 * 1000), http_url)
      | None \<Rightarrow> ((case client of Some c \<Rightarrow> c | None \<Rightarrow> default_client), url))"

text \<open>
  The headers of the request: the caller's, in any order of Go's map, then the default
  content type.
\<close>

definition call_headers :: "smap \<Rightarrow> string \<Rightarrow> smap" where
  "call_headers hs body =
     (let h = fold (\<lambda>(k, v). header_set k v) hs []
      in if header_get ''Content-Type'' h = [] \<and> body \<noteq> []
         then header_set ''Content-Type'' ''application/json'' h else h)"

text \<open>
  \<open>strings.ToUpper\<close>: besides ASCII letters, the two code points whose upper case is ASCII. The
  other bytes outside ASCII are kept, which \<open>http.NewRequest\<close> rejects as it does the code's.
\<close>

fun to_upper :: "string \<Rightarrow> string" where
  "to_upper [] = []"
| "to_upper (c # s) =
     (if has_prefix (c # s) [CHR 0xC4, CHR 0xB1] then CHR ''I'' # to_upper (drop 1 s)
      else if has_prefix (c # s) [CHR 0xC5, CHR 0xBF] then CHR ''S'' # to_upper (drop 1 s)
      else fold_byte c # to_upper s)"

text \<open>
  \<open>http.NewRequest\<close>: an empty method is GET; a method that is no token is an error, and so is a
  URL that does not parse.
\<close>

definition valid_method :: "string \<Rightarrow> bool" where
  "valid_method m \<longleftrightarrow> list_all token_byte m"

definition new_request ::
  "(string \<Rightarrow> string option) \<Rightarrow> string \<Rightarrow> string \<Rightarrow> string \<Rightarrow> do_error + wire_request"
where
  "new_request url_err meth url body =
     (if \<not> valid_method meth then Inl (BadMethod meth)
      else
        (case url_err url of
           Some e \<Rightarrow> Inl (BadUrl e)
         | None \<Rightarrow>
             Inr \<lparr>wq_method = (if meth = [] then ''GET'' else meth), wq_url = url, wq_headers = [],
                  wq_body = (if body = [] then None else Some body)\<rparr>))"

definition http_do ::
  "(string \<Rightarrow> string option) \<Rightarrow> (http_client \<Rightarrow> wire_request \<Rightarrow> string + wire_response)
     \<Rightarrow> http_client option \<Rightarrow> httpx_request \<Rightarrow> do_error + httpx_response"
where
  "http_do url_err exchange client r =
     (case route_call client (hq_url r) of
        (c, url) \<Rightarrow>
          (case new_request url_err (to_upper (hq_method r)) url (hq_body r) of
             Inl e \<Rightarrow> Inl e
           | Inr req \<Rightarrow>
               (case exchange c (req\<lparr>wq_headers := call_headers (hq_headers r) (hq_body r)\<rparr>) of
                  Inl e \<Rightarrow> Inl (ClientError e)
                | Inr resp \<Rightarrow>
                    (case wp_body_err resp of
                       Some e \<Rightarrow> Inl (BodyError e)
                     | None \<Rightarrow>
                         Inr \<lparr>hp_status = wp_status resp, hp_headers = wp_headers resp,
                              hp_body = wp_body resp\<rparr>))))"


section \<open>Properties\<close>

definition auth_header :: "httpx_auth \<Rightarrow> string option" where
  "auth_header a =
     (if to_lower (au_type a) = ''basic'' \<or> to_lower (au_type a) = ''bearer'' then Some ''Authorization''
      else if to_lower (au_type a) = ''apikey'' then
        Some (if au_header a = [] then ''X-API-Key'' else au_header a)
      else None)"

definition auth_value :: "httpx_auth \<Rightarrow> string" where
  "auth_value a =
     (if to_lower (au_type a) = ''basic'' then ''Basic '' @ base64 (au_user a @ '':'' @ au_key a)
      else if to_lower (au_type a) = ''bearer'' then ''Bearer '' @ au_key a else au_key a)"

lemma apply_auth_alt:
  "apply_auth a r =
     (case auth_header a of None \<Rightarrow> r
      | Some h \<Rightarrow> r\<lparr>hq_headers := smap_put h (auth_value a) (hq_headers r)\<rparr>)"
  by (auto simp: apply_auth_def auth_header_def auth_value_def Let_def)

text \<open>
  Applying an authentication writes one header and nothing else: the method, the URL and the
  body stay, every other header keeps its value, and for Basic the header's payload decodes to
  exactly \<open>user:key\<close>.
\<close>

theorem apply_auth_one_header:
  assumes "smap_sorted (hq_headers r)"
  shows "hq_method (apply_auth a r) = hq_method r \<and> hq_url (apply_auth a r) = hq_url r
    \<and> hq_body (apply_auth a r) = hq_body r \<and> smap_sorted (hq_headers (apply_auth a r))
    \<and> map_of (hq_headers (apply_auth a r)) =
        (case auth_header a of None \<Rightarrow> map_of (hq_headers r)
         | Some h \<Rightarrow> (map_of (hq_headers r))(h \<mapsto> auth_value a))
    \<and> (to_lower (au_type a) = ''basic'' \<longrightarrow>
        base64_decode (trim_prefix (auth_value a) ''Basic '') = Some (au_user a @ '':'' @ au_key a))"
proof -
  have "base64_decode (trim_prefix (auth_value a) ''Basic '') = Some (au_user a @ '':'' @ au_key a)"
    if "to_lower (au_type a) = ''basic''"
    using that by (simp add: auth_value_def trim_prefix_def has_prefix_def base64_roundtrip)
  with assms show ?thesis
    by (auto simp: apply_auth_alt map_of_smap_put smap_put_sorted fun_eq_iff split: option.splits)
qed

definition basic_sample :: httpx_auth where
  "basic_sample = \<lparr>au_type = ''Basic'', au_user = ''ada'', au_key = ''k:1'', au_header = []\<rparr>"

definition get_sample :: httpx_request where
  "get_sample = \<lparr>hq_method = ''get'', hq_url = ''https+unix:///run/app.sock:v1/status'',
     hq_headers = [(''Accept'', ''text/plain'')], hq_body = []\<rparr>"

lemma apply_auth_one_header_witness:
  "map_of (hq_headers (apply_auth basic_sample get_sample)) =
     [''Accept'' \<mapsto> ''text/plain'', ''Authorization'' \<mapsto> ''Basic YWRhOms6MQ=='']"
proof -
  have "smap_sorted (hq_headers get_sample)" by code_simp
  from apply_auth_one_header [OF this, of basic_sample]
  have "map_of (hq_headers (apply_auth basic_sample get_sample)) =
      (case auth_header basic_sample of None \<Rightarrow> map_of (hq_headers get_sample)
       | Some h \<Rightarrow> (map_of (hq_headers get_sample))(h \<mapsto> auth_value basic_sample))"
    by blast
  moreover have "auth_header basic_sample = Some ''Authorization''" by code_simp
  moreover have "auth_value basic_sample = ''Basic YWRhOms6MQ==''" by code_simp
  ultimately show ?thesis by (simp add: get_sample_def fun_eq_iff)
qed

lemma http_do_cong:
  "\<lbrakk>route_call c (hq_url r) = route_call c' (hq_url r'); hq_method r = hq_method r';
    hq_headers r = hq_headers r'; hq_body r = hq_body r'\<rbrakk>
   \<Longrightarrow> http_do url_err exchange c r = http_do url_err exchange c' r'"
  by (simp only: http_do_def)

lemma route_call_unix:
  assumes "p \<in> set http_unix_prefixes" and "CHR '':'' \<notin> set sock"
  shows "route_call c (p @ sock @ CHR '':'' # req) =
    (unix_client sock (60 * 1000), ''http://unix'' @ slashed req)"
  using http_unix.split_path [OF assms] by (simp add: route_call_def)

text \<open>
  What a call on a unix-socket URL does is decided by the text after the scheme alone: the
  three schemes are interchangeable, so \<open>https+unix\<close> is the same plain-text exchange as
  \<open>http+unix\<close>, and the client that the caller supplies, with its timeout, has no effect: the
  socket is dialled by a client of 60 seconds.
\<close>

theorem unix_call_ignores_client:
  assumes "p \<in> set http_unix_prefixes" and "q \<in> set http_unix_prefixes"
  shows "http_do url_err exchange c (r\<lparr>hq_url := p @ rest\<rparr>) =
      http_do url_err exchange c' (r\<lparr>hq_url := q @ rest\<rparr>)
    \<and> (\<exists>sock url. route_call c (p @ rest) = (unix_client sock 60000, ''http://unix/'' @ url))"
proof -
  obtain sock req where "unix_scheme (p @ rest) = Some (sock, ''http://unix'' @ CHR ''/'' # req)"
    by (rule http_unix.split_total [OF assms(1)])
  then have "route_call c (p @ rest) = (unix_client sock 60000, ''http://unix'' @ CHR ''/'' # req)"
    and "route_call c' (q @ rest) = route_call c (p @ rest)"
    using http_unix.scheme_irrelevant [OF assms, of rest] by (simp_all add: route_call_def)
  then show ?thesis by (auto intro: http_do_cong)
qed

definition echo_exchange :: "http_client \<Rightarrow> wire_request \<Rightarrow> string + wire_response" where
  "echo_exchange c r =
     (case cl_dialer c of
        DialTcp \<Rightarrow> Inl ''no route''
      | DialUnix s \<Rightarrow>
          Inr \<lparr>wp_status = 200, wp_headers = [], wp_body = s @ '' '' @ wq_method r @ '' '' @ wq_url r,
               wp_body_err = None\<rparr>)"

lemma unix_call_ignores_client_witness:
  "http_do (\<lambda>_. None) echo_exchange None (get_sample\<lparr>hq_url := ''https+unix://'' @ ''/a.sock:x''\<rparr>) =
     http_do (\<lambda>_. None) echo_exchange (Some \<lparr>cl_timeout_ms = 5, cl_dialer = DialTcp\<rparr>)
       (get_sample\<lparr>hq_url := ''unix://'' @ ''/a.sock:x''\<rparr>)
   \<and> http_do (\<lambda>_. None) echo_exchange None (get_sample\<lparr>hq_url := ''https+unix://'' @ ''/a.sock:x''\<rparr>) =
     Inr \<lparr>hp_status = 200, hp_headers = [], hp_body = ''/a.sock GET http://unix/x''\<rparr>"
  (is "?l = ?r \<and> ?l = ?v")
proof -
  have "?l = ?r"
    using unix_call_ignores_client [of "''https+unix://''" "''unix://''"]
    by (auto simp: http_unix_prefixes_def)
  moreover have "?l = ?v" by code_simp
  ultimately show ?thesis by blast
qed

lemma header_get_Nil: "header_get k [] = []"
  by (simp add: header_get_def)

lemma header_fold:
  assumes "distinct (map (canonical_key \<circ> fst) hs)" and "smap_sorted acc"
    and "\<forall>(k, v) \<in> set hs. map_of acc (canonical_key k) = None"
  shows "smap_sorted (fold (\<lambda>(k, v). header_set k v) hs acc)
    \<and> header_get k (fold (\<lambda>(k, v). header_set k v) hs acc) =
      (case map_of (map (\<lambda>(k, v). (canonical_key k, v)) hs) (canonical_key k) of
         Some v \<Rightarrow> v | None \<Rightarrow> header_get k acc)"
  using assms
proof (induction hs arbitrary: acc)
  case (Cons kv hs)
  obtain k' v' where kv: "kv = (k', v')" by fastforce
  have new: "\<forall>(k, v) \<in> set hs. map_of (header_set k' v' acc) (canonical_key k) = None"
    using Cons.prems kv by (force simp: header_set_def map_of_smap_put)
  have out: "map_of (map (\<lambda>(k, v). (canonical_key k, v)) hs) (canonical_key k') = None"
    using Cons.prems(1) kv by (force simp: map_of_eq_None_iff)
  have "distinct (map (canonical_key \<circ> fst) hs)" "smap_sorted (header_set k' v' acc)"
    using Cons.prems by (auto simp: header_set_sorted comp_def)
  from Cons.IH [OF this new] show ?case
    using Cons.prems(2) kv out by (auto split: option.splits)
qed simp

text \<open>
  The headers of an outgoing call. When no two of the caller's names share a canonical form,
  the caller's headers all arrive, in whatever order the map is walked, under any spelling of the
  name; the one header added is the JSON content type, exactly when there is a body and the caller
  gave no (or an empty) content type.
\<close>

theorem call_headers_spec:
  assumes "distinct (map (canonical_key \<circ> fst) hs)"
  shows "header_get k (call_headers hs body) =
    (let given = \<lambda>n. (case map_of (map (\<lambda>(k, v). (canonical_key k, v)) hs) n of Some v \<Rightarrow> v | None \<Rightarrow> [])
     in if canonical_key k = ''Content-Type'' \<and> given ''Content-Type'' = [] \<and> body \<noteq> []
        then ''application/json'' else given (canonical_key k))"
proof -
  let ?h = "fold (\<lambda>(k, v). header_set k v) hs []"
  have ct: "canonical_key ''Content-Type'' = ''Content-Type''" by code_simp
  have "smap_sorted ?h" and get: "header_get n ?h =
      (case map_of (map (\<lambda>(k, v). (canonical_key k, v)) hs) (canonical_key n) of
         Some v \<Rightarrow> v | None \<Rightarrow> [])" for n
    using header_fold [OF assms, of "[]"] by (simp_all add: smap_sorted_def header_get_Nil cong: option.case_cong)
  then show ?thesis
    using get [of "''Content-Type''"] get [of k] by (auto simp: call_headers_def Let_def ct)
qed

lemma call_headers_spec_witness:
  "header_get ''content-type'' (call_headers [(''x-a'', ''1''), (''ACCEPT'', ''*'')] ''{}'') = ''application/json''
   \<and> header_get ''Accept'' (call_headers [(''x-a'', ''1''), (''ACCEPT'', ''*'')] ''{}'') = ''*''"
proof -
  have "distinct (map (canonical_key \<circ> fst) [(''x-a'', ''1''), (''ACCEPT'', ''*'')])" by code_simp
  note spec = call_headers_spec [OF this, of _ "''{}''"]
  have "canonical_key ''content-type'' = ''Content-Type''" "canonical_key ''x-a'' = ''X-A''"
    "canonical_key ''ACCEPT'' = ''Accept''" "canonical_key ''Accept'' = ''Accept''" by code_simp+
  then show ?thesis by (simp add: spec)
qed


end
