(* ===== verification/Wsx.thy ===== *)
theory Wsx
  imports Sha1 Httpx
begin

text \<open>
  The opening handshake of the CHANNEL atom (\<open>internal/wsx/wsx.go\<close>): \<open>unixForm\<close>,
  \<open>DialWithHeaders\<close>, \<open>acceptKey\<close> and \<open>hostOnly\<close>. Parameters of the model: \<open>parse_url\<close>
  (\<open>net/url\<close>) and \<open>dial\<close> (\<open>net\<close> and \<open>crypto/tls\<close>), which yields an error or a peer, a
  function from the bytes it is sent to the bytes it answers. The unix address form is the
  second interpretation of the interface of \<open>Httpx\<close>.
\<close>

section \<open>Addresses\<close>

definition ws_unix_prefixes :: "string list" where
  "ws_unix_prefixes = [''ws+unix://'', ''wss+unix://'', ''unix://'']"

definition unix_form_split :: "string \<Rightarrow> (string \<times> string) option" where
  "unix_form_split raw =
     (case find (\<lambda>p. has_prefix raw p) ws_unix_prefixes of
        None \<Rightarrow> None
      | Some p \<Rightarrow>
          (let rest = trim_prefix raw p
           in case str_index rest '':'' of
                Some i \<Rightarrow> Some (take i rest, slashed (drop (i + 1) rest))
              | None \<Rightarrow> Some (rest, ''/'')))"

lemma ws_prefix_find:
  "p \<in> set ws_unix_prefixes \<Longrightarrow> find (\<lambda>q. has_prefix (p @ rest) q) ws_unix_prefixes = Some p"
  by (auto simp: ws_unix_prefixes_def)

interpretation ws_unix: unix_form unix_form_split ws_unix_prefixes "[]"
proof unfold_locales
  fix p sock req
  assume p: "p \<in> set ws_unix_prefixes" and s: "CHR '':'' \<notin> set sock"
  show "unix_form_split (p @ sock @ CHR '':'' # req) = Some (sock, [] @ slashed req)"
    using s by (simp add: unix_form_split_def ws_prefix_find [OF p] Let_def)
  show "unix_form_split (p @ sock) = Some (sock, [] @ ''/'')"
    using s by (simp add: unix_form_split_def ws_prefix_find [OF p] Let_def)
next
  fix s
  show "unix_form_split s = None \<longleftrightarrow> (\<forall>p \<in> set ws_unix_prefixes. \<not> has_prefix s p)"
  proof (cases "find (has_prefix s) ws_unix_prefixes")
    case None
    then have "\<forall>p \<in> set ws_unix_prefixes. \<not> has_prefix s p" by (auto simp: find_None_iff)
    with None show ?thesis by (simp add: unix_form_split_def)
  next
    case (Some p)
    then have "p \<in> set ws_unix_prefixes" "has_prefix s p" by (auto simp: find_Some_iff)
    with Some show ?thesis by (auto simp: unix_form_split_def Let_def split: option.splits)
  qed
qed

definition host_only :: "string \<Rightarrow> string" where
  "host_only hostport =
     (case last_index_byte hostport (CHR '':'') of Some i \<Rightarrow> take i hostport | None \<Rightarrow> hostport)"

text \<open>What \<open>net/url\<close> makes of a URL, as far as the code looks at it.\<close>

record parsed_url =
  pu_scheme :: string
  pu_host :: string
  pu_request_uri :: string

datatype ws_target = UnixSocket string | Tcp string | Tls string string

datatype dial_error = DialFailed string | BadWsUrl string | BadScheme string | WriteFailed string
  | ReadFailed io_error | UpgradeRefused string | NoProof

text \<open>The address to dial, the \<open>Host\<close> header and the request path.\<close>

definition ws_address ::
  "(string \<Rightarrow> string + parsed_url) \<Rightarrow> string \<Rightarrow> dial_error + (ws_target \<times> string \<times> string)"
where
  "ws_address parse_url raw =
     (case unix_form_split raw of
        Some (socket, req) \<Rightarrow> Inr (UnixSocket socket, ''unix'', req)
      | None \<Rightarrow>
          (case parse_url raw of
             Inl e \<Rightarrow> Inl (BadWsUrl e)
           | Inr u \<Rightarrow>
               (let host = pu_host u;
                    with_port = (\<lambda>p. if contains host '':'' then host else host @ p)
                in if pu_scheme u = ''ws'' then
                     Inr (Tcp (with_port '':80''), pu_host u, pu_request_uri u)
                   else if pu_scheme u = ''wss'' then
                     Inr (Tls (with_port '':443'') (host_only (with_port '':443'')), pu_host u, pu_request_uri u)
                   else Inl (BadScheme (pu_scheme u)))))"

section \<open>The request\<close>

definition ws_guid :: string where
  "ws_guid = ''258EAFA5-E914-47DA-95CA-C5AB0DC85B11''"

definition accept_key :: "string \<Rightarrow> string" where
  "accept_key client_key = base64 (text_of (sha1 (bytes_of (client_key @ ws_guid))))"

definition crlf :: string where
  "crlf = [CHR 0x0D, CHR 0x0A]"

definition owned_headers :: "string list" where
  "owned_headers = [''host'', ''upgrade'', ''connection'', ''sec-websocket-key'', ''sec-websocket-version'']"

definition extra_headers :: "smap \<Rightarrow> string" where
  "extra_headers hs =
     concat (map (\<lambda>(k, v). if to_lower (trim_space k) \<in> set owned_headers then [] else k @ '': '' @ v @ crlf) hs)"

definition upgrade_request :: "string \<Rightarrow> string \<Rightarrow> string \<Rightarrow> smap \<Rightarrow> string" where
  "upgrade_request path host key hs =
     ''GET '' @ path @ '' HTTP/1.1'' @ crlf @
     ''Host: '' @ host @ crlf @
     ''Upgrade: websocket'' @ crlf @
     ''Connection: Upgrade'' @ crlf @
     ''Sec-WebSocket-Key: '' @ key @ crlf @
     ''Sec-WebSocket-Version: 13'' @ crlf @
     extra_headers hs @ crlf"

section \<open>The response\<close>

text \<open>\<open>bufio.Reader.ReadString\<close> at a line feed: the line with it, and what is left.\<close>

definition read_line :: "string \<Rightarrow> (string \<times> string) option" where
  "read_line s =
     (case str_index s [CHR 0x0A] of None \<Rightarrow> None | Some i \<Rightarrow> Some (take (i + 1) s, drop (i + 1) s))"

text \<open>\<open>strings.Cut\<close> at a colon, and the header that proves the handshake.\<close>

definition accept_line :: "string \<Rightarrow> string \<Rightarrow> bool option" where
  "accept_line want t =
     (case str_index t '':'' of
        None \<Rightarrow> None
      | Some i \<Rightarrow>
          if fold_name (trim_space (take i t)) = fold_name ''Sec-WebSocket-Accept''
          then Some (trim_space (drop (i + 1) t) = want) else None)"

lemma read_line_shrinks: "read_line s = Some (l, r) \<Longrightarrow> length r < length s"
  by (cases s) (auto simp: read_line_def split: option.splits)

function read_headers :: "string \<Rightarrow> bool \<Rightarrow> string \<Rightarrow> (bool \<times> string) option" where
  "read_headers want accepted s =
     (case read_line s of
        None \<Rightarrow> None
      | Some (line, r) \<Rightarrow>
          (let t = trim_space line in
           if t = [] then Some (accepted, r)
           else
             (case accept_line want t of
                Some ok \<Rightarrow> read_headers want ok r
              | None \<Rightarrow> read_headers want accepted r)))"
  by pat_completeness auto
termination
  by (relation "measure (\<lambda>(want, accepted, s). length s)") (auto dest: read_line_shrinks)

declare read_headers.simps [simp del]

text \<open>
  A peer that was dialled: what it answers to a request, or the error of writing the request;
  \<open>pe_end\<close> is the error that ends its answer.
\<close>

record ws_peer =
  pe_answer :: "string \<Rightarrow> string + string"
  pe_end :: io_error

text \<open>
  \<open>Established\<close> holds the bytes that follow the handshake; \<open>Failed\<close> says whether the socket,
  if there was one, was closed.
\<close>

datatype dial_outcome = Established string | Failed dial_error bool

definition dial_with_headers ::
  "(string \<Rightarrow> string + parsed_url) \<Rightarrow> (ws_target \<Rightarrow> string + ws_peer) \<Rightarrow> string \<Rightarrow> string \<Rightarrow> smap \<Rightarrow> dial_outcome"
where
  "dial_with_headers parse_url dial nonce raw hs =
     (case ws_address parse_url raw of
        Inl e \<Rightarrow> Failed e False
      | Inr (target, host, path0) \<Rightarrow>
          (case dial target of
             Inl e \<Rightarrow> Failed (DialFailed e) False
           | Inr peer \<Rightarrow>
               (let path = (if path0 = [] then ''/'' else path0); key = base64 nonce in
                case pe_answer peer (upgrade_request path host key hs) of
                  Inl e \<Rightarrow> Failed (WriteFailed e) True
                | Inr s \<Rightarrow>
                    (case read_line s of
                       None \<Rightarrow> Failed (ReadFailed (pe_end peer)) True
                     | Some (status, r) \<Rightarrow>
                         if \<not> contains status '' 101'' then Failed (UpgradeRefused (trim_space status)) True
                         else
                           (case read_headers (accept_key key) False r of
                              None \<Rightarrow> Failed (ReadFailed (pe_end peer)) True
                            | Some (accepted, rest) \<Rightarrow>
                                if \<not> accepted then Failed NoProof True else Established rest)))))"

text \<open>\<open>Dial\<close>: no extra headers.\<close>

definition ws_dial ::
  "(string \<Rightarrow> string + parsed_url) \<Rightarrow> (ws_target \<Rightarrow> string + ws_peer) \<Rightarrow> string \<Rightarrow> string \<Rightarrow> dial_outcome"
where
  "ws_dial parse_url dial nonce raw = dial_with_headers parse_url dial nonce raw []"


section \<open>What the handshake accepts\<close>

definition header_block :: "string list \<Rightarrow> string" where
  "header_block ls = concat (map (\<lambda>l. l @ crlf) ls)"

definition header_line :: "string \<Rightarrow> bool" where
  "header_line l \<longleftrightarrow> CHR 0x0A \<notin> set l \<and> trim_space (l @ crlf) \<noteq> []"

text \<open>The verdict of the last \<open>Sec-WebSocket-Accept\<close> line.\<close>

fun last_verdict :: "string \<Rightarrow> bool \<Rightarrow> string list \<Rightarrow> bool" where
  "last_verdict want b [] = b"
| "last_verdict want b (l # ls) =
     last_verdict want (case accept_line want (trim_space (l @ crlf)) of Some ok \<Rightarrow> ok | None \<Rightarrow> b) ls"

lemma read_line_crlf [simp]:
  "CHR 0x0A \<notin> set l \<Longrightarrow> read_line (l @ crlf @ r) = Some (l @ crlf, r)"
proof -
  assume "CHR 0x0A \<notin> set l"
  then have "str_index ((l @ [CHR 0x0D]) @ CHR 0x0A # r) [CHR 0x0A] = Some (length (l @ [CHR 0x0D]))"
    by (intro str_index_byte_append) simp
  then show ?thesis by (simp add: read_line_def crlf_def)
qed

lemma trim_crlf [simp]: "trim_space crlf = []"
  by code_simp

lemma read_headers_block:
  "\<forall>l \<in> set ls. header_line l \<Longrightarrow>
     read_headers want b (header_block ls @ crlf @ rest) = Some (last_verdict want b ls, rest)"
proof (induction ls arbitrary: b)
  case Nil
  have "read_line (crlf @ rest) = Some (crlf, rest)" using read_line_crlf [of "[]" rest] by simp
  then show ?case by (simp add: header_block_def read_headers.simps)
next
  case (Cons l ls)
  then have "read_line (l @ crlf @ header_block ls @ crlf @ rest) = Some (l @ crlf, header_block ls @ crlf @ rest)"
    and "trim_space (l @ crlf) \<noteq> []" by (simp_all add: header_line_def)
  then have "read_headers want b (header_block (l # ls) @ crlf @ rest) =
      read_headers want (case accept_line want (trim_space (l @ crlf)) of Some ok \<Rightarrow> ok | None \<Rightarrow> b)
        (header_block ls @ crlf @ rest)"
    by (subst read_headers.simps) (simp add: header_block_def split: option.split)
  with Cons show ?case by simp
qed

lemma sha1_nonempty: "sha1 bs \<noteq> []"
  by (simp add: sha1_def Let_def bytes_of_word_def split: prod.split)

lemma accept_key_bytes: "c \<in> set (accept_key k) \<Longrightarrow> visible c"
  using base64_visible_bytes by (auto simp: accept_key_def visible_def)

lemma accept_key_visible: "visible_ends (accept_key k)"
proof -
  have "accept_key k \<noteq> []" by (simp add: accept_key_def text_of_def sha1_nonempty)
  then show ?thesis by (simp add: visible_ends_def accept_key_bytes [OF hd_in_set] accept_key_bytes [OF last_in_set])
qed

lemma accept_key_one_line: "CHR 0x0A \<notin> set (accept_key k)"
  using accept_key_bytes [of "CHR 0x0A" k] by (auto simp: visible_def)

lemma read_line_append: "read_line s = Some (l, r) \<Longrightarrow> s = l @ r"
  by (auto simp: read_line_def split: option.splits)

lemma headers_accepted:
  "read_headers want b s = Some (True, rest) \<Longrightarrow> \<not> b \<Longrightarrow>
     \<exists>line. sublist line s \<and> accept_line want (trim_space line) = Some True"
proof (induction want b s rule: read_headers.induct)
  case (1 want b s)
  note run = 1(3) [unfolded read_headers.simps [of want b s]]
  obtain line r where l: "read_line s = Some (line, r)"
    using run by (auto split: option.splits)
  then have s: "s = line @ r" by (rule read_line_append)
  have widen: "\<exists>l. sublist l s \<and> accept_line want (trim_space l) = Some True"
    if "\<exists>l. sublist l r \<and> accept_line want (trim_space l) = Some True"
    using that unfolding s by (auto simp: sublist_append)
  have ne: "trim_space line \<noteq> []" using run 1(4) l by (auto split: if_splits)
  show ?case
  proof (cases "accept_line want (trim_space line)")
    case None
    then have more: "read_headers want b r = Some (True, rest)" using run l ne by (simp add: Let_def)
    from widen [OF 1(1) [OF l refl refl ne None more 1(4)]] show ?thesis .
  next
    case (Some ok)
    then have more: "read_headers want ok r = Some (True, rest)" using run l ne by (simp add: Let_def)
    show ?thesis
    proof (cases ok)
      case True
      then show ?thesis using Some s by auto
    next
      case False
      from widen [OF 1(2) [OF l refl refl ne Some more False]] show ?thesis .
    qed
  qed
qed

text \<open>
  C3. The outcome of dialling a peer whose answer is a status line, header lines and a blank
  line: the upgrade is refused unless the status has \<open> 101\<close>; otherwise the connection is
  established exactly when the last \<open>Sec-WebSocket-Accept\<close> header carries the digest of the key
  that was sent, and the stream then starts right after the blank line. Every failure after the
  dial closes the socket.
\<close>

theorem handshake_outcome:
  assumes "ws_address parse_url raw = Inr (target, host, path)" and "dial target = Inr peer"
    and "pe_answer peer (upgrade_request (if path = [] then ''/'' else path) host (base64 nonce) hs) =
      Inr (status @ crlf @ header_block ls @ crlf @ rest)"
    and "CHR 0x0A \<notin> set status" and "\<forall>l \<in> set ls. header_line l"
  shows "dial_with_headers parse_url dial nonce raw hs =
    (if \<not> contains (status @ crlf) '' 101'' then Failed (UpgradeRefused (trim_space (status @ crlf))) True
     else if last_verdict (accept_key (base64 nonce)) False ls then Established rest
     else Failed NoProof True)"
  using assms by (simp add: dial_with_headers_def Let_def read_headers_block)

definition good_answer :: "string \<Rightarrow> string" where
  "good_answer proof = ''HTTP/1.1 101 Switching Protocols'' @ crlf
     @ header_block [''Upgrade: websocket'', ''sec-websocket-accept:'' @ proof] @ crlf @ ''F''"

definition honest_peer :: "string \<Rightarrow> ws_peer" where
  "honest_peer nonce = \<lparr>pe_answer = (\<lambda>_. Inr (good_answer (accept_key (base64 nonce)))), pe_end = Eof\<rparr>"

definition no_url :: "string \<Rightarrow> string + parsed_url" where
  "no_url raw = Inl ''unused''"

lemma header_line_visible: "visible_ends l \<Longrightarrow> CHR 0x0A \<notin> set l \<Longrightarrow> header_line l"
  by (simp add: header_line_def crlf_def trim_space_crlf) (simp add: visible_ends_def)

lemma verdict_step:
  "visible_ends l \<Longrightarrow> last_verdict want b (l # ls) =
     last_verdict want (case accept_line want l of Some ok \<Rightarrow> ok | None \<Rightarrow> b) ls"
  by (simp add: crlf_def trim_space_crlf)

lemma honest_lines:
  fixes k :: string
  defines "l \<equiv> ''sec-websocket-accept:'' @ accept_key k"
  shows "\<forall>x \<in> set [''Upgrade: websocket'', l]. header_line x"
    and "last_verdict (accept_key k) False [''Upgrade: websocket'', l]"
proof -
  have up: "visible_ends ''Upgrade: websocket''" by code_simp
  have l: "visible_ends l"
    using accept_key_visible [of k] by (simp add: l_def visible_ends_def visible_def byte_val_def)
  have "CHR 0x0A \<notin> set l" using accept_key_one_line [of k] by (simp add: l_def)
  with up l show "\<forall>x \<in> set [''Upgrade: websocket'', l]. header_line x"
    by (simp add: header_line_visible)
  have "str_index l '':'' = Some 20"
    unfolding l_def using str_index_byte_append [of "CHR '':''" "''sec-websocket-accept''" "accept_key k"] by simp
  moreover have "fold_name (trim_space ''sec-websocket-accept'') = fold_name ''Sec-WebSocket-Accept''"
    by code_simp
  ultimately have "accept_line (accept_key k) l = Some True"
    by (simp add: accept_line_def trim_space_visible accept_key_visible l_def)
  then show "last_verdict (accept_key k) False [''Upgrade: websocket'', l]"
    using up l by (simp only: verdict_step) simp
qed

lemma honest_address:
  "ws_address no_url ''ws+unix:///s.sock'' = Inr (UnixSocket ''/s.sock'', ''unix'', ''/'')"
  by code_simp

lemma honest_status:
  "CHR 0x0A \<notin> set ''HTTP/1.1 101 Switching Protocols''"
  "contains (''HTTP/1.1 101 Switching Protocols'' @ crlf) '' 101''"
  by code_simp+

lemma dial_honest:
  "dial_with_headers no_url (\<lambda>_. Inr (honest_peer nonce)) nonce ''ws+unix:///s.sock'' [] = Established ''F''"
  unfolding dial_with_headers_def honest_address honest_peer_def good_answer_def
  using honest_lines [of "base64 nonce"] honest_status
  by (simp only: sum.case prod.case Let_def ws_peer.simps read_line_crlf [OF honest_status(1)] option.case
      read_headers_block if_False not_True_eq_False if_True)

lemma handshake_outcome_witness:
  "dial_with_headers no_url (\<lambda>_. Inr (honest_peer ''nonce'')) ''nonce'' ''ws+unix:///s.sock'' [] = Established ''F''"
proof -
  let ?peer = "honest_peer ''nonce''" and ?key = "base64 ''nonce''"
  have "pe_answer ?peer (upgrade_request (if ''/'' = [] then ''/'' else ''/'') ''unix'' ?key []) =
      Inr (''HTTP/1.1 101 Switching Protocols'' @ crlf
        @ header_block [''Upgrade: websocket'', ''sec-websocket-accept:'' @ accept_key ?key] @ crlf @ ''F'')"
    by (simp only: honest_peer_def good_answer_def ws_peer.simps)
  from handshake_outcome [OF honest_address refl this honest_status(1) honest_lines(1)]
  show ?thesis by (simp only: honest_status honest_lines(2) not_True_eq_False if_False if_True)
qed

text \<open>
  C4. No connection without the proof: whatever bytes the peer answers, \<open>Established\<close> means that
  its first line has \<open> 101\<close> and that some later line is a \<open>Sec-WebSocket-Accept\<close> header whose value
  is the digest of the very key this dial sent.
\<close>

theorem established_proved:
  assumes "dial_with_headers parse_url dial nonce raw hs = Established rest"
  shows "\<exists>target host path peer s status r line.
    ws_address parse_url raw = Inr (target, host, path) \<and> dial target = Inr peer
    \<and> pe_answer peer (upgrade_request (if path = [] then ''/'' else path) host (base64 nonce) hs) = Inr s
    \<and> read_line s = Some (status, r) \<and> contains status '' 101''
    \<and> sublist line r \<and> accept_line (accept_key (base64 nonce)) (trim_space line) = Some True"
proof -
  from assms obtain target host path peer s status r where
    dial: "ws_address parse_url raw = Inr (target, host, path)" "dial target = Inr peer"
      "pe_answer peer (upgrade_request (if path = [] then ''/'' else path) host (base64 nonce) hs) = Inr s"
      "read_line s = Some (status, r)" "contains status '' 101''"
    and headers: "read_headers (accept_key (base64 nonce)) False r = Some (True, rest)"
    by (auto simp: dial_with_headers_def Let_def split: sum.splits option.splits if_splits)
  from headers_accepted [OF headers] dial show ?thesis by blast
qed

lemma established_proved_witness:
  "\<exists>status r line.
    read_line (good_answer (accept_key (base64 ''nonce''))) = Some (status, r) \<and> contains status '' 101''
    \<and> sublist line r \<and> accept_line (accept_key (base64 ''nonce'')) (trim_space line) = Some True"
  using established_proved [OF dial_honest [of "''nonce''"]]
  unfolding honest_address honest_peer_def sum.inject prod.inject
  by (metis (no_types) ws_peer.select_convs(1) sum.inject(2))

section \<open>What the request says\<close>

definition request_lines :: "string \<Rightarrow> string \<Rightarrow> string \<Rightarrow> smap \<Rightarrow> string list" where
  "request_lines path host key hs =
     [''GET '' @ path @ '' HTTP/1.1'', ''Host: '' @ host, ''Upgrade: websocket'', ''Connection: Upgrade'',
      ''Sec-WebSocket-Key: '' @ key, ''Sec-WebSocket-Version: 13'']
     @ map (\<lambda>(k, v). k @ '': '' @ v)
         (filter (\<lambda>(k, v). to_lower (trim_space k) \<notin> set owned_headers) hs)"

lemma extra_headers_block:
  "extra_headers hs = header_block (map (\<lambda>(k, v). k @ '': '' @ v)
     (filter (\<lambda>(k, v). to_lower (trim_space k) \<notin> set owned_headers) hs))"
  by (induction hs) (auto simp: extra_headers_def header_block_def)

lemma upgrade_request_block: "upgrade_request path host key hs = header_block (request_lines path host key hs) @ crlf"
  by (simp add: upgrade_request_def request_lines_def extra_headers_block header_block_def)

lemma split_header_block:
  "\<forall>l \<in> set ls. CHR 0x0A \<notin> set l \<Longrightarrow>
     split_byte (header_block ls @ crlf) (CHR 0x0A) = map (\<lambda>l. l @ [CHR 0x0D]) ls @ [[CHR 0x0D], []]"
proof (induction ls)
  case (Cons l ls)
  then have "split_byte ((l @ [CHR 0x0D]) @ CHR 0x0A # header_block ls @ crlf) (CHR 0x0A) =
      (l @ [CHR 0x0D]) # split_byte (header_block ls @ crlf) (CHR 0x0A)"
    by (intro split_byte_append) simp
  with Cons show ?case by (simp add: header_block_def crlf_def)
qed (simp add: header_block_def crlf_def)



text \<open>
  A header value with a line break in it does override them: the request then has a second
  \<open>Host\<close> line of the caller's choice, for every path, host and key.
\<close>

theorem header_value_injects_line:
  "\<exists>before after. upgrade_request path host key [(''X-A'', ''1'' @ crlf @ ''Host: evil'')] =
     before @ ''Host: '' @ host @ crlf @ after
   \<and> sublist (crlf @ ''Host: evil'' @ crlf) after"
proof -
  have "upgrade_request path host key [(''X-A'', ''1'' @ crlf @ ''Host: evil'')] =
      (''GET '' @ path @ '' HTTP/1.1'' @ crlf) @ ''Host: '' @ host @ crlf @
      (''Upgrade: websocket'' @ crlf @ ''Connection: Upgrade'' @ crlf @ ''Sec-WebSocket-Key: '' @ key @ crlf
       @ ''Sec-WebSocket-Version: 13'' @ crlf @ ''X-A: 1'') @ (crlf @ ''Host: evil'' @ crlf) @ crlf"
  proof -
    have "to_lower (trim_space ''X-A'') \<notin> set owned_headers" by code_simp
    then show ?thesis by (simp add: upgrade_request_def extra_headers_def)
  qed
  then show ?thesis by (metis sublist_appendI)
qed

text \<open>
  On a unix address the three schemes are interchangeable, so \<open>wss+unix\<close> dials the same bare
  socket as \<open>ws+unix\<close>: no TLS is spoken. The request path always starts with a slash and the \<open>Host\<close>
  header is \<open>unix\<close>.
\<close>

theorem ws_unix_never_tls:
  assumes "p \<in> set ws_unix_prefixes" and "q \<in> set ws_unix_prefixes"
  shows "ws_address parse_url (p @ rest) = ws_address parse_url (q @ rest)
    \<and> (\<exists>sock path. ws_address parse_url (p @ rest) = Inr (UnixSocket sock, ''unix'', CHR ''/'' # path))"
proof -
  obtain sock req where "unix_form_split (p @ rest) = Some (sock, [] @ CHR ''/'' # req)"
    by (rule ws_unix.split_total [OF assms(1)])
  then show ?thesis
    using ws_unix.scheme_irrelevant [OF assms, of rest] by (auto simp: ws_address_def)
qed

lemma ws_unix_never_tls_witness:
  "ws_address no_url (''wss+unix://'' @ ''/s:x'') = ws_address no_url (''ws+unix://'' @ ''/s:x'')
   \<and> ws_address no_url (''wss+unix://'' @ ''/s:x'') = Inr (UnixSocket ''/s'', ''unix'', ''/x'')"
proof -
  have "ws_address no_url (''wss+unix://'' @ ''/s:x'') = ws_address no_url (''ws+unix://'' @ ''/s:x'')"
    using ws_unix_never_tls [of "''wss+unix://''" "''ws+unix://''" no_url "''/s:x''"]
    by (simp add: ws_unix_prefixes_def)
  moreover have "ws_address no_url (''wss+unix://'' @ ''/s:x'') = Inr (UnixSocket ''/s'', ''unix'', ''/x'')"
    by code_simp
  ultimately show ?thesis by blast
qed

end
