(* ===== verification/Session.thy ===== *)
theory Session
  imports Httpx "HOL-Library.AList"
begin

text \<open>
  \<open>internal/session/store.go\<close>: the store of live sessions and their supervisors. Sessions are
  objects that the store, the supervisors and the callers share, so they live in \<open>st_objs\<close> and
  the store's map holds their indices; \<open>st_sups\<close> are the supervisor goroutines, one per \<open>Add\<close>,
  each with the context that \<open>cancel\<close> cancels. Every critical section of the store is one
  function here, \<open>store_step\<close> interleaves them with the steps of the supervisors, whose probe
  takes time: a supervisor that has ticked is \<open>Probing\<close> until its outcome is stored. Time is a
  number (\<open>0\<close> is Go's zero time).
\<close>

section \<open>Sessions and the store\<close>

record session =
  ss_id :: string
  ss_hub_url :: string
  ss_kind :: string
  ss_caps :: "(string \<times> json) list"
  ss_created :: int
  ss_seen :: int
  ss_alive :: bool
  ss_cancel :: "nat option"

definition kind_local :: string where "kind_local = ''local''"

definition kind_cloud :: string where "kind_cloud = ''cloud''"

datatype sup_phase = Parked | Probing | Ended

record supervisor =
  su_obj :: nat
  su_interval_s :: int
  su_cancelled :: bool
  su_phase :: sup_phase

record store =
  st_objs :: "session list"
  st_map :: "(string \<times> nat) list"
  st_sups :: "supervisor list"
  st_deaths :: "(string \<times> string) list"

definition new_store :: store where
  "new_store = \<lparr>st_objs = [], st_map = [], st_sups = [], st_deaths = []\<rparr>"

definition cloud_heartbeat_s :: int where "cloud_heartbeat_s = 60"

definition local_watch_s :: int where "local_watch_s = 15"

definition interval_of :: "string \<Rightarrow> int" where
  "interval_of kind = (if kind = kind_cloud then cloud_heartbeat_s else local_watch_s)"

text \<open>\<open>Add\<close> of the object \<open>p\<close>: its bookkeeping, the map, and a new supervisor.\<close>

definition store_add :: "nat \<Rightarrow> int \<Rightarrow> store \<Rightarrow> store" where
  "store_add p now s =
     (let o0 = st_objs s ! p;
          o1 = o0\<lparr>ss_created := (if ss_created o0 = 0 then now else ss_created o0),
                  ss_seen := now, ss_alive := True, ss_cancel := Some (length (st_sups s))\<rparr>
      in s\<lparr>st_objs := (st_objs s)[p := o1], st_map := AList.update (ss_id o1) p (st_map s),
           st_sups := st_sups s @ [\<lparr>su_obj = p, su_interval_s = interval_of (ss_kind o1),
             su_cancelled = False, su_phase = Parked\<rparr>]\<rparr>)"

definition store_get :: "string \<Rightarrow> store \<Rightarrow> session option" where
  "store_get i s = map_option (\<lambda>p. st_objs s ! p) (map_of (st_map s) i)"

definition store_list :: "store \<Rightarrow> session list" where
  "store_list s = map (\<lambda>(i, p). st_objs s ! p) (st_map s)"

definition cancel_sup :: "nat \<Rightarrow> store \<Rightarrow> store" where
  "cancel_sup k s = s\<lparr>st_sups := (st_sups s)[k := (st_sups s ! k)\<lparr>su_cancelled := True\<rparr>]\<rparr>"

text \<open>\<open>Delete\<close>: drops the entry, then cancels its supervisor.\<close>

definition store_delete :: "string \<Rightarrow> store \<Rightarrow> store \<times> bool" where
  "store_delete i s =
     (case map_of (st_map s) i of
        None \<Rightarrow> (s, False)
      | Some p \<Rightarrow>
          (let s1 = s\<lparr>st_map := AList.delete i (st_map s)\<rparr>
           in case ss_cancel (st_objs s ! p) of
                None \<Rightarrow> (s1, True)
              | Some k \<Rightarrow> (cancel_sup k s1, True)))"

definition store_mark :: "string \<Rightarrow> bool \<Rightarrow> int \<Rightarrow> store \<Rightarrow> store" where
  "store_mark i alive now s =
     (case map_of (st_map s) i of
        None \<Rightarrow> s
      | Some p \<Rightarrow> s\<lparr>st_objs := (st_objs s)[p := (st_objs s ! p)\<lparr>ss_alive := alive, ss_seen := now\<rparr>]\<rparr>)"

definition store_reap :: "string \<Rightarrow> string \<Rightarrow> store \<Rightarrow> store" where
  "store_reap i reason s =
     (let s1 = s\<lparr>st_map := AList.delete i (st_map s)\<rparr>
      in if map_of (st_map s) i \<noteq> None then s1\<lparr>st_deaths := st_deaths s @ [(i, reason)]\<rparr> else s1)"

section \<open>The supervisor\<close>

definition store_client :: http_client where
  "store_client = \<lparr>cl_timeout_ms = 20 * 1000, cl_dialer = DialTcp\<rparr>"

definition probe_request :: "session \<Rightarrow> httpx_request" where
  "probe_request o1 = \<lparr>hq_method = ''GET'',
     hq_url = ss_hub_url o1 @ ''/session/'' @ ss_id o1 @ ''/url'', hq_headers = [], hq_body = []\<rparr>"

definition probe_session ::
  "(string \<Rightarrow> string option) \<Rightarrow> (http_client \<Rightarrow> wire_request \<Rightarrow> string + wire_response) \<Rightarrow> session \<Rightarrow> bool"
where
  "probe_session url_err exchange o1 =
     (case http_do url_err exchange (Some store_client) (probe_request o1) of
        Inl e \<Rightarrow> False
      | Inr resp \<Rightarrow> hp_status resp = 200)"

definition set_phase :: "nat \<Rightarrow> sup_phase \<Rightarrow> store \<Rightarrow> store" where
  "set_phase k ph s = s\<lparr>st_sups := (st_sups s)[k := (st_sups s ! k)\<lparr>su_phase := ph\<rparr>]\<rparr>"

text \<open>What a supervisor does with the outcome of its probe.\<close>

definition probe_done :: "nat \<Rightarrow> bool \<Rightarrow> int \<Rightarrow> store \<Rightarrow> store" where
  "probe_done k ok now s =
     (let i = ss_id (st_objs s ! su_obj (st_sups s ! k))
      in if ok then set_phase k Parked (store_mark i True now s)
         else set_phase k Ended (store_reap i ''session_unreachable'' s))"

definition sup_at :: "store \<Rightarrow> nat \<Rightarrow> sup_phase \<Rightarrow> bool" where
  "sup_at s k ph \<longleftrightarrow> k < length (st_sups s) \<and> su_phase (st_sups s ! k) = ph"

text \<open>
  The interleavings: a caller makes a session object, adds or deletes; a parked supervisor ends
  when its context is cancelled, or ticks (also then: \<open>select\<close> takes any ready case); a probe
  ends with what the network answered.
\<close>

inductive store_step :: "(string \<Rightarrow> string option) \<Rightarrow> store \<Rightarrow> store \<Rightarrow> bool" for url_err where
  step_make: "ss_cancel o1 = None \<Longrightarrow> store_step url_err s (s\<lparr>st_objs := st_objs s @ [o1]\<rparr>)"
| step_add: "p < length (st_objs s) \<Longrightarrow> store_step url_err s (store_add p now s)"
| step_delete: "store_step url_err s (fst (store_delete i s))"
| step_tick: "sup_at s k Parked \<Longrightarrow> store_step url_err s (set_phase k Probing s)"
| step_stop: "sup_at s k Parked \<Longrightarrow> su_cancelled (st_sups s ! k) \<Longrightarrow> store_step url_err s (set_phase k Ended s)"
| step_probed: "sup_at s k Probing
    \<Longrightarrow> ok = probe_session url_err exchange (st_objs s ! su_obj (st_sups s ! k))
    \<Longrightarrow> store_step url_err s (probe_done k ok now s)"

inductive_cases store_stepE: "store_step url_err s t"

section \<open>The invariant\<close>

text \<open>
  Every tracked id points at a live object of that id whose supervisor runs and is not
  cancelled; every supervisor works on an object.
\<close>

definition supervised :: "store \<Rightarrow> nat \<Rightarrow> nat \<Rightarrow> bool" where
  "supervised s p k \<longleftrightarrow>
     ss_cancel (st_objs s ! p) = Some k \<and> k < length (st_sups s) \<and> su_obj (st_sups s ! k) = p
     \<and> \<not> su_cancelled (st_sups s ! k) \<and> su_phase (st_sups s ! k) \<noteq> Ended"

definition tracked_ok :: "store \<Rightarrow> string \<times> nat \<Rightarrow> bool" where
  "tracked_ok s e \<longleftrightarrow>
     snd e < length (st_objs s) \<and> ss_id (st_objs s ! snd e) = fst e \<and> ss_alive (st_objs s ! snd e)
     \<and> (\<exists>k. supervised s (snd e) k)"

definition store_inv :: "store \<Rightarrow> bool" where
  "store_inv s \<longleftrightarrow>
     distinct (map fst (st_map s)) \<and> (\<forall>e \<in> set (st_map s). tracked_ok s e)
     \<and> (\<forall>u \<in> set (st_sups s). su_obj u < length (st_objs s))"


lemma in_update:
  "distinct (map fst m) \<Longrightarrow> e \<in> set (AList.update k v m) \<longleftrightarrow> e = (k, v) \<or> (e \<in> set m \<and> fst e \<noteq> k)"
proof -
  assume d: "distinct (map fst m)"
  then have d': "distinct (map fst (AList.update k v m))" by (rule AList.distinct_update)
  obtain i p where e: "e = (i, p)" by fastforce
  have "e \<in> set (AList.update k v m) \<longleftrightarrow> map_of (AList.update k v m) i = Some p"
    using d' e by simp
  also have "\<dots> \<longleftrightarrow> (if i = k then p = v else map_of m i = Some p)"
    by (auto simp: update_conv')
  finally show ?thesis using d e by auto
qed

lemma in_delete [simp]: "e \<in> set (AList.delete k m) \<longleftrightarrow> e \<in> set m \<and> fst e \<noteq> k"
  by (auto simp: AList.delete_eq)

lemma distinct_delete': "distinct (map fst m) \<Longrightarrow> distinct (map fst (AList.delete k m))"
  by (simp add: AList.distinct_delete)

lemma supervised_frame [simp]:
  "supervised (s\<lparr>st_map := m\<rparr>) p k = supervised s p k"
  "supervised (s\<lparr>st_deaths := d\<rparr>) p k = supervised s p k"
  by (simp_all add: supervised_def)

lemma tracked_frame [simp]:
  "tracked_ok (s\<lparr>st_map := m\<rparr>) e = tracked_ok s e" "tracked_ok (s\<lparr>st_deaths := d\<rparr>) e = tracked_ok s e"
  by (simp_all add: tracked_ok_def)

lemma map_of_tracked:
  "store_inv s \<Longrightarrow> map_of (st_map s) i = Some p \<Longrightarrow> tracked_ok s (i, p)"
  by (auto simp: store_inv_def dest: map_of_SomeD)

lemma tracked_obj: "tracked_ok s (i, p) \<Longrightarrow> p < length (st_objs s) \<and> ss_id (st_objs s ! p) = i"
  by (simp add: tracked_ok_def)

lemma tracked_sup:
  "store_inv s \<Longrightarrow> (i, p) \<in> set (st_map s) \<Longrightarrow> ss_cancel (st_objs s ! p) = Some k \<Longrightarrow> supervised s p k"
  by (auto simp: store_inv_def tracked_ok_def supervised_def)

lemma inv_new: "store_inv new_store"
  by (simp add: store_inv_def new_store_def)

lemma inv_make: "store_inv s \<Longrightarrow> store_inv (s\<lparr>st_objs := st_objs s @ [o1]\<rparr>)"
  by (auto simp: store_inv_def tracked_ok_def supervised_def nth_append less_Suc_eq)

lemma inv_add:
  assumes "store_inv s" and "p < length (st_objs s)"
  shows "store_inv (store_add p now s)"
proof -
  let ?i = "ss_id (st_objs s ! p)" and ?t = "store_add p now s"
  have map: "st_map ?t = AList.update ?i p (st_map s)" by (simp add: store_add_def Let_def)
  have "tracked_ok ?t e" if "e \<in> set (st_map ?t)" for e
  proof -
    obtain i q where e: "e = (i, q)" by fastforce
    show ?thesis
    proof (cases "i = ?i")
      case True
      then have "q = p" using that assms(1) e by (auto simp: map in_update store_inv_def)
      then show ?thesis using True e assms(2) by (auto simp: tracked_ok_def supervised_def store_add_def Let_def)
    next
      case False
      then have ok: "tracked_ok s (i, q)" using that assms(1) e by (auto simp: map in_update store_inv_def)
      then have "q \<noteq> p" using False tracked_obj by metis
      then show ?thesis using ok e
        by (auto simp: tracked_ok_def supervised_def store_add_def Let_def nth_append)
    qed
  qed
  then show ?thesis using assms
    by (auto simp: store_inv_def store_add_def Let_def AList.distinct_update)
qed

lemma inv_drop: "store_inv s \<Longrightarrow> store_inv (s\<lparr>st_map := AList.delete i (st_map s)\<rparr>)"
  by (auto simp: store_inv_def distinct_delete')

lemma inv_deaths: "store_inv s \<Longrightarrow> store_inv (s\<lparr>st_deaths := d\<rparr>)"
  by (simp add: store_inv_def)

lemma inv_reap: "store_inv s \<Longrightarrow> store_inv (store_reap i reason s)"
  by (simp add: store_reap_def Let_def inv_drop inv_deaths)

text \<open>A supervisor may change at will once no tracked object is in its care.\<close>

lemma inv_sup:
  assumes "store_inv s" and "\<forall>(i, p) \<in> set (st_map s). ss_cancel (st_objs s ! p) \<noteq> Some k"
    and "su_obj u = su_obj (st_sups s ! k)"
  shows "store_inv (s\<lparr>st_sups := (st_sups s)[k := u]\<rparr>)"
proof (cases "k < length (st_sups s)")
  case True
  then have "su_obj u < length (st_objs s)" using assms(1,3) by (simp add: store_inv_def)
  then show ?thesis using assms(1,2) True
    by (fastforce simp: store_inv_def tracked_ok_def supervised_def nth_list_update dest!: set_update_subset_insert [THEN subsetD])
next
  case False
  then show ?thesis using assms(1) by (cases s) (simp add: list_update_beyond)
qed

lemma inv_phase:
  assumes "store_inv s" and "ph \<noteq> Ended"
  shows "store_inv (set_phase k ph s)"
proof (cases "k < length (st_sups s)")
  case True
  then have "su_obj (st_sups s ! k) < length (st_objs s)" using assms(1) by (simp add: store_inv_def)
  then show ?thesis using assms True
    by (fastforce simp: set_phase_def store_inv_def tracked_ok_def supervised_def nth_list_update
        dest!: set_update_subset_insert [THEN subsetD])
next
  case False
  then show ?thesis using assms(1) by (cases s) (simp add: set_phase_def list_update_beyond)
qed

lemma inv_mark:
  assumes "store_inv s"
  shows "store_inv (store_mark i True now s)"
proof (cases "map_of (st_map s) i")
  case None
  then show ?thesis using assms by (simp add: store_mark_def)
next
  case (Some p)
  let ?t = "store_mark i True now s"
  have "p < length (st_objs s)" using map_of_tracked [OF assms Some] tracked_obj by blast
  then have nth: "st_objs ?t ! q =
      (if q = p then (st_objs s ! p)\<lparr>ss_alive := True, ss_seen := now\<rparr> else st_objs s ! q)" for q
    using Some by (auto simp: store_mark_def)
  have same: "st_map ?t = st_map s" "st_sups ?t = st_sups s" "length (st_objs ?t) = length (st_objs s)"
    using Some by (simp_all add: store_mark_def)
  have "supervised ?t q k = supervised s q k" for q k
    by (simp add: supervised_def nth same)
  then have "tracked_ok s e \<Longrightarrow> tracked_ok ?t e" for e
    by (auto simp: tracked_ok_def nth same)
  then show ?thesis using assms by (auto simp: store_inv_def same)
qed

lemma inv_delete: 
  assumes "store_inv s"
  shows "store_inv (fst (store_delete i s))"
proof (cases "map_of (st_map s) i")
  case None
  then show ?thesis using assms by (simp add: store_delete_def)
next
  case (Some p)
  let ?s = "s\<lparr>st_map := AList.delete i (st_map s)\<rparr>"
  obtain k where k: "ss_cancel (st_objs s ! p) = Some k" "su_obj (st_sups s ! k) = p"
    using map_of_tracked [OF assms Some] by (auto simp: tracked_ok_def supervised_def)
  have "ss_cancel (st_objs ?s ! q) \<noteq> Some k" if "(j, q) \<in> set (st_map ?s)" for j q
  proof
    assume c: "ss_cancel (st_objs ?s ! q) = Some k"
    from that have jq: "(j, q) \<in> set (st_map s)" and "j \<noteq> i" by auto
    with c tracked_sup [OF assms jq, of k] k(2) have "q = p" by (simp add: supervised_def)
    moreover have "ss_id (st_objs s ! q) = j" using jq assms by (auto simp: store_inv_def tracked_ok_def)
    moreover have "ss_id (st_objs s ! p) = i" using map_of_tracked [OF assms Some] by (simp add: tracked_ok_def)
    ultimately show False using \<open>j \<noteq> i\<close> by simp
  qed
  then have "store_inv (?s\<lparr>st_sups := (st_sups ?s)[k := (st_sups ?s ! k)\<lparr>su_cancelled := True\<rparr>]\<rparr>)"
    by (intro inv_sup inv_drop assms) auto
  then show ?thesis using Some k by (simp add: store_delete_def cancel_sup_def)
qed

lemma inv_stop:
  assumes "store_inv s" and "su_cancelled (st_sups s ! k)"
  shows "store_inv (set_phase k Ended s)"
  unfolding set_phase_def
  using assms by (intro inv_sup) (auto dest!: tracked_sup simp: supervised_def)

lemma inv_probed:
  assumes "store_inv s" and "sup_at s k Probing"
  shows "store_inv (probe_done k ok now s)"
proof (cases ok)
  case True
  then show ?thesis using assms by (simp add: probe_done_def inv_phase inv_mark)
next
  case False
  let ?i = "ss_id (st_objs s ! su_obj (st_sups s ! k))"
  let ?s = "store_reap ?i ''session_unreachable'' s"
  have same: "st_sups ?s = st_sups s" "st_objs ?s = st_objs s" "st_map ?s = AList.delete ?i (st_map s)"
    by (simp_all add: store_reap_def Let_def)
  have "ss_cancel (st_objs ?s ! q) \<noteq> Some k" if "(j, q) \<in> set (st_map ?s)" for j q
  proof
    assume c: "ss_cancel (st_objs ?s ! q) = Some k"
    from that have jq: "(j, q) \<in> set (st_map s)" and "j \<noteq> ?i" by (auto simp: same)
    with c tracked_sup [OF assms(1) jq, of k] have "q = su_obj (st_sups s ! k)" by (simp add: same supervised_def)
    moreover have "ss_id (st_objs s ! q) = j" using jq assms by (auto simp: store_inv_def tracked_ok_def)
    ultimately show False using \<open>j \<noteq> ?i\<close> by simp
  qed
  then have "store_inv (set_phase k Ended ?s)"
    unfolding set_phase_def using assms by (intro inv_sup inv_reap) (auto simp: same)
  with False show ?thesis by (simp add: probe_done_def Let_def)
qed

lemma store_step_inv: "store_step url_err s t \<Longrightarrow> store_inv s \<Longrightarrow> store_inv t"
  by (induction rule: store_step.induct)
    (simp_all add: inv_make inv_add inv_delete inv_phase inv_stop inv_probed)

interpretation store_machine: machine "\<lambda>s. s = new_store" "store_step url_err" store_inv for url_err
  by unfold_locales (auto simp: inv_new intro: store_step_inv)


section \<open>Properties\<close>

definition store_reachable :: "(string \<Rightarrow> string option) \<Rightarrow> store \<Rightarrow> bool" where
  "store_reachable url_err s \<longleftrightarrow> (store_step url_err)\<^sup>*\<^sup>* new_store s"

lemma reachable_start: "store_reachable url_err new_store"
  by (simp add: store_reachable_def)

lemma reachable_step: "store_reachable url_err s \<Longrightarrow> store_step url_err s t \<Longrightarrow> store_reachable url_err t"
  by (simp add: store_reachable_def)

lemma reachable_store_inv: "store_reachable url_err s \<Longrightarrow> store_inv s"
  unfolding store_reachable_def by (rule store_machine.reachable_inv [OF refl])

text \<open>A run of the store: two sessions of the same id, of which the first is added.\<close>

definition first_session :: session where
  "first_session = \<lparr>ss_id = ''x'', ss_hub_url = ''http://a'', ss_kind = kind_cloud, ss_caps = [],
     ss_created = 0, ss_seen = 0, ss_alive = False, ss_cancel = None\<rparr>"

definition second_session :: session where
  "second_session = first_session\<lparr>ss_hub_url := ''http://b''\<rparr>"

definition store_made :: store where
  "store_made = new_store\<lparr>st_objs := [first_session, second_session]\<rparr>"

definition store_one :: store where
  "store_one = store_add 0 100 store_made"

lemma reachable_one: "store_reachable url_err store_one"
proof -
  have "store_step url_err new_store (new_store\<lparr>st_objs := st_objs new_store @ [first_session]\<rparr>)"
    by (rule step_make) (simp add: first_session_def)
  from reachable_step [OF reachable_start this]
  have "store_reachable url_err (new_store\<lparr>st_objs := [first_session]\<rparr>)" by (simp add: new_store_def)
  moreover have "store_step url_err (new_store\<lparr>st_objs := [first_session]\<rparr>)
      ((new_store\<lparr>st_objs := [first_session]\<rparr>)\<lparr>st_objs := st_objs (new_store\<lparr>st_objs := [first_session]\<rparr>) @ [second_session]\<rparr>)"
    by (rule step_make) (simp add: first_session_def second_session_def)
  ultimately have "store_reachable url_err store_made"
    by (auto dest: reachable_step simp: store_made_def)
  moreover have "store_step url_err store_made (store_add 0 100 store_made)"
    by (rule step_add) (simp add: store_made_def)
  ultimately show ?thesis by (auto intro: reachable_step simp: store_one_def)
qed



text \<open>
  \<open>Delete\<close> in a reachable state: it answers whether the id was tracked, afterwards the id is
  unknown and every other id is as before, and the supervisor of the deleted session is
  cancelled.
\<close>

theorem store_delete_spec:
  assumes "store_reachable url_err s"
  shows "snd (store_delete i s) = (store_get i s \<noteq> None)
    \<and> store_get i (fst (store_delete i s)) = None
    \<and> (\<forall>j. j = i \<or> store_get j (fst (store_delete i s)) = store_get j s)
    \<and> (case store_get i s of None \<Rightarrow> fst (store_delete i s) = s
       | Some o1 \<Rightarrow> (\<exists>k. ss_cancel o1 = Some k \<and> su_cancelled (st_sups (fst (store_delete i s)) ! k)))"
proof (cases "map_of (st_map s) i")
  case None
  then show ?thesis by (simp add: store_delete_def store_get_def)
next
  case (Some p)
  obtain k where "supervised s p k"
    using map_of_tracked [OF reachable_store_inv [OF assms] Some] by (auto simp: tracked_ok_def)
  with Some show ?thesis
    by (auto simp: store_delete_def store_get_def cancel_sup_def AList.delete_conv' supervised_def)
qed

lemma store_delete_spec_witness:
  "snd (store_delete ''x'' store_one) \<and> store_get ''x'' (fst (store_delete ''x'' store_one)) = None"
proof -
  have "store_get ''x'' store_one \<noteq> None"
    by (simp add: store_get_def store_one_def store_add_def store_made_def new_store_def Let_def first_session_def)
  with store_delete_spec [OF reachable_one, of "''x''"] show ?thesis by blast
qed

lemma map_of_probed:
  "map_of (st_map (probe_done k ok now s)) =
     (if ok then map_of (st_map s)
      else (map_of (st_map s))(ss_id (st_objs s ! su_obj (st_sups s ! k)) := None))"
  by (auto simp: probe_done_def store_mark_def store_reap_def set_phase_def Let_def AList.delete_conv'
      split: option.splits)

text \<open>
  What a supervisor does when its probe returns, in any state: on success it only refreshes
  the entry that its session's id has now (if there is one) and parks; on failure it removes that
  entry, ends, and reports one death exactly if there was an entry. A probe never brings an id
  back.
\<close>

theorem probe_done_spec:
  "(let i = ss_id (st_objs s ! su_obj (st_sups s ! k)); t = probe_done k ok now s
    in map_of (st_map t) = (if ok then map_of (st_map s) else (map_of (st_map s))(i := None))
     \<and> st_deaths t = st_deaths s @
         (if ok \<or> map_of (st_map s) i = None then [] else [(i, ''session_unreachable'')])
     \<and> (k \<ge> length (st_sups s) \<or> su_phase (st_sups t ! k) = (if ok then Parked else Ended)))"
  by (cases "k < length (st_sups s)")
    (auto simp: probe_done_def store_mark_def store_reap_def set_phase_def Let_def AList.delete_conv'
      split: option.splits)

lemma map_of_deleted:
  "map_of (st_map (fst (store_delete j s))) = (map_of (st_map s))(j := None)"
  by (auto simp: store_delete_def cancel_sup_def AList.delete_conv' Let_def split: option.splits)

lemma probe_steps_map:
  assumes "store_step url_err s t" and "map_of (st_map s) i = Some p" and "map_of (st_map t) i = None"
    and "t \<noteq> fst (store_delete i s)"
  shows "\<exists>k now. sup_at s k Probing \<and> ss_id (st_objs s ! su_obj (st_sups s ! k)) = i \<and> t = probe_done k False now s"
  using assms
proof (cases rule: store_step.cases)
  case (step_probed k ok exchange now)
  then show ?thesis using map_of_probed [of k ok now s] assms(2,3)
    by (cases ok) (auto split: if_splits)
next
  case (step_delete j)
  then show ?thesis using assms(2-)
    by (cases "j = i") (auto simp: map_of_deleted)
qed (use assms(2,3) in \<open>auto simp: store_add_def Let_def set_phase_def update_conv' split: if_splits\<close>)

text \<open>
  Own reaping: in a reachable state in which no other supervisor that still runs works for a
  session of this id, a tracked session disappears only by \<open>Delete\<close> of its id or by a failed
  probe of its own supervisor on this very session.
\<close>

theorem only_own_probe_reaps:
  assumes "store_reachable url_err s" and "store_step url_err s t"
    and "map_of (st_map s) i = Some p" and "map_of (st_map t) i = None" and "t \<noteq> fst (store_delete i s)"
    and "\<forall>k < length (st_sups s). su_phase (st_sups s ! k) \<noteq> Ended
        \<and> ss_id (st_objs s ! su_obj (st_sups s ! k)) = i \<longrightarrow> ss_cancel (st_objs s ! p) = Some k"
  shows "\<exists>k now. supervised s p k \<and> su_phase (st_sups s ! k) = Probing \<and> t = probe_done k False now s"
proof -
  obtain k now where k: "sup_at s k Probing" "ss_id (st_objs s ! su_obj (st_sups s ! k)) = i"
    and t: "t = probe_done k False now s"
    using probe_steps_map [OF assms(2-5)] by blast
  then have "ss_cancel (st_objs s ! p) = Some k" using assms(6) by (auto simp: sup_at_def)
  with tracked_sup [OF reachable_store_inv [OF assms(1)] map_of_SomeD [OF assms(3)]] k t show ?thesis
    by (auto simp: sup_at_def)
qed

definition store_ticked :: store where
  "store_ticked = set_phase 0 Probing store_one"

lemma store_ticked_facts:
  "st_map store_ticked = [(''x'', 0)]"
  "st_objs store_ticked = [first_session\<lparr>ss_created := 100, ss_seen := 100, ss_alive := True, ss_cancel := Some 0\<rparr>, second_session]"
  "st_sups store_ticked = [\<lparr>su_obj = 0, su_interval_s = 60, su_cancelled = False, su_phase = Probing\<rparr>]"
  "st_deaths store_ticked = []"
  by (simp_all add: store_ticked_def store_one_def store_made_def new_store_def store_add_def set_phase_def
      Let_def first_session_def interval_of_def cloud_heartbeat_s_def)

lemma reachable_ticked: "store_reachable url_err store_ticked"
proof -
  have "sup_at store_one 0 Parked"
    by (simp add: sup_at_def store_one_def store_made_def new_store_def store_add_def Let_def)
  then show ?thesis using reachable_one unfolding store_ticked_def
    by (blast intro: reachable_step step_tick)
qed

text \<open>A network on which host \<open>a\<close> is gone and host \<open>b\<close> answers.\<close>

definition half_dead :: "http_client \<Rightarrow> wire_request \<Rightarrow> string + wire_response" where
  "half_dead c w =
     (if has_prefix (wq_url w) ''http://a/'' then Inl ''connection refused''
      else Inr \<lparr>wp_status = 200, wp_headers = [], wp_body = [], wp_body_err = None\<rparr>)"

lemma probe_first: "\<not> probe_session (\<lambda>_. None) half_dead (st_objs store_ticked ! 0)"
  unfolding store_ticked_facts by code_simp

lemma only_own_probe_reaps_witness:
  "\<exists>k now. supervised store_ticked 0 k \<and> probe_done 0 False 200 store_ticked = probe_done k False now store_ticked"
proof -
  let ?t = "probe_done 0 False 200 store_ticked"
  have step: "store_step (\<lambda>_. None) store_ticked ?t"
    by (rule step_probed [where exchange = half_dead]) (use probe_first in \<open>simp_all add: sup_at_def store_ticked_facts\<close>)
  have gone: "map_of (st_map ?t) ''x'' = None"
    by (simp add: map_of_probed store_ticked_facts first_session_def)
  have "st_deaths ?t \<noteq> st_deaths (fst (store_delete ''x'' store_ticked))"
    by (simp add: probe_done_def store_reap_def set_phase_def Let_def store_delete_def cancel_sup_def
        store_ticked_facts first_session_def)
  then have "?t \<noteq> fst (store_delete ''x'' store_ticked)" by metis
  from only_own_probe_reaps [OF reachable_ticked step _ gone this, of 0] show ?thesis
    by (auto simp: store_ticked_facts)
qed

text \<open>
  Without that, a session can die for another one: \<open>Add\<close> a session, let its supervisor tick,
  \<open>Delete\<close> it (which cancels the supervisor) and \<open>Add\<close> a second session of the same id; when the
  first probe then fails, the cancelled supervisor removes the second session, whose own
  supervisor never probed and whose wire answers 200.
\<close>

theorem stale_supervisor_reaps:
  "\<exists>s t o1. store_reachable (\<lambda>_. None) s \<and> store_step (\<lambda>_. None) s t
    \<and> store_get ''x'' s = Some o1 \<and> probe_session (\<lambda>_. None) half_dead o1
    \<and> su_cancelled (st_sups s ! 0) \<and> t = probe_done 0 False 300 s
    \<and> store_get ''x'' t = None \<and> st_deaths t = [(''x'', ''session_unreachable'')]"
proof -
  let ?d = "fst (store_delete ''x'' store_ticked)"
  let ?s = "store_add 1 200 ?d"
  let ?t = "probe_done 0 False 300 ?s"
  have d: "?d = store_ticked\<lparr>st_map := [],
      st_sups := [\<lparr>su_obj = 0, su_interval_s = 60, su_cancelled = True, su_phase = Probing\<rparr>]\<rparr>"
    by (simp add: store_delete_def cancel_sup_def store_ticked_facts)
  have "store_reachable (\<lambda>_. None) ?d" by (rule reachable_step [OF reachable_ticked step_delete])
  moreover have "store_step (\<lambda>_. None) ?d ?s"
    by (rule step_add) (simp add: d store_ticked_facts)
  ultimately have reach: "store_reachable (\<lambda>_. None) ?s" by (rule reachable_step)
  have first: "st_objs ?s ! su_obj (st_sups ?s ! 0) = st_objs store_ticked ! 0"
    by (simp add: d store_add_def Let_def store_ticked_facts)
  have step: "store_step (\<lambda>_. None) ?s ?t"
    by (rule step_probed [where exchange = half_dead])
      (use probe_first first in \<open>simp_all add: sup_at_def d store_add_def Let_def store_ticked_facts\<close>)
  have get: "store_get ''x'' ?s = Some (second_session\<lparr>ss_created := 200, ss_seen := 200, ss_alive := True, ss_cancel := Some 1\<rparr>)"
    by (simp add: d store_add_def Let_def store_get_def store_ticked_facts second_session_def first_session_def)
  have lives: "probe_session (\<lambda>_. None) half_dead
      (second_session\<lparr>ss_created := 200, ss_seen := 200, ss_alive := True, ss_cancel := Some 1\<rparr>)"
    by code_simp
  have "su_cancelled (st_sups ?s ! 0)" by (simp add: d store_add_def Let_def)
  moreover have "store_get ''x'' ?t = None"
    using first by (simp add: store_get_def map_of_probed store_ticked_facts first_session_def)
  moreover have "st_deaths ?t = [(''x'', ''session_unreachable'')]"
    by (simp add: probe_done_def store_reap_def set_phase_def Let_def d store_add_def store_ticked_facts
        first_session_def second_session_def)
  ultimately show ?thesis using reach step get lives by blast
qed

end
