(* ===== verification/Go_Path.thy ===== *)
theory Go_Path
  imports Wire_Prelude
begin

text \<open>
  Go's \<open>path/filepath\<close> on Unix, as far as the programs use it: \<open>Clean\<close>, \<open>Join\<close> and \<open>Dir\<close>.
\<close>

section \<open>Cleaning a path\<close>

text \<open>
  The elements of a clean path: empty ones and \<open>.\<close> are dropped, \<open>..\<close> takes the element before it
  away; at the root it is dropped, and at the start of a relative path it stays. The stack is reversed.
\<close>

fun clean_steps :: "bool \<Rightarrow> string list \<Rightarrow> string list \<Rightarrow> string list" where
  "clean_steps rooted [] stack = rev stack"
| "clean_steps rooted (s # ss) stack =
     (if s = [] \<or> s = ''.'' then clean_steps rooted ss stack
      else if s = ''..'' then
        (case stack of
           [] \<Rightarrow> clean_steps rooted ss (if rooted then [] else [''..''])
         | t # ts \<Rightarrow> clean_steps rooted ss (if t = ''..'' then ''..'' # stack else ts))
      else clean_steps rooted ss (s # stack))"

definition is_rooted :: "string \<Rightarrow> bool" where
  "is_rooted p \<longleftrightarrow> has_prefix p ''/''"

definition clean_path :: "string \<Rightarrow> string" where
  "clean_path p =
     (let body = join_byte (clean_steps (is_rooted p) (split_byte p (CHR ''/'')) []) (CHR ''/'')
      in if is_rooted p then ''/'' @ body else if body = [] then ''.'' else body)"

text \<open>\<open>filepath.Join\<close>: the elements that are not empty, joined and cleaned.\<close>

definition path_join :: "string list \<Rightarrow> string" where
  "path_join es =
     (let fs = filter (\<lambda>e. e \<noteq> []) es in if fs = [] then [] else clean_path (join_byte fs (CHR ''/'')))"

text \<open>\<open>filepath.Dir\<close>: everything up to the last slash, cleaned.\<close>

definition path_dir :: "string \<Rightarrow> string" where
  "path_dir p = clean_path (case last_index_byte p (CHR ''/'') of None \<Rightarrow> [] | Some i \<Rightarrow> take (Suc i) p)"

section \<open>Facts about clean paths\<close>

text \<open>A name of a directory entry: no slash, not empty, neither of the two dots.\<close>

definition entry_name :: "string \<Rightarrow> bool" where
  "entry_name s \<longleftrightarrow> s \<noteq> [] \<and> s \<noteq> ''.'' \<and> s \<noteq> ''..'' \<and> CHR ''/'' \<notin> set s"

definition rooted_path :: "string list \<Rightarrow> string" where
  "rooted_path ss = ''/'' @ join_byte ss (CHR ''/'')"

lemma clean_steps_names:
  "list_all entry_name ss \<Longrightarrow> clean_steps rooted (ss @ rest) stack = clean_steps rooted rest (rev ss @ stack)"
  by (induction ss arbitrary: stack) (auto simp: entry_name_def)

lemma clean_rooted:
  assumes "ss \<noteq> []" and "list_all (\<lambda>s. CHR ''/'' \<notin> set s) ss"
  shows "clean_path (rooted_path ss) = rooted_path (clean_steps True ss [])"
proof -
  have "split_byte (join_byte ss (CHR ''/'')) (CHR ''/'') = ss"
    using assms by (intro split_join_byte) (auto simp: list_all_iff)
  then show ?thesis by (simp add: clean_path_def rooted_path_def is_rooted_def has_prefix_def)
qed

lemma clean_rooted_names: "ss \<noteq> [] \<Longrightarrow> list_all entry_name ss \<Longrightarrow> clean_path (rooted_path ss) = rooted_path ss"
  using clean_steps_names [of ss True "[]" "[]"] by (subst clean_rooted) (auto simp: list_all_iff entry_name_def)

lemma join_byte_append:
  "ss \<noteq> [] \<Longrightarrow> ts \<noteq> [] \<Longrightarrow> join_byte (ss @ ts) c = join_byte ss c @ c # join_byte ts c"
  by (induction ss c rule: join_byte.induct) (auto simp: neq_Nil_conv)

lemma rooted_path_append: "ss \<noteq> [] \<Longrightarrow> ts \<noteq> [] \<Longrightarrow> rooted_path (ss @ ts) = rooted_path ss @ CHR ''/'' # join_byte ts (CHR ''/'')"
  by (simp add: rooted_path_def join_byte_append)

lemma path_dir_rooted:
  assumes "ss \<noteq> []" and "list_all entry_name (ss @ [n])"
  shows "path_dir (rooted_path (ss @ [n])) = rooted_path ss"
proof -
  have n: "CHR ''/'' \<notin> set n" using assms by (simp add: entry_name_def)
  have "path_dir (rooted_path (ss @ [n])) = clean_path (rooted_path (ss @ [[]]))"
    using assms(1) n by (simp add: path_dir_def rooted_path_append)
  also have "\<dots> = rooted_path ss"
    using assms clean_steps_names [of ss True "[[]]" "[]"]
    by (subst clean_rooted) (auto simp: list_all_iff entry_name_def)
  finally show ?thesis .
qed

lemma path_join_up:
  assumes "ds \<noteq> []" and "rs \<noteq> []" and "list_all entry_name ds" and "list_all (\<lambda>s. CHR ''/'' \<notin> set s) rs"
    and "join_byte rs (CHR ''/'') \<noteq> []"
  shows "path_join [rooted_path ds, ''..'', join_byte rs (CHR ''/'')] = rooted_path (clean_steps True rs (rev (butlast ds)))"
proof -
  have ne: "rooted_path ds \<noteq> []" by (simp add: rooted_path_def)
  have "path_join [rooted_path ds, ''..'', join_byte rs (CHR ''/'')] = clean_path (rooted_path (ds @ ''..'' # rs))"
    using assms ne rooted_path_append [of ds "''..'' # rs"] by (cases rs) (simp_all add: path_join_def Let_def)
  also have "\<dots> = rooted_path (clean_steps True (ds @ ''..'' # rs) [])"
    using assms by (intro clean_rooted) (auto simp: list_all_iff entry_name_def)
  also have "clean_steps True (ds @ ''..'' # rs) [] = clean_steps True rs (rev (butlast ds))"
  proof (cases ds rule: rev_cases)
    case (snoc es e)
    then have "e \<noteq> []" "e \<noteq> ''.''" "e \<noteq> ''..''" using assms(3) by (simp_all add: entry_name_def)
    with snoc assms(3) show ?thesis by (simp add: clean_steps_names)
  qed (use assms(1) in simp)
  finally show ?thesis .
qed

end
