(* ===== verification/Json_Indent.thy ===== *)
theory Json_Indent
  imports Json_Struct
begin

text \<open>
  \<open>json.MarshalIndent\<close> with an empty prefix and an indent of one blank, as the program calls it:
  \<open>jindent k\<close> prints a value at nesting \<open>k\<close>. Parsing inverts it, as it inverts the compact form.
\<close>

definition line_break :: "nat \<Rightarrow> string" where
  "line_break k = CHR 0x0A # replicate k (CHR 0x20)"

fun jindent :: "nat \<Rightarrow> json \<Rightarrow> string"
and jindent_elems :: "nat \<Rightarrow> json list \<Rightarrow> string"
and jindent_mems :: "nat \<Rightarrow> (string \<times> json) list \<Rightarrow> string"
where
  "jindent k JNull = ''null''"
| "jindent k (JBool b) = (if b then ''true'' else ''false'')"
| "jindent k (JNum l) = l"
| "jindent k (JStr r) = jquote r"
| "jindent k (JArr vs) =
     (if vs = [] then ''[]''
      else ''['' @ line_break (Suc k) @ jindent_elems (Suc k) vs @ line_break k @ '']'')"
| "jindent k (JObj ms) =
     (if ms = [] then ''{}''
      else ''{'' @ line_break (Suc k) @ jindent_mems (Suc k) ms @ line_break k @ ''}'')"
| "jindent_elems k [] = []"
| "jindent_elems k (v # vs) =
     jindent k v @ (if vs = [] then [] else '','' @ line_break k @ jindent_elems k vs)"
| "jindent_mems k [] = []"
| "jindent_mems k (m # ms) =
     jquote (fst m) @ '': '' @ jindent k (snd m) @ (if ms = [] then [] else '','' @ line_break k @ jindent_mems k ms)"

section \<open>White space before a token\<close>

lemma skip_ws_append: "list_all is_ws w \<Longrightarrow> skip_ws (w @ s) = skip_ws s"
  by (induction w) (auto simp: skip_ws_def)

lemma line_break_ws [simp]: "list_all is_ws (line_break k)"
  by (simp add: line_break_def list_all_iff is_ws_def)

lemma skip_line_break [simp]: "skip_ws (line_break k @ s) = skip_ws s"
  by (rule skip_ws_append) simp

lemma pval_ws: "list_all is_ws w \<Longrightarrow> pval n d (w @ s) = pval n d s"
  by (cases n) (simp_all add: skip_ws_append)

lemma pelems_ws: "list_all is_ws w \<Longrightarrow> pelems n d (w @ s) = pelems n d s"
  by (cases n) (simp_all add: pval_ws)

lemma pmems_ws: "list_all is_ws w \<Longrightarrow> pmems n d (w @ s) = pmems n d s"
  by (cases n) (simp_all add: skip_ws_append)

lemmas skip_tokens = pval_ws pelems_ws pmems_ws skip_ws_append

lemma num_stop_line_break [simp]: "num_stop (line_break k @ s)"
  by (simp add: line_break_def num_stop_simps is_digit_def)

section \<open>Parsing inverts the indented form\<close>

lemma jindent_head:
  assumes "jwf j"
  obtains c u where "jindent k j = c # u" and "\<not> is_ws c" and "c \<noteq> CHR '']''" and "c \<noteq> CHR ''}''"
proof (cases j)
  case (JNum l)
  with assms obtain c u where "l = c # u" "c = CHR ''-'' \<or> is_digit c" by (auto elim: num_ok_head)
  moreover from this have "\<not> is_ws c \<and> c \<noteq> CHR '']'' \<and> c \<noteq> CHR ''}''"
    using not_ws_digit [of c] by (auto simp: is_digit_def)
  ultimately show thesis using JNum that by simp
next
  case (JBool b)
  with that show thesis by (cases b) auto
next
  case (JArr vs)
  with that show thesis by (cases "vs = []") auto
next
  case (JObj ms)
  with that show thesis by (cases "ms = []") auto
qed (use that in \<open>auto simp: jquote_def\<close>)

lemma jindent_elems_head:
  assumes "vs \<noteq> []" and "\<forall>v \<in> set vs. jwf v"
  shows "\<not> has_prefix (skip_ws (jindent_elems k vs @ t)) '']''"
proof -
  from assms obtain v ws where vs: "vs = v # ws" and "jwf v" by (cases vs) auto
  then obtain c u where "jindent k v = c # u" "\<not> is_ws c" "c \<noteq> CHR '']''" by (auto elim: jindent_head [of v k])
  then show ?thesis by (simp add: vs skip_ws_Cons)
qed

lemma jindent_parse_gen:
  "jwf j \<Longrightarrow> jdepth j \<le> d \<Longrightarrow> length (jindent k j) \<le> n \<Longrightarrow> num_stop t
     \<Longrightarrow> pval n d (jindent k j @ t) = Some (j, t)"
  "vs \<noteq> [] \<Longrightarrow> \<forall>v \<in> set vs. jwf v \<and> jdepth v \<le> d \<Longrightarrow> length (jindent_elems k vs) < n
     \<Longrightarrow> pelems n d (jindent_elems k vs @ line_break l @ CHR '']'' # t) = Some (vs, t)"
  "ms \<noteq> [] \<Longrightarrow> \<forall>m \<in> set ms. raw_ok (fst m) \<and> jwf (snd m) \<and> jdepth (snd m) \<le> d
     \<Longrightarrow> length (jindent_mems k ms) < n
     \<Longrightarrow> pmems n d (jindent_mems k ms @ line_break l @ CHR ''}'' # t) = Some (ms, t)"
proof (induction k j and k vs and k ms arbitrary: n d t and n d t l and n d t l
    rule: jindent_jindent_elems_jindent_mems.induct)
  case (1 k)
  then obtain m where "n = Suc m" by (cases n) auto
  then show ?case by (simp add: skip_ws_Cons)
next
  case (2 k b)
  then obtain m where "n = Suc m" by (cases n) (auto split: if_splits)
  then show ?case by (simp add: skip_ws_Cons)
next
  case (3 k l)
  then obtain c u where "l = c # u" by (auto elim: num_ok_head)
  with 3 obtain m where "n = Suc m" by (cases n) auto
  with 3 show ?case using pval_num [of l t m d] by simp
next
  case (4 k r)
  then obtain m where "n = Suc m" by (cases n) (auto simp: jquote_def)
  with 4 show ?case using pval_str [of r m d t] by simp
next
  case (5 k vs)
  then obtain m where n: "n = Suc m" by (cases n) (auto split: if_splits)
  from 5 obtain d' where d: "d = Suc d'" by (cases d) auto
  show ?case
  proof (cases "vs = []")
    case True
    then show ?thesis by (simp add: n d skip_ws_Cons)
  next
    case False
    have "\<forall>v \<in> set vs. jwf v \<and> jdepth v \<le> d'"
      using 5 d by auto
    with 5 False n have "pelems m d' (jindent_elems (Suc k) vs @ line_break k @ CHR '']'' # t) = Some (vs, t)"
      by (intro 5) auto
    moreover have "\<not> has_prefix (skip_ws (jindent_elems (Suc k) vs @ line_break k @ CHR '']'' # t)) '']''"
      using False 5 by (intro jindent_elems_head) auto
    ultimately show ?thesis using False by (simp add: n d skip_ws_Cons pelems_ws)
  qed
next
  case (6 k ms)
  then obtain m where n: "n = Suc m" by (cases n) (auto split: if_splits)
  from 6 obtain d' where d: "d = Suc d'" by (cases d) auto
  show ?case
  proof (cases ms)
    case Nil
    then show ?thesis by (simp add: n d skip_ws_Cons)
  next
    case (Cons x xs)
    have "\<forall>m \<in> set ms. raw_ok (fst m) \<and> jwf (snd m) \<and> jdepth (snd m) \<le> d'"
      using 6 d by auto
    with 6 Cons n have *: "pmems m d' (jindent_mems (Suc k) ms @ line_break k @ CHR ''}'' # t) = Some (ms, t)"
      by (intro 6) auto
    have "\<not> has_prefix (skip_ws (jindent_mems (Suc k) ms @ line_break k @ CHR ''}'' # t)) ''}''"
      by (simp add: Cons jquote_def skip_ws_Cons)
    with * show ?thesis using Cons by (simp add: n d skip_ws_Cons pmems_ws)
  qed
next
  case (7 k)
  then show ?case by simp
next
  case (8 k v vs)
  then obtain m where n: "n = Suc m" by (cases n) auto
  have v: "num_stop u \<Longrightarrow> pval m d (jindent k v @ u) = Some (v, u)" for u
    using 8 n by (intro 8) auto
  show ?case
  proof (cases "vs = []")
    case True
    then show ?thesis using v by (simp add: n skip_ws_Cons)
  next
    case False
    with 8 n have "pelems m d (jindent_elems k vs @ line_break l @ CHR '']'' # t) = Some (vs, t)"
      by (intro 8) auto
    with False v [of "CHR '','' # line_break k @ jindent_elems k vs @ line_break l @ CHR '']'' # t"]
    show ?thesis by (simp add: n skip_ws_Cons is_digit_def pelems_ws)
  qed
next
  case (9 k)
  then show ?case by simp
next
  case (10 k m ms)
  obtain key v where m: "m = (key, v)" by (cases m)
  from 10 obtain n' where n: "n = Suc n'" by (cases n) auto
  have v: "num_stop u \<Longrightarrow> pval n' d (CHR 0x20 # jindent k v @ u) = Some (v, u)" for u
    using 10(1) [of d n' u] 10 n m pval_ws [of "[CHR 0x20]" n' d "jindent k v @ u"]
    by (auto simp: jquote_def is_ws_def)
  have key: "scan_str (key @ CHR 0x22 # u) = Some (key, u)" for u
    using 10 m by (intro scan_str_raw) auto
  show ?case
  proof (cases "ms = []")
    case True
    then show ?thesis using v key
      by (simp add: n m jquote_append skip_ws_Cons)
  next
    case False
    with 10 n have "pmems n' d (jindent_mems k ms @ line_break l @ CHR ''}'' # t) = Some (ms, t)"
      by (intro 10) (auto simp: jquote_def)
    with False v [of "CHR '','' # line_break k @ jindent_mems k ms @ line_break l @ CHR ''}'' # t"] key
    show ?thesis by (simp add: n m jquote_append skip_ws_Cons is_digit_def pmems_ws)
  qed
qed

theorem parse_jindent [json_rt]:
  assumes "jwf j" and "jdepth j \<le> max_depth"
  shows "parse_json (jindent 0 j) = Some j"
proof -
  have "pval (2 * length (jindent 0 j) + 2) max_depth (jindent 0 j @ []) = Some (j, [])"
    using assms by (intro jindent_parse_gen) auto
  then show ?thesis by (simp add: parse_json_def skip_ws_def)
qed

end
