(* ===== verification/Routes.thy ===== *)
theory Routes
  imports Json_Indent
begin

text \<open>
  Route tables: the pairs of method and path that \<open>cmd/harvest\<close> writes, and \<open>internal/probe\<close>
  and \<open>cmd/mcp\<close> read. The order in which the programs sort them (by method, then by path, byte
  by byte) is an instance of the library's \<open>linorder\<close>, so that \<open>sort\<close> and its lemmas apply; the
  main facts are that a sorted table does not depend on the order in which Go walks a map, and
  that a snapshot file reads back.
\<close>

datatype route = Route (rt_method: string) (rt_path: string)

text \<open>The comparison that the sources hand to \<open>sort.Slice\<close>; it is the strict order of the instance.\<close>

definition route_before :: "route \<Rightarrow> route \<Rightarrow> bool" where
  "route_before a b \<longleftrightarrow>
     (if rt_method a \<noteq> rt_method b then rt_method a < rt_method b else rt_path a < rt_path b)"

instantiation route :: linorder
begin

definition less_route :: "route \<Rightarrow> route \<Rightarrow> bool" where
  "less_route = route_before"

definition less_eq_route :: "route \<Rightarrow> route \<Rightarrow> bool" where
  "less_eq_route a b \<longleftrightarrow> a = b \<or> route_before a b"

instance
  by standard (auto simp: less_eq_route_def less_route_def route_before_def route.expand split: if_splits)

end

text \<open>The keys of a map, sorted: \<open>keys\<close> is one walk of the map.\<close>

definition sort_routes :: "route list \<Rightarrow> route list" where
  "sort_routes keys = sort (remdups keys)"

lemma sort_routes_set: "set a = set b \<Longrightarrow> sort_routes a = sort_routes b"
  by (simp add: sort_routes_def sorted_list_of_set_sort_remdups [symmetric])

lemma sort_routes_facts [simp]:
  "set (sort_routes a) = set a" "distinct (sort_routes a)" "sorted (sort_routes a)"
  by (simp_all add: sort_routes_def)

section \<open>Routes as JSON\<close>

definition route_json :: "route \<Rightarrow> json" where
  "route_json r = JObj (str_mem ''method'' (rt_method r) @ str_mem ''path'' (rt_path r))"

definition set_route_field :: "string \<Rightarrow> json \<Rightarrow> route \<Rightarrow> route option" where
  "set_route_field n j r =
     (if n = ''method'' then map_option (\<lambda>s. Route s (rt_path r)) (dec_string j (rt_method r))
      else map_option (\<lambda>s. Route (rt_method r) s) (dec_string j (rt_path r)))"

text \<open>A slice is decoded in place: an element that was there already keeps the fields that are absent.\<close>

fun dec_route_list :: "json list \<Rightarrow> route list \<Rightarrow> route list option" where
  "dec_route_list [] old = Some []"
| "dec_route_list (j # js) old =
     (case decode_struct set_route_field [''method'', ''path''] j (if old = [] then Route [] [] else hd old) of
        None \<Rightarrow> None
      | Some r \<Rightarrow> map_option (\<lambda>rs. r # rs) (dec_route_list js (tl old)))"

definition dec_routes :: "json \<Rightarrow> route list \<Rightarrow> route list option" where
  "dec_routes j old = (case j of JArr js \<Rightarrow> dec_route_list js old | JNull \<Rightarrow> Some [] | _ \<Rightarrow> None)"

definition route_utf8 :: "route \<Rightarrow> bool" where
  "route_utf8 r \<longleftrightarrow> valid_utf8 (rt_method r) \<and> valid_utf8 (rt_path r)"

lemma decode_route_json:
  "route_utf8 r \<Longrightarrow> decode_struct set_route_field [''method'', ''path''] (route_json r) (Route [] []) = Some r"
proof -
  assume r: "route_utf8 r"
  have "field_of [''method'', ''path''] (unquote_text ''method'') = Some ''method''"
    "field_of [''method'', ''path''] (unquote_text ''path'') = Some ''path''" by code_simp+
  then show ?thesis using r
    by (simp add: route_json_def str_mem_def decode_struct_def set_route_field_def route_utf8_def)
qed

lemma dec_route_list_json: "\<forall>r \<in> set rs. route_utf8 r \<Longrightarrow> dec_route_list (map route_json rs) [] = Some rs"
  by (induction rs) (simp_all add: decode_route_json)

lemma route_json_wf [simp]: "jwf (route_json r)" "jdepth (route_json r) = 1"
proof -
  have "raw_ok ''method''" "raw_ok ''path''" by code_simp+
  then show "jwf (route_json r)" "jdepth (route_json r) = 1"
    by (simp_all add: route_json_def str_mem_def del: raw_ok.simps)
qed

end
