(* ===== verification/Harvest.thy ===== *)
theory Harvest
  imports Routes
begin

text \<open>
  \<open>cmd/harvest/main.go\<close>: route-table snapshots. \<open>get_url\<close> is \<open>get\<close> with its retries,
  \<open>extract_routes\<close> the scan of a JS route map (its two regular expressions as scanners),
  \<open>write_snapshot\<close>, \<open>harvest_appium\<close> and \<open>harvest_wdio\<close> act on a file system, a map from paths
  to contents. Parameters: \<open>net\<close> gives the outcome of each attempt on a URL, \<open>untar\<close> reads a
  gzipped tar archive. A Go panic is the left value of a sum.
\<close>

section \<open>Fetching\<close>

datatype fetch = FetchErr string | Fetched int "string + string"

datatype harvest_panic =
  NotFound string
| BadStatus string int
| Exhausted string
| BadMeta string
| BadArchive string
| NoRouteSource string
| NoRoutes string

text \<open>
  \<open>get\<close>: five attempts; an error of the network or of the body, 429 and 5xx are retried, any
  other status than 200 panics. \<open>net url i\<close> is attempt \<open>i\<close>.
\<close>

definition transient :: "fetch \<Rightarrow> bool" where
  "transient f =
     (case f of
        FetchErr e \<Rightarrow> True
      | Fetched status body \<Rightarrow>
          status = 429 \<or> status \<ge> 500 \<or> (status = 200 \<and> (case body of Inl e \<Rightarrow> True | Inr b \<Rightarrow> False)))"

definition attempts :: nat where "attempts = 5"

fun get_loop :: "(string \<Rightarrow> nat \<Rightarrow> fetch) \<Rightarrow> string \<Rightarrow> nat \<Rightarrow> nat \<Rightarrow> harvest_panic + string" where
  "get_loop net url i 0 = Inl (Exhausted url)"
| "get_loop net url i (Suc n) =
     (case net url i of
        FetchErr e \<Rightarrow> get_loop net url (Suc i) n
      | Fetched status body \<Rightarrow>
          if status = 429 \<or> status \<ge> 500 then get_loop net url (Suc i) n
          else if status = 404 then Inl (NotFound url)
          else if status \<noteq> 200 then Inl (BadStatus url status)
          else (case body of Inl e \<Rightarrow> get_loop net url (Suc i) n | Inr b \<Rightarrow> Inr b))"

definition get_url :: "(string \<Rightarrow> nat \<Rightarrow> fetch) \<Rightarrow> string \<Rightarrow> harvest_panic + string" where
  "get_url net url = get_loop net url 0 attempts"

text \<open>\<open>getProtocol\<close>: a 404 is no panic but \<open>None\<close>; every other panic goes on.\<close>

definition get_protocol :: "(string \<Rightarrow> nat \<Rightarrow> fetch) \<Rightarrow> string \<Rightarrow> harvest_panic + string option" where
  "get_protocol net url =
     (case get_url net url of
        Inr b \<Rightarrow> Inr (Some b)
      | Inl (NotFound u) \<Rightarrow> Inr None
      | Inl p \<Rightarrow> Inl p)"

definition set_tags_field :: "string \<Rightarrow> json \<Rightarrow> smap \<Rightarrow> smap option" where
  "set_tags_field n j m = dec_smap j m"

definition npm_latest :: "(string \<Rightarrow> nat \<Rightarrow> fetch) \<Rightarrow> string \<Rightarrow> harvest_panic + string" where
  "npm_latest net pkg =
     (case get_url net (''https://registry.npmjs.org/'' @ replace_all pkg ''/'' ''%2F'') of
        Inl p \<Rightarrow> Inl p
      | Inr b \<Rightarrow>
          (case Option.bind (parse_json b) (\<lambda>j. decode_struct set_tags_field [''dist-tags''] j []) of
             None \<Rightarrow> Inl (BadMeta pkg)
           | Some tags \<Rightarrow> Inr (case map_of tags ''latest'' of Some v \<Rightarrow> v | None \<Rightarrow> [])))"

section \<open>The route map\<close>

definition re_space :: "char \<Rightarrow> bool" where
  "re_space c \<longleftrightarrow> c \<in> {CHR 0x09, CHR 0x0A, CHR 0x0C, CHR 0x0D, CHR 0x20}"

definition re_word :: "char \<Rightarrow> bool" where
  "re_word c \<longleftrightarrow> is_digit c \<or> c = CHR ''_'' \<or> (65 \<le> byte_val c \<and> byte_val c \<le> 90)
     \<or> (97 \<le> byte_val c \<and> byte_val c \<le> 122)"

text \<open>
  A match of the pattern \<open>pathKey\<close> at the head: a quoted path that starts with a slash, a colon,
  white space and an opening brace; the path and the text after the brace.
\<close>

definition path_key :: "string \<Rightarrow> (string \<times> string) option" where
  "path_key s =
     (if \<not> has_prefix s [CHR 0x27, CHR ''/''] then None
      else
        (let path = takeWhile (\<lambda>c. c \<noteq> CHR 0x27) (tl s);
             rest = dropWhile (\<lambda>c. c \<noteq> CHR 0x27) (tl s)
         in if \<not> has_prefix rest [CHR 0x27, CHR '':''] then None
            else
              (let r = dropWhile re_space (drop 2 rest)
               in if has_prefix r ''{'' then Some (path, drop 1 r) else None)))"

text \<open>The block after an opening brace, with the brace that closes it if there is one.\<close>

fun brace_block :: "nat \<Rightarrow> string \<Rightarrow> string" where
  "brace_block 0 s = []"
| "brace_block (Suc d) [] = []"
| "brace_block (Suc d) (c # s) =
     c # brace_block (if c = CHR ''{'' then Suc (Suc d) else if c = CHR ''}'' then d else Suc d) s"

definition http_methods :: "string list" where
  "http_methods = [''GET'', ''POST'', ''DELETE'', ''PUT'', ''PATCH'']"

text \<open>A match of the second alternative of \<open>methodTok\<close> at the head: the method and the rest.\<close>

definition method_token :: "string \<Rightarrow> (string \<times> string) option" where
  "method_token s =
     (case find (\<lambda>m. has_prefix s m \<and> has_prefix (dropWhile re_space (drop (length m) s)) '':'') http_methods of
        None \<Rightarrow> None
      | Some m \<Rightarrow> Some (m, drop 1 (dropWhile re_space (drop (length m) s))))"

lemma method_token_shrinks: "method_token s = Some (m, r) \<Longrightarrow> length r < length s"
proof -
  assume "method_token s = Some (m, r)"
  then have m: "m \<in> set http_methods" "has_prefix s m" and r: "r = drop 1 (dropWhile re_space (drop (length m) s))"
    by (auto simp: method_token_def find_Some_iff split: option.splits)
  have "m \<noteq> []" using m(1) by (auto simp: http_methods_def)
  then have "0 < length m \<and> length m \<le> length s" using m(2) by (auto simp: has_prefix_iff)
  moreover have "length (dropWhile re_space (drop (length m) s)) \<le> length s - length m"
    using length_dropWhile_le [of re_space "drop (length m) s"] by simp
  ultimately show "length r < length s" unfolding r length_drop by linarith
qed

text \<open>
  The methods at depth 0 of a block; \<open>word\<close> says whether the byte before is part of a word, in
  which case no method can start here.
\<close>

function block_methods :: "bool \<Rightarrow> int \<Rightarrow> string \<Rightarrow> string list" where
  "block_methods word d [] = []"
| "block_methods word d (c # s) =
     (if c = CHR ''{'' then block_methods False (d + 1) s
      else if c = CHR ''}'' then block_methods False (d - 1) s
      else
        (case (if word then None else method_token (c # s)) of
           Some (m, r) \<Rightarrow> (if d = 0 then m # block_methods False d r else block_methods False d r)
         | None \<Rightarrow> block_methods (re_word c) d s))"
  by pat_completeness auto
termination
  by (relation "measure (\<lambda>(word, d, s). length s)")
    (auto dest!: method_token_shrinks split: if_splits)

lemma path_key_shrinks: "path_key s = Some (p, r) \<Longrightarrow> length r < length s"
proof -
  assume k: "path_key s = Some (p, r)"
  let ?rest = "dropWhile (\<lambda>c. c \<noteq> CHR 0x27) (tl s)"
  from k have "has_prefix s [CHR 0x27, CHR ''/'']" and r: "r = drop 1 (dropWhile re_space (drop 2 ?rest))"
    by (auto simp: path_key_def Let_def split: if_splits)
  then have "s \<noteq> []" by (auto simp: has_prefix_iff)
  moreover have "length (dropWhile re_space (drop 2 ?rest)) \<le> length (tl s)"
    using length_dropWhile_le [of re_space "drop 2 ?rest"] length_dropWhile_le [of "\<lambda>c. c \<noteq> CHR 0x27" "tl s"]
    by simp
  ultimately show "length r < length s" unfolding r by (cases s) auto
qed

text \<open>All matches of \<open>pathKey\<close>, each with the routes of its block; the search goes on after the brace.\<close>

function found_routes :: "string \<Rightarrow> route list" where
  "found_routes [] = []"
| "found_routes (c # s) =
     (case path_key (c # s) of
        None \<Rightarrow> found_routes s
      | Some (path, r) \<Rightarrow>
          map (\<lambda>m. Route m path) (block_methods False 0 (brace_block 1 r)) @ found_routes r)"
  by pat_completeness auto
termination
  by (relation "measure length") (auto dest!: path_key_shrinks)

definition extract_routes :: "string \<Rightarrow> route list" where
  "extract_routes text = sort_routes (found_routes text)"

section \<open>Snapshots\<close>

record snapshot =
  sn_source :: string
  sn_version :: string
  sn_fetched :: string
  sn_count :: int
  sn_routes :: "route list"

definition snapshot_json :: "snapshot \<Rightarrow> json" where
  "snapshot_json s = JObj (str_mem ''source'' (sn_source s) @ str_mem ''version'' (sn_version s)
     @ str_mem ''fetched'' (sn_fetched s) @ int_mem ''count'' (sn_count s)
     @ [(''routes'', JArr (map route_json (sn_routes s)))])"

type_synonym file_system = "string \<Rightarrow> string option"

definition specs_path :: "string \<Rightarrow> string" where
  "specs_path rel = ''specs/'' @ rel"

text \<open>\<open>writeSnapshot\<close> on the day \<open>today\<close>: a file that exists is left alone.\<close>

definition write_snapshot ::
  "string \<Rightarrow> string \<Rightarrow> string \<Rightarrow> string \<Rightarrow> route list \<Rightarrow> file_system \<Rightarrow> file_system"
where
  "write_snapshot today rel source version routes fs =
     (if fs (specs_path rel) \<noteq> None then fs
      else fs(specs_path rel \<mapsto> jindent 0 (snapshot_json \<lparr>sn_source = source, sn_version = version,
         sn_fetched = today, sn_count = int (length routes), sn_routes = routes\<rparr>)))"

definition wdio_protocols :: "string list" where
  "wdio_protocols = [''webdriver'', ''chromium'', ''gecko'', ''mjsonwp'', ''selenium'']"

definition wdio_label :: "string \<Rightarrow> string" where
  "wdio_label name = (if name = ''selenium'' then ''selenium-grid'' else name)"

definition wdio_rel :: "string \<Rightarrow> string \<Rightarrow> string" where
  "wdio_rel v name = ''webdriver/'' @ wdio_label name @ ''@wdio-protocols-'' @ v @ ''.json''"

definition wdio_base :: "string \<Rightarrow> string" where
  "wdio_base v = ''https://raw.githubusercontent.com/webdriverio/webdriverio/refs/tags/v'' @ v
     @ ''/packages/wdio-protocols/src/protocols''"

fun wdio_loop ::
  "(string \<Rightarrow> nat \<Rightarrow> fetch) \<Rightarrow> string \<Rightarrow> string \<Rightarrow> string list \<Rightarrow> file_system \<Rightarrow> file_system \<times> harvest_panic option"
where
  "wdio_loop net today v [] fs = (fs, None)"
| "wdio_loop net today v (name # names) fs =
     (if fs (specs_path (wdio_rel v name)) \<noteq> None then wdio_loop net today v names fs
      else
        (case get_protocol net (wdio_base v @ ''/'' @ name @ ''.ts'') of
           Inl p \<Rightarrow> (fs, Some p)
         | Inr None \<Rightarrow> wdio_loop net today v names fs
         | Inr (Some src) \<Rightarrow>
             wdio_loop net today v names
               (write_snapshot today (wdio_rel v name) (''npm:@wdio/protocols/'' @ name) v (extract_routes src) fs)))"

definition harvest_wdio ::
  "(string \<Rightarrow> nat \<Rightarrow> fetch) \<Rightarrow> string \<Rightarrow> file_system \<Rightarrow> file_system \<times> harvest_panic option"
where
  "harvest_wdio net today fs =
     (case npm_latest net ''@wdio/protocols'' of
        Inl p \<Rightarrow> (fs, Some p)
      | Inr v \<Rightarrow> wdio_loop net today v wdio_protocols fs)"

definition appium_prefix :: string where
  "appium_prefix = ''package/build/lib/protocol/routes''"

definition appium_source :: "string \<Rightarrow> bool" where
  "appium_source name \<longleftrightarrow> name = appium_prefix @ ''.js''
     \<or> has_prefix name (appium_prefix @ ''/'') \<and> has_suffix name ''.js''"

definition harvest_appium ::
  "(string \<Rightarrow> nat \<Rightarrow> fetch) \<Rightarrow> (string \<Rightarrow> string + (string \<times> string) list) \<Rightarrow> string \<Rightarrow> file_system
     \<Rightarrow> file_system \<times> harvest_panic option"
where
  "harvest_appium net untar today fs =
     (case npm_latest net ''@appium/base-driver'' of
        Inl p \<Rightarrow> (fs, Some p)
      | Inr v \<Rightarrow>
          (let rel = ''appium/base-driver@'' @ v @ ''.json'' in
           if fs (specs_path rel) \<noteq> None then (fs, None)
           else
             (case get_url net (''https://registry.npmjs.org/@appium/base-driver/-/base-driver-'' @ v @ ''.tgz'') of
                Inl p \<Rightarrow> (fs, Some p)
              | Inr tgz \<Rightarrow>
                  (case untar tgz of
                     Inl e \<Rightarrow> (fs, Some (BadArchive e))
                   | Inr files \<Rightarrow>
                       (let used = filter (\<lambda>f. appium_source (fst f)) files;
                            routes = extract_routes (concat (map (\<lambda>f. snd f @ [CHR 0x0A]) used))
                        in if used = [] then (fs, Some (NoRouteSource v))
                           else if routes = [] then (fs, Some (NoRoutes v))
                           else (write_snapshot today rel ''npm:@appium/base-driver'' v routes fs, None))))))"

definition harvest_run ::
  "(string \<Rightarrow> nat \<Rightarrow> fetch) \<Rightarrow> (string \<Rightarrow> string + (string \<times> string) list) \<Rightarrow> string \<Rightarrow> file_system
     \<Rightarrow> file_system \<times> harvest_panic option"
where
  "harvest_run net untar today fs =
     (case harvest_appium net untar today fs of
        (fs1, Some p) \<Rightarrow> (fs1, Some p)
      | (fs1, None) \<Rightarrow> harvest_wdio net today fs1)"


section \<open>Properties of the fetching\<close>

text \<open>The verdict on an answer that is not transient.\<close>

definition fetch_verdict :: "string \<Rightarrow> fetch \<Rightarrow> harvest_panic + string" where
  "fetch_verdict url f =
     (case f of
        Fetched status (Inr b) \<Rightarrow>
          (if status = 404 then Inl (NotFound url)
           else if status \<noteq> 200 then Inl (BadStatus url status) else Inr b)
      | Fetched status (Inl e) \<Rightarrow>
          (if status = 404 then Inl (NotFound url) else Inl (BadStatus url status))
      | FetchErr e \<Rightarrow> Inl (Exhausted url))"

lemma get_loop_step:
  "get_loop net url i (Suc n) =
     (if transient (net url i) then get_loop net url (Suc i) n else fetch_verdict url (net url i))"
  by (auto simp: transient_def fetch_verdict_def split: fetch.splits sum.splits)

lemma get_loop_find:
  "get_loop net url i n =
     (case find (\<lambda>f. \<not> transient f) (map (net url) [i..<i + n]) of
        None \<Rightarrow> Inl (Exhausted url)
      | Some f \<Rightarrow> fetch_verdict url f)"
proof (induction n arbitrary: i)
  case (Suc n)
  show ?case
    unfolding get_loop_step Suc by (simp add: upt_conv_Cons del: upt_Suc)
qed simp

text \<open>
  C33. \<open>get\<close> makes at most five attempts: the first answer that is not transient (a network or body
  error, 429, 5xx) decides, with the body of a 200, a recoverable panic for a 404 and a plain one for
  any other status; when all five are transient the retries are exhausted.
\<close>

theorem get_url_spec:
  "get_url net url =
     (case find (\<lambda>f. \<not> transient f) (map (net url) [0, 1, 2, 3, 4]) of
        None \<Rightarrow> Inl (Exhausted url)
      | Some f \<Rightarrow> fetch_verdict url f)"
proof -
  have "[0..<0 + attempts] = [0, 1, 2, 3, 4]" by (simp add: attempts_def upt_rec numeral_eq_Suc)
  then show ?thesis unfolding get_url_def get_loop_find by simp
qed

section \<open>The scan of a route map\<close>

text \<open>
  A rendered route map: entries of a path and its methods, each with the text of its settings, which
  may name anything but holds no quote and no brace.
\<close>

type_synonym route_entry = "string \<times> (string \<times> string) list"

definition render_method :: "string \<times> string \<Rightarrow> string" where
  "render_method ms = fst ms @ '': {'' @ snd ms @ ''}, ''"

definition render_entry :: "route_entry \<Rightarrow> string" where
  "render_entry e = [CHR 0x27] @ fst e @ [CHR 0x27] @ '': {'' @ concat (map render_method (snd e)) @ ''}, ''"

definition render_table :: "route_entry list \<Rightarrow> string" where
  "render_table es = concat (map render_entry es)"

definition table_routes :: "route_entry list \<Rightarrow> route list" where
  "table_routes es = concat (map (\<lambda>e. map (\<lambda>ms. Route (fst ms) (fst e)) (snd e)) es)"

definition settings_ok :: "string \<Rightarrow> bool" where
  "settings_ok s \<longleftrightarrow> CHR 0x27 \<notin> set s \<and> CHR ''{'' \<notin> set s \<and> CHR ''}'' \<notin> set s"

definition entry_ok :: "route_entry \<Rightarrow> bool" where
  "entry_ok e \<longleftrightarrow> has_prefix (fst e) ''/'' \<and> CHR 0x27 \<notin> set (fst e)
     \<and> list_all (\<lambda>ms. fst ms \<in> set http_methods \<and> settings_ok (snd ms)) (snd e)"

lemma brace_block_plain:
  "settings_ok s \<Longrightarrow> brace_block (Suc d) (s @ t) = s @ brace_block (Suc d) t"
  by (induction s) (auto simp: settings_ok_def)

lemma method_plain: "m \<in> set http_methods \<Longrightarrow> settings_ok m"
  by (auto simp: http_methods_def settings_ok_def)

lemma brace_block_methods:
  "list_all (\<lambda>ms. fst ms \<in> set http_methods \<and> settings_ok (snd ms)) mss \<Longrightarrow>
     brace_block 1 (concat (map render_method mss) @ CHR ''}'' # t) = concat (map render_method mss) @ ''}''"
  by (induction mss) (auto simp: render_method_def brace_block_plain method_plain)

lemma method_token_parts:
  assumes "method_token s = Some (m, r)"
  obtains p where "s = p @ r" "p \<noteq> []" "settings_ok p"
proof -
  from assms have m: "m \<in> set http_methods" "has_prefix s m"
    and k: "has_prefix (dropWhile re_space (drop (length m) s)) '':''"
    and r: "r = drop 1 (dropWhile re_space (drop (length m) s))"
    by (auto simp: method_token_def find_Some_iff split: option.splits)
  let ?sp = "takeWhile re_space (drop (length m) s)"
  from m(2) obtain u where u: "s = m @ u" by (auto simp: has_prefix_iff)
  from k r u have "dropWhile re_space u = '':'' @ r" by (auto simp: has_prefix_iff)
  then have "s = (m @ ?sp @ '':'') @ r" using u takeWhile_dropWhile_id [of re_space u] by simp
  moreover have "settings_ok ?sp"
    by (auto simp: settings_ok_def re_space_def dest!: set_takeWhileD)
  then have "settings_ok (m @ ?sp @ '':'')" using method_plain [OF m(1)] by (simp add: settings_ok_def)
  ultimately show thesis using that by blast
qed

lemma settings_ok_append [simp]: "settings_ok (a @ b) \<longleftrightarrow> settings_ok a \<and> settings_ok b"
  by (auto simp: settings_ok_def)

lemma method_token_inside:
  assumes "method_token (s @ CHR ''}'' # t) = Some (m, r)" and "settings_ok s"
  obtains s' where "r = s' @ CHR ''}'' # t" "settings_ok s'" "length s' < length s"
proof -
  from assms(1) obtain p where p: "s @ CHR ''}'' # t = p @ r" "p \<noteq> []" "settings_ok p"
    by (rule method_token_parts)
  then consider us where "s @ us = p" "CHR ''}'' # t = us @ r" | us where "s = p @ us" "us @ CHR ''}'' # t = r"
    by (auto simp: append_eq_append_conv2)
  then show thesis
  proof cases
    case (1 us)
    with p(3) have "us = []" by (cases us) (auto simp: settings_ok_def)
    with 1 p(2) that [of "[]"] show thesis by (auto simp: settings_ok_def)
  next
    case (2 us)
    with p(2) assms(2) that [of us] show thesis by auto
  qed
qed

lemma block_methods_nested:
  "settings_ok s \<Longrightarrow> 0 < d \<Longrightarrow> block_methods w d (s @ CHR ''}'' # t) = block_methods False (d - 1) t"
proof (induction "length s" arbitrary: s w rule: less_induct)
  case less
  show ?case
  proof (cases s)
    case Nil
    then show ?thesis by simp
  next
    case (Cons c s')
    have c: "c \<noteq> CHR ''{''" "c \<noteq> CHR ''}''" and s': "settings_ok s'"
      using less.prems(1) Cons by (auto simp: settings_ok_def)
    show ?thesis
    proof (cases "if w then None else method_token (s @ CHR ''}'' # t)")
      case None
      then show ?thesis using less.hyps [of s' "re_word c"] less.prems s' c Cons by (auto split: if_splits)
    next
      case (Some mr)
      then obtain m r where k: "method_token (s @ CHR ''}'' # t) = Some (m, r)" "\<not> w"
        by (cases mr) (auto split: if_splits)
      obtain s2 where "r = s2 @ CHR ''}'' # t" "settings_ok s2" "length s2 < length s"
        using method_token_inside [OF k(1) less.prems(1)] .
      then show ?thesis using less.hyps [of s2 False] less.prems k c Cons by auto
    qed
  qed
qed

lemma http_methods_prefix:
  "m \<in> set http_methods \<Longrightarrow> m' \<in> set http_methods \<Longrightarrow> has_prefix (m @ t) m' \<longleftrightarrow> m' = m"
  unfolding http_methods_def set_simps insert_iff empty_iff by (elim disjE) simp_all

lemma find_unique:
  assumes "x \<in> set xs" and "P x" and "\<And>y. y \<in> set xs \<Longrightarrow> P y \<Longrightarrow> y = x"
  shows "find P xs = Some x"
proof (cases "find P xs")
  case None
  with assms(1,2) show ?thesis by (simp add: find_None_iff)
next
  case (Some y)
  then have "y \<in> set xs \<and> P y" by (auto simp: find_Some_iff)
  with assms(3) Some show ?thesis by blast
qed

lemma method_token_head:
  assumes "m \<in> set http_methods"
  shows "method_token (m @ '':'' @ t) = Some (m, t)"
proof -
  have "find (\<lambda>m'. has_prefix (m @ '':'' @ t) m'
      \<and> has_prefix (dropWhile re_space (drop (length m') (m @ '':'' @ t))) '':'') http_methods = Some m"
    using assms http_methods_prefix [OF assms] by (intro find_unique) (auto simp: re_space_def)
  then show ?thesis unfolding method_token_def by (simp add: re_space_def)
qed

lemma block_methods_token:
  assumes "m \<in> set http_methods"
  shows "block_methods False 0 (m @ '':'' @ t) = m # block_methods False 0 t"
proof -
  obtain c m' where m: "m = c # m'" "c \<noteq> CHR ''{''" "c \<noteq> CHR ''}''"
    using assms by (auto simp: http_methods_def)
  then show ?thesis using method_token_head [OF assms, of t] by simp
qed

lemma block_methods_skip:
  "block_methods False 0 (CHR '' '' # t) = block_methods False 0 t"
  "block_methods w 0 (CHR '','' # t) = block_methods False 0 t"
  by (simp_all add: method_token_def http_methods_def re_word_def is_digit_def byte_val_def)

lemma block_methods_open: "block_methods w d (CHR ''{'' # t) = block_methods False (d + 1) t"
  by simp

lemma block_methods_render:
  "list_all (\<lambda>ms. fst ms \<in> set http_methods \<and> settings_ok (snd ms)) mss \<Longrightarrow>
     block_methods False 0 (concat (map render_method mss) @ t) = map fst mss @ block_methods False 0 t"
proof (induction mss)
  case (Cons ms mss)
  have "block_methods False 0 (concat (map render_method (ms # mss)) @ t)
    = block_methods False 0 (fst ms @ '':'' @ '' {'' @ snd ms @ CHR ''}'' # '', '' @ concat (map render_method mss) @ t)"
    by (simp add: render_method_def)
  also have "\<dots> = fst ms # block_methods False 0 (concat (map render_method mss) @ t)"
    using Cons.prems
    by (subst block_methods_token)
      (simp_all add: block_methods_skip block_methods_nested block_methods_open del: block_methods.simps)
  finally show ?case using Cons by simp
qed simp


lemma path_key_hit:
  "has_prefix p ''/'' \<Longrightarrow> CHR 0x27 \<notin> set p \<Longrightarrow> path_key (CHR 0x27 # p @ CHR 0x27 # '': {'' @ t) = Some (p, t)"
  by (cases p) (auto simp: path_key_def re_space_def takeWhile_append dropWhile_append)

lemma path_key_miss: "c \<noteq> CHR 0x27 \<Longrightarrow> path_key (c # s) = None"
  by (simp add: path_key_def)

lemma found_routes_skip: "CHR 0x27 \<notin> set s \<Longrightarrow> found_routes (s @ t) = found_routes t"
  by (induction s) (auto simp: path_key_miss)

lemma found_routes_entry:
  assumes "entry_ok e"
  shows "found_routes (render_entry e @ t) = map (\<lambda>ms. Route (fst ms) (fst e)) (snd e) @ found_routes t"
proof -
  let ?ms = "concat (map render_method (snd e))"
  have e: "has_prefix (fst e) ''/''" "CHR 0x27 \<notin> set (fst e)"
    and ms: "list_all (\<lambda>ms. fst ms \<in> set http_methods \<and> settings_ok (snd ms)) (snd e)"
    using assms by (auto simp: entry_ok_def)
  have free: "CHR 0x27 \<notin> set (?ms @ ''}, '')"
    using ms by (auto simp: list_all_iff render_method_def settings_ok_def dest!: bspec method_plain)
  have "found_routes (render_entry e @ t)
      = map (\<lambda>m. Route m (fst e)) (block_methods False 0 (brace_block 1 (?ms @ CHR ''}'' # '', '' @ t)))
        @ found_routes ((?ms @ ''}, '') @ t)"
    using path_key_hit [OF e, of "?ms @ CHR ''}'' # '', '' @ t"]
    by (simp add: render_entry_def del: brace_block.simps block_methods.simps)
  then show ?thesis
    unfolding brace_block_methods [OF ms] block_methods_render [OF ms] found_routes_skip [OF free]
    by simp
qed

lemma found_routes_table:
  "list_all entry_ok es \<Longrightarrow> found_routes (render_table es) = table_routes es"
  by (induction es) (simp_all add: render_table_def table_routes_def found_routes_entry)

text \<open>
  C34. The scan of a route map returns the pairs of path and method of its table, each once and in
  sorted order: the text of the settings, which may name other methods, adds nothing.
\<close>

theorem extract_routes_render:
  assumes "list_all entry_ok es"
  shows "extract_routes (render_table es) = sort_routes (table_routes es)"
  unfolding extract_routes_def found_routes_table [OF assms] ..

theorem extract_routes_render_witness:
  "extract_routes (render_table
     [(''/session'', [(''POST'', ''command: PUT:''), (''GET'', [])]), (''/status'', [(''GET'', '' DELETE : 1'')])])
   = [Route ''GET'' ''/session'', Route ''GET'' ''/status'', Route ''POST'' ''/session'']"
proof -
  let ?es = "[(''/session'', [(''POST'', ''command: PUT:''), (''GET'', [])]), (''/status'', [(''GET'', '' DELETE : 1'')])]"
  have "list_all entry_ok ?es" by code_simp
  moreover have "sort_routes (table_routes ?es)
    = [Route ''GET'' ''/session'', Route ''GET'' ''/status'', Route ''POST'' ''/session'']" by code_simp
  ultimately show ?thesis using extract_routes_render [of ?es] by simp
qed


section \<open>Properties of the snapshots\<close>

text \<open>
  What a run may do to the file system: no file changes, and a new file is a snapshot of the day whose
  count is the length of its routes.
\<close>

definition is_snapshot :: "string \<Rightarrow> string \<Rightarrow> bool" where
  "is_snapshot today txt \<longleftrightarrow>
     (\<exists>s. txt = jindent 0 (snapshot_json s) \<and> sn_fetched s = today \<and> sn_count s = int (length (sn_routes s))
        \<and> sorted (sn_routes s) \<and> distinct (sn_routes s))"

definition appends :: "string \<Rightarrow> file_system \<Rightarrow> file_system \<Rightarrow> bool" where
  "appends today fs fs' \<longleftrightarrow>
     (\<forall>p. fs' p = fs p \<or> fs p = None \<and> (\<exists>txt. fs' p = Some txt \<and> is_snapshot today txt))"

lemma appends_refl [simp]: "appends today fs fs"
  by (simp add: appends_def)

lemma appends_trans: "appends today a b \<Longrightarrow> appends today b c \<Longrightarrow> appends today a c"
  unfolding appends_def by metis

lemma appends_write:
  assumes "sorted rs" and "distinct rs"
  shows "appends today fs (write_snapshot today rel source version rs fs)"
proof (cases "fs (specs_path rel)")
  case None
  let ?s = "\<lparr>sn_source = source, sn_version = version, sn_fetched = today,
    sn_count = int (length rs), sn_routes = rs\<rparr>"
  have "is_snapshot today (jindent 0 (snapshot_json ?s))"
    using assms unfolding is_snapshot_def by (intro exI [of _ ?s]) simp
  then show ?thesis using None by (auto simp: write_snapshot_def appends_def)
qed (simp add: write_snapshot_def)

lemma extract_routes_sorted [simp]: "sorted (extract_routes t)" "distinct (extract_routes t)"
  by (simp_all add: extract_routes_def)

lemma appends_wdio_loop: "appends today fs (fst (wdio_loop net today v names fs))"
proof (induction net today v names fs rule: wdio_loop.induct)
  case (2 net today v name names fs)
  show ?case
  proof (cases "fs (specs_path (wdio_rel v name)) = None")
    case True
    then show ?thesis
      using 2(2) [OF _ ] 2(3)
      by (auto split: sum.splits option.splits
          intro: appends_trans [OF appends_write [OF extract_routes_sorted]])
  qed (use 2 in auto)
qed simp

lemma appends_wdio: "appends today fs (fst (harvest_wdio net today fs))"
  by (simp add: harvest_wdio_def appends_wdio_loop split: sum.splits)

lemma appends_appium: "appends today fs (fst (harvest_appium net untar today fs))"
  by (simp add: harvest_appium_def appends_write Let_def split: sum.splits)

text \<open>
  C19. A run of the harvest is append-only, wherever it stops, a panic in the middle included: every file
  keeps its content, and a new file is a snapshot of the day whose routes are sorted, without
  duplicates, and counted right.
\<close>

theorem harvest_appends: "appends today fs (fst (harvest_run net untar today fs))"
proof -
  obtain fs1 p where a: "harvest_appium net untar today fs = (fs1, p)" by fastforce
  have "appends today fs fs1" using appends_appium [of today fs net untar] a by simp
  then show ?thesis
    using a appends_trans [OF _ appends_wdio] by (simp add: harvest_run_def split: option.splits)
qed

lemma appends_some: "appends today fs fs' \<Longrightarrow> fs p \<noteq> None \<Longrightarrow> fs' p \<noteq> None"
  by (auto simp: appends_def) (metis option.distinct(1))

lemma write_snapshot_there: "write_snapshot today rel source version rs fs (specs_path rel) \<noteq> None"
  by (simp add: write_snapshot_def)

definition wdio_settled :: "(string \<Rightarrow> nat \<Rightarrow> fetch) \<Rightarrow> string \<Rightarrow> file_system \<Rightarrow> string \<Rightarrow> bool" where
  "wdio_settled net v fs name \<longleftrightarrow>
     fs (specs_path (wdio_rel v name)) \<noteq> None \<or> get_protocol net (wdio_base v @ ''/'' @ name @ ''.ts'') = Inr None"

lemma wdio_loop_settles:
  "wdio_loop net today v names fs = (fs1, None) \<Longrightarrow> list_all (wdio_settled net v fs1) names"
proof (induction net today v names fs rule: wdio_loop.induct)
  case (2 net today v name names fs)
  let ?p = "specs_path (wdio_rel v name)"
  let ?get = "get_protocol net (wdio_base v @ ''/'' @ name @ ''.ts'')"
  show ?case
  proof (cases "fs ?p \<noteq> None")
    case True
    then have w: "wdio_loop net today v names fs = (fs1, None)" using 2(4) by simp
    then have "fs1 ?p \<noteq> None"
      using appends_some [OF appends_wdio_loop [of today fs net v names] True] by simp
    then show ?thesis using 2(1) [OF True w] by (simp add: wdio_settled_def)
  next
    case False
    then obtain r where r: "?get = Inr r" using 2(4) by (cases ?get) auto
    show ?thesis
    proof (cases r)
      case None
      then show ?thesis using 2(2) [OF False r None] 2(4) False r by (simp add: wdio_settled_def)
    next
      case (Some src)
      let ?fs = "write_snapshot today (wdio_rel v name) (''npm:@wdio/protocols/'' @ name) v (extract_routes src) fs"
      have w: "wdio_loop net today v names ?fs = (fs1, None)" using 2(4) False r Some by simp
      have "fs1 ?p \<noteq> None"
        using appends_some [OF appends_wdio_loop [of today ?fs net v names] write_snapshot_there] w by simp
      then show ?thesis using 2(3) [OF False r Some w] by (simp add: wdio_settled_def)
    qed
  qed
qed simp

lemma wdio_loop_settled:
  "list_all (wdio_settled net v fs) names \<Longrightarrow> wdio_loop net today v names fs = (fs, None)"
  by (induction names) (auto simp: wdio_settled_def)

lemma harvest_appium_settles:
  assumes "harvest_appium net untar today fs = (fs1, None)" and "appends today' fs1 fs2"
  shows "harvest_appium net untar today'' fs2 = (fs2, None)"
proof -
  obtain v where v: "npm_latest net ''@appium/base-driver'' = Inr v"
    using assms(1) by (auto simp: harvest_appium_def split: sum.splits)
  have "fs1 (specs_path (''appium/base-driver@'' @ v @ ''.json'')) \<noteq> None"
    using assms(1) v write_snapshot_there
    by (auto simp: harvest_appium_def Let_def split: if_splits sum.splits)
  from appends_some [OF assms(2) this] show ?thesis
    using v by (simp add: harvest_appium_def Let_def)
qed

text \<open>
  A run that did not panic leaves nothing to do: run again on any later day, with the upstreams as
  they were, it changes no file.
\<close>

theorem harvest_idempotent:
  assumes "harvest_run net untar today fs = (fs1, None)"
  shows "harvest_run net untar later fs1 = (fs1, None)"
proof -
  obtain fs0 where a: "harvest_appium net untar today fs = (fs0, None)"
    and w: "harvest_wdio net today fs0 = (fs1, None)"
    using assms by (auto simp: harvest_run_def split: prod.splits option.splits)
  obtain v where v: "npm_latest net ''@wdio/protocols'' = Inr v"
    and l: "wdio_loop net today v wdio_protocols fs0 = (fs1, None)"
    using w by (auto simp: harvest_wdio_def split: sum.splits)
  have "appends today fs0 fs1" using appends_wdio [of today fs0 net] w by simp
  from harvest_appium_settles [OF a this, of later]
  show ?thesis
    using v wdio_loop_settled [OF wdio_loop_settles [OF l]] by (simp add: harvest_run_def harvest_wdio_def)
qed

text \<open>An upstream that has one route file, and a first answer that is transient; the protocols are retired.\<close>

definition demo_net :: "string \<Rightarrow> nat \<Rightarrow> fetch" where
  "demo_net url i =
     (if has_prefix url ''https://registry.npmjs.org/@'' \<and> has_suffix url ''.tgz'' then Fetched 200 (Inr ''tgz'')
      else if has_prefix url ''https://registry.npmjs.org/'' then
        (if i = 0 then Fetched 503 (Inr []) else Fetched 200 (Inr (jindent 0 (JObj [(''dist-tags'', JObj (str_mem ''latest'' ''1.0''))]))))
      else Fetched 404 (Inr []))"

definition demo_untar :: "string \<Rightarrow> string + (string \<times> string) list" where
  "demo_untar tgz = Inr [(appium_prefix @ ''/w3c.js'', render_table [(''/status'', [(''GET'', [])])]), (''package/x.js'', [])]"

theorem harvest_idempotent_witness:
  "let fs1 = fst (harvest_run demo_net demo_untar ''2026-01-01'' Map.empty)
   in harvest_run demo_net demo_untar ''2026-01-02'' fs1 = (fs1, None)
     \<and> fs1 ''specs/appium/base-driver@1.0.json'' \<noteq> None"
proof -
  let ?r = "harvest_run demo_net demo_untar ''2026-01-01'' Map.empty"
  have "snd ?r = None" by code_simp
  then have "?r = (fst ?r, None)" by (metis prod.collapse)
  moreover have "fst ?r ''specs/appium/base-driver@1.0.json'' \<noteq> None" by code_simp
  ultimately show ?thesis
    using harvest_idempotent [of demo_net demo_untar "''2026-01-01''" Map.empty "fst ?r" "''2026-01-02''"]
    by (simp add: Let_def)
qed

end
