(* ===== verification/Probe.thy ===== *)
theory Probe
  imports Httpx Harvest "HOL-Library.AList"
begin

text \<open>
  \<open>internal/probe/probe.go\<close>: every route of the stored tables is tried on a live server and gets
  a verdict. \<open>union_routes\<close> folds the files of the walk, \<open>probe_route\<close> is one probe and
  \<open>probe_run\<close> is \<open>Run\<close>, with its report file. Parameters: \<open>exchange\<close> is the client on the state
  of the outside world, \<open>url_err\<close> the errors of the URL parser. \<open>Inl\<close> is the panic on the nil
  request of a bad method or URL.
\<close>

section \<open>Filling the parameters of a path\<close>

definition probe_bogus :: string where
  "probe_bogus = ''deadbeef-dead-4dead-dead-deaddeadbeef''"

definition is_param :: "string \<Rightarrow> bool" where
  "is_param s \<longleftrightarrow> has_prefix s '':'' \<or> has_prefix s ''{'' \<and> has_suffix s ''}''"

definition fill_segment :: "string \<Rightarrow> string" where
  "fill_segment s =
     (if \<not> is_param s then s
      else if contains (to_lower s) ''session'' then probe_bogus else ''bogus'')"

definition fill_path :: "string \<Rightarrow> string" where
  "fill_path path = join_byte (map fill_segment (split_byte path (CHR ''/''))) (CHR ''/'')"

section \<open>One probe\<close>

definition absent_errors :: "string list" where
  "absent_errors = [''unknown command'', ''unknown method'']"

text \<open>A match of \<open>errField\<close> at the head; and the first match of a text.\<close>

definition error_here :: "string \<Rightarrow> string option" where
  "error_here s =
     (let key = [CHR 0x22] @ ''error'' @ [CHR 0x22] in
      if \<not> has_prefix s key then None
      else
        (let r = dropWhile re_space (drop (length key) s) in
         if \<not> has_prefix r '':'' then None
         else
           (let q = dropWhile re_space (drop 1 r) in
            if \<not> has_prefix q [CHR 0x22] then None
            else
              (let v = takeWhile (\<lambda>c. c \<noteq> CHR 0x22) (drop 1 q) in
               if v = [] \<or> dropWhile (\<lambda>c. c \<noteq> CHR 0x22) (drop 1 q) = [] then None else Some v))))"

fun error_value :: "string \<Rightarrow> string option" where
  "error_value [] = None"
| "error_value (c # s) = (case error_here (c # s) of Some v \<Rightarrow> Some v | None \<Rightarrow> error_value s)"

datatype verdict = Unreachable | Exists | Absent

definition verdict_text :: "verdict \<Rightarrow> string" where
  "verdict_text v = (case v of Unreachable \<Rightarrow> ''unreachable'' | Exists \<Rightarrow> ''exists'' | Absent \<Rightarrow> ''absent'')"

definition peek_limit :: nat where "peek_limit = 500"

text \<open>The verdict on an answer: an error of the client, or the status and the body.\<close>

definition judge :: "string + int \<times> string \<Rightarrow> verdict \<times> int \<times> string" where
  "judge ans =
     (case ans of
        Inl e \<Rightarrow> (Unreachable, 0, e)
      | Inr (status, body) \<Rightarrow>
          if status < 300 then (Exists, status, [])
          else
            (case error_value (take peek_limit body) of
               Some v \<Rightarrow> (if v \<in> set absent_errors then Absent else Exists, status, v)
             | None \<Rightarrow> (Absent, status, take 40 (trim_space (take peek_limit body)))))"

definition probe_body :: "string \<Rightarrow> string" where
  "probe_body meth = (if meth \<in> set [''POST'', ''PUT'', ''PATCH''] then ''{}'' else [])"

type_synonym 'w exchange = "'w \<Rightarrow> wire_request \<Rightarrow> (string + int \<times> string) \<times> 'w"

definition probe_route ::
  "(string \<Rightarrow> string option) \<Rightarrow> 'w exchange \<Rightarrow> string \<Rightarrow> route \<Rightarrow> 'w \<Rightarrow> do_error + (verdict \<times> int \<times> string) \<times> 'w"
where
  "probe_route url_err exchange base r w =
     (case new_request url_err (rt_method r) (base @ fill_path (rt_path r)) (probe_body (rt_method r)) of
        Inl e \<Rightarrow> Inl e
      | Inr req \<Rightarrow>
          (case exchange w (req\<lparr>wq_headers := header_set ''Content-Type'' ''application/json'' (wq_headers req)\<rparr>) of
             (ans, w') \<Rightarrow> Inr (judge ans, w')))"

section \<open>The union of the stored tables\<close>

text \<open>An entry of the walk: the directories from \<open>specs\<close> on, the name, and what reading gives.\<close>

record walk_entry =
  we_dirs :: "string list"
  we_name :: string
  we_failed :: bool
  we_is_dir :: bool
  we_content :: "string option"

definition we_path :: "walk_entry \<Rightarrow> string" where
  "we_path e = join_byte (we_dirs e @ [we_name e]) (CHR ''/'')"

definition is_table :: "walk_entry \<Rightarrow> bool" where
  "is_table e \<longleftrightarrow> \<not> we_failed e \<and> \<not> we_is_dir e \<and> contains (we_name e) ''@''
     \<and> has_suffix (we_path e) ''.json'' \<and> \<not> (we_dirs e \<noteq> [] \<and> last (we_dirs e) = ''probes'')"

text \<open>
  The table of a file: \<open>json.Unmarshal\<close> into a struct of routes. The fields \<open>Method\<close> and \<open>Path\<close>
  have no tags, but names are matched whatever their case, so the decoder of the tagged fields serves.
\<close>

definition set_table_field :: "string \<Rightarrow> json \<Rightarrow> route list \<Rightarrow> route list option" where
  "set_table_field n j rs = dec_routes j rs"

definition read_table :: "string option \<Rightarrow> route list" where
  "read_table content =
     (case Option.bind (parse_json (case content of Some b \<Rightarrow> b | None \<Rightarrow> []))
         (\<lambda>j. decode_struct set_table_field [''routes''] j []) of
        None \<Rightarrow> []
      | Some rs \<Rightarrow> rs)"

type_synonym claims = "(route \<times> string list) list"

definition claim_route :: "string \<Rightarrow> route \<Rightarrow> claims \<Rightarrow> claims" where
  "claim_route stem r cs = AList.map_default r [stem] (\<lambda>l. l @ [stem]) cs"

definition claim_file :: "walk_entry \<Rightarrow> claims \<Rightarrow> claims" where
  "claim_file e cs =
     (if is_table e then fold (claim_route (trim_suffix (we_name e) ''.json'')) (read_table (we_content e)) cs else cs)"

definition union_routes :: "walk_entry list \<Rightarrow> claims" where
  "union_routes walk = fold claim_file walk []"

section \<open>The run\<close>

record probe_result =
  pr_route :: route
  pr_verdict :: verdict
  pr_http :: int
  pr_error :: string
  pr_claimed :: "string list"

definition probe_result_json :: "probe_result \<Rightarrow> json" where
  "probe_result_json r = JObj (str_mem ''method'' (rt_method (pr_route r)) @ str_mem ''path'' (rt_path (pr_route r))
     @ str_mem ''verdict'' (verdict_text (pr_verdict r)) @ int_mem ''http'' (pr_http r)
     @ str_mem ''error'' (pr_error r) @ [(''claimed_by'', JArr (map jstring (pr_claimed r)))])"

fun probe_all ::
  "(string \<Rightarrow> string option) \<Rightarrow> 'w exchange \<Rightarrow> string \<Rightarrow> claims \<Rightarrow> route list \<Rightarrow> 'w
     \<Rightarrow> do_error + probe_result list \<times> 'w"
where
  "probe_all url_err exchange base cs [] w = Inr ([], w)"
| "probe_all url_err exchange base cs (r # rs) w =
     (case probe_route url_err exchange base r w of
        Inl e \<Rightarrow> Inl e
      | Inr ((v, code, err), w1) \<Rightarrow>
          (case probe_all url_err exchange base cs rs w1 of
             Inl e \<Rightarrow> Inl e
           | Inr (out, w2) \<Rightarrow>
               Inr (\<lparr>pr_route = r, pr_verdict = v, pr_http = code, pr_error = err,
                      pr_claimed = (case map_of cs r of Some l \<Rightarrow> sort l | None \<Rightarrow> [])\<rparr> # out, w2)))"

definition tally_of :: "probe_result list \<Rightarrow> (string \<times> nat) list" where
  "tally_of out = fold (\<lambda>r. AList.map_default (verdict_text (pr_verdict r)) 1 Suc) out []"

definition tally_json :: "(string \<times> nat) list \<Rightarrow> json" where
  "tally_json t = JObj (map (\<lambda>(k, n). (quote_text k, jint (int n))) (sort_key fst t))"

definition report_json :: "string \<Rightarrow> string \<Rightarrow> string \<Rightarrow> nat \<Rightarrow> probe_result list \<Rightarrow> json" where
  "report_json label base today n out = JObj (str_mem ''binary'' label @ str_mem ''base_url'' base
     @ str_mem ''probed'' today @ int_mem ''union_size'' (int n) @ [(''tally'', tally_json (tally_of out))]
     @ [(''results'', JArr (map probe_result_json out))])"

definition probe_run ::
  "(string \<Rightarrow> string option) \<Rightarrow> 'w exchange \<Rightarrow> walk_entry list \<Rightarrow> string \<Rightarrow> string list \<Rightarrow> file_system \<Rightarrow> 'w
     \<Rightarrow> do_error + int \<times> file_system \<times> 'w"
where
  "probe_run url_err exchange walk today args fs w =
     (if length args \<noteq> 2 then Inr (1, fs, w)
      else
        (let base = trim_right_byte (args ! 0) (CHR ''/''); label = args ! 1;
             cs = union_routes walk; keys = sort_routes (map fst cs)
         in case probe_all url_err exchange base cs keys w of
              Inl e \<Rightarrow> Inl e
            | Inr (out, w') \<Rightarrow>
                Inr (0, fs(specs_path (''probes/'' @ label @ ''.json'') \<mapsto>
                  jindent 0 (report_json label base today (length cs) out)), w')))"


section \<open>Properties\<close>

lemma fill_segment_free: "CHR ''/'' \<notin> set s \<Longrightarrow> CHR ''/'' \<notin> set (fill_segment s)"
  by (auto simp: fill_segment_def probe_bogus_def)

lemma fill_segment_concrete [simp]: "\<not> is_param (fill_segment s)"
proof -
  have "\<not> is_param probe_bogus" "\<not> is_param ''bogus''"
    by (simp_all add: is_param_def probe_bogus_def)
  then show ?thesis unfolding fill_segment_def by simp
qed

lemma fill_segment_id: "\<not> is_param s \<Longrightarrow> fill_segment s = s"
  by (simp add: fill_segment_def)

lemma fill_path_segments:
  "split_byte (fill_path p) (CHR ''/'') = map fill_segment (split_byte p (CHR ''/''))"
  unfolding fill_path_def by (rule split_map_join) (rule fill_segment_free)

text \<open>
  The path of a probe names no parameter any more, keeps every literal segment in its place, and
  filling it again changes nothing.
\<close>

theorem fill_path_concrete:
  "split_byte (fill_path p) (CHR ''/'')
     = map (\<lambda>s. if is_param s then fill_segment s else s) (split_byte p (CHR ''/''))
   \<and> filter is_param (split_byte (fill_path p) (CHR ''/'')) = []
   \<and> fill_path (fill_path p) = fill_path p"
proof -
  let ?segs = "split_byte p (CHR ''/'')"
  have a: "filter is_param (map fill_segment ?segs) = []" by (simp add: filter_map o_def)
  have "fill_segment \<circ> fill_segment = fill_segment" by (auto simp: fill_segment_id)
  then have b: "fill_path (fill_path p) = fill_path p"
    unfolding fill_path_def [of "fill_path p"] fill_path_segments by (simp add: fill_path_def)
  have c: "map fill_segment ?segs = map (\<lambda>s. if is_param s then fill_segment s else s) ?segs"
    by (rule map_cong) (simp_all add: fill_segment_id)
  show ?thesis using a b c fill_path_segments [of p] by simp
qed

text \<open>The stems that claim a route, in the order of the walk: a reference for the fold over the files.\<close>

definition claimants :: "walk_entry list \<Rightarrow> route \<Rightarrow> string list" where
  "claimants walk r =
     concat (map (\<lambda>e. map (\<lambda>_. trim_suffix (we_name e) ''.json'')
       (filter (\<lambda>q. q = r) (read_table (we_content e)))) (filter is_table walk))"

definition claims_of :: "claims \<Rightarrow> route \<Rightarrow> string list" where
  "claims_of cs r = (case map_of cs r of None \<Rightarrow> [] | Some l \<Rightarrow> l)"

definition claims_ok :: "claims \<Rightarrow> bool" where
  "claims_ok cs \<longleftrightarrow> distinct (map fst cs) \<and> (\<forall>(r, l) \<in> set cs. l \<noteq> [])"

lemma claims_ok_map_of: "claims_ok cs \<Longrightarrow> map_of cs r = (if claims_of cs r = [] then None else Some (claims_of cs r))"
  by (auto simp: claims_ok_def claims_of_def split: option.splits dest: map_of_SomeD)

lemma claim_route_claims:
  "claims_of (claim_route stem q cs) r = claims_of cs r @ (if q = r then [stem] else [])"
  by (simp add: claims_of_def claim_route_def AList.map_of_map_default split: option.splits)

lemma map_default_nonempty:
  "(\<forall>(r, l) \<in> set cs. l \<noteq> []) \<Longrightarrow> (r, l) \<in> set (AList.map_default q [x] (\<lambda>l. l @ [x]) cs) \<Longrightarrow> l \<noteq> []"
  by (induction cs) (auto split: if_splits)

lemma claim_route_ok: "claims_ok cs \<Longrightarrow> claims_ok (claim_route stem q cs)"
  unfolding claims_ok_def claim_route_def
  by (auto simp: AList.distinct_map_default dest: map_default_nonempty)

lemma fold_claim_route:
  "claims_of (fold (claim_route stem) qs cs) r = claims_of cs r @ map (\<lambda>_. stem) (filter (\<lambda>q. q = r) qs)"
  "claims_ok cs \<Longrightarrow> claims_ok (fold (claim_route stem) qs cs)"
  by (induction qs arbitrary: cs) (auto simp: claim_route_claims claim_route_ok)

lemma fold_claim_file:
  "claims_of (fold claim_file walk cs) r = claims_of cs r @ claimants walk r"
  "claims_ok cs \<Longrightarrow> claims_ok (fold claim_file walk cs)"
  by (induction walk arbitrary: cs) (auto simp: claim_file_def claimants_def fold_claim_route)

lemma union_routes_ok: "claims_ok (union_routes walk)" "claims_of (union_routes walk) r = claimants walk r"
  using fold_claim_file(1) [of walk "[]"] fold_claim_file(2) [of "[]" walk] by (simp_all add: union_routes_def claims_ok_def claims_of_def)

text \<open>
  The union of the tables maps a route to the stems of the files that list it, in the order of the
  walk and once for every time it is listed; a route that no table lists is no key.
\<close>

theorem union_routes_spec:
  "map_of (union_routes walk) r = (if claimants walk r = [] then None else Some (claimants walk r))
   \<and> distinct (map fst (union_routes walk))"
  using claims_ok_map_of [OF union_routes_ok(1)] union_routes_ok by (auto simp: claims_ok_def)

lemma probe_all_results:
  "probe_all url_err exchange base cs rs w = Inr (out, w') \<Longrightarrow>
     map pr_route out = rs \<and> map pr_claimed out = map (\<lambda>r. sort (claims_of cs r)) rs"
  by (induction rs arbitrary: w out w')
    (fastforce simp: claims_of_def split: sum.splits prod.splits option.splits)+

lemma tally_of_count:
  "(case map_of (fold (\<lambda>r. AList.map_default (verdict_text (pr_verdict r)) 1 Suc) out t) k of None \<Rightarrow> 0 | Some n \<Rightarrow> n)
   = (case map_of t k of None \<Rightarrow> 0 | Some n \<Rightarrow> n) + length (filter (\<lambda>r. verdict_text (pr_verdict r) = k) out)"
  by (induction out arbitrary: t) (auto simp: AList.map_of_map_default split: option.splits)

lemma map_default_sum:
  "sum_list (map snd (AList.map_default k (Suc 0) Suc t)) = Suc (sum_list (map snd t))"
  by (induction t) auto

lemma tally_of_sum:
  "sum_list (map snd (fold (\<lambda>r. AList.map_default (verdict_text (pr_verdict r)) 1 Suc) out t))
   = sum_list (map snd t) + length out"
  by (induction out arbitrary: t) (auto simp: map_default_sum)

lemma length_sort_routes: "distinct rs \<Longrightarrow> length (sort_routes rs) = length rs"
  by (simp add: sort_routes_def)

text \<open>
  C21. A finished run leaves one report, whatever the answers of the server were: every route of the
  union has exactly one result, in sorted order and with its claimants sorted; the tally counts each
  verdict and sums to the size of the union. No other file changes.
\<close>

theorem probe_report_complete:
  assumes "probe_run url_err exchange walk today [base, label] fs w = Inr (code, fs', w')"
  shows "code = 0 \<and> (\<exists>out.
    fs' = fs(specs_path (''probes/'' @ label @ ''.json'') \<mapsto> jindent 0
      (report_json label (trim_right_byte base (CHR ''/'')) today (length out) out))
    \<and> map pr_route out = sort_routes (map fst (union_routes walk))
    \<and> map pr_claimed out = map (\<lambda>r. sort (claimants walk (pr_route r))) out
    \<and> sum_list (map snd (tally_of out)) = length out
    \<and> (\<forall>k. (case map_of (tally_of out) k of None \<Rightarrow> 0 | Some n \<Rightarrow> n)
          = length (filter (\<lambda>r. verdict_text (pr_verdict r) = k) out)))"
proof -
  let ?cs = "union_routes walk" and ?base = "trim_right_byte base (CHR ''/'')"
  obtain out where p: "probe_all url_err exchange ?base ?cs (sort_routes (map fst ?cs)) w = Inr (out, w')"
    and r: "code = 0" "fs' = fs(specs_path (''probes/'' @ label @ ''.json'') \<mapsto> jindent 0
      (report_json label ?base today (length ?cs) out))"
    using assms by (auto simp: probe_run_def Let_def split: sum.splits)
  have keys: "map pr_route out = sort_routes (map fst ?cs)"
    and cl: "map pr_claimed out = map (\<lambda>r. sort (claims_of ?cs r)) (sort_routes (map fst ?cs))"
    using probe_all_results [OF p] by blast+
  have "length out = length (sort_routes (map fst ?cs))" using keys by (metis length_map)
  then have len: "length out = length ?cs"
    using union_routes_ok(1) [of walk] by (simp add: claims_ok_def length_sort_routes)
  have "map pr_claimed out = map (\<lambda>r. sort (claimants walk (pr_route r))) out"
    unfolding cl keys [symmetric] by (simp add: union_routes_ok)
  then show ?thesis
    using r len keys tally_of_sum [of out "[]"] tally_of_count [of out "[]"]
    by (intro conjI exI [of _ out]) (simp_all add: tally_of_def)
qed


text \<open>A table whose files list the same route twice, and a server that knows only one command.\<close>

definition demo_walk :: "walk_entry list" where
  "demo_walk =
     [\<lparr>we_dirs = [''specs'', ''a''], we_name = ''w@1.json'', we_failed = False, we_is_dir = False,
        we_content = Some (jprint (JObj [(''routes'', JArr (map route_json
          [Route ''POST'' ''/session/:id/url'', Route ''GET'' ''/status'']))]))\<rparr>,
      \<lparr>we_dirs = [''specs'', ''probes''], we_name = ''x@1.json'', we_failed = False, we_is_dir = False,
        we_content = Some (jprint (JObj [(''routes'', JArr [route_json (Route ''GET'' ''/no'')])]))\<rparr>]"

definition demo_exchange :: "nat exchange" where
  "demo_exchange n req =
     (if wq_method req = ''GET'' then Inr (200, []) else Inr (404, [CHR 0x22] @ ''error'' @ [CHR 0x22]
        @ '': '' @ [CHR 0x22] @ ''unknown command'' @ [CHR 0x22]), Suc n)"

theorem probe_report_complete_witness:
  "\<exists>fs' (out :: probe_result list). probe_run (\<lambda>_. None) demo_exchange demo_walk ''2026-01-01'' [''http://h/'', ''l''] Map.empty 0
      = Inr (0, fs', 2)
    \<and> map pr_route out = [Route ''GET'' ''/status'', Route ''POST'' ''/session/:id/url'']"
proof -
  let ?run = "probe_run (\<lambda>_. None) demo_exchange demo_walk ''2026-01-01'' [''http://h/'', ''l''] Map.empty 0"
  have "map_sum id (\<lambda>(c, fs', w'). (c, w')) ?run = Inr (0, 2)" by code_simp
  then obtain fs' where run: "?run = Inr (0, fs', 2)" by (cases ?run) auto
  have "sort_routes (map fst (union_routes demo_walk))
    = [Route ''GET'' ''/status'', Route ''POST'' ''/session/:id/url'']" by code_simp
  moreover from probe_report_complete [OF run]
  obtain out :: "probe_result list" where "map pr_route out = sort_routes (map fst (union_routes demo_walk))"
    by blast
  ultimately show ?thesis using run by metis
qed

section \<open>Reading the error of an answer\<close>

definition error_key :: string where
  "error_key = [CHR 0x22] @ ''error'' @ [CHR 0x22]"

lemma error_here_hit:
  assumes "list_all re_space s1" and "list_all re_space s2" and "v \<noteq> []" and "CHR 0x22 \<notin> set v"
  shows "error_here (error_key @ s1 @ '':'' @ s2 @ [CHR 0x22] @ v @ [CHR 0x22] @ rest) = Some v"
proof -
  have sp: "\<not> re_space (CHR '':'')" "\<not> re_space (CHR 0x22)" by (simp_all add: re_space_def)
  have "dropWhile re_space (s1 @ '':'' @ t) = '':'' @ t" "dropWhile re_space (s2 @ [CHR 0x22] @ t) = [CHR 0x22] @ t" for t
    using assms(1,2) sp by (simp_all add: dropWhile_append list_all_iff)
  moreover have "takeWhile (\<lambda>c. c \<noteq> CHR 0x22) (v @ [CHR 0x22] @ t) = v"
    "dropWhile (\<lambda>c. c \<noteq> CHR 0x22) (v @ [CHR 0x22] @ t) \<noteq> []" for t
    using assms(4) by (auto simp: takeWhile_append dropWhile_append)
  ultimately show ?thesis using assms(3) by (simp add: error_here_def error_key_def Let_def)
qed

lemma error_here_key: "\<not> has_prefix s error_key \<Longrightarrow> error_here s = None"
  by (simp add: error_here_def error_key_def)

lemma has_prefix_extend: "length p \<le> length s \<Longrightarrow> has_prefix (s @ t) p \<longleftrightarrow> has_prefix s p"
  by (simp add: has_prefix_def)

lemma error_value_skip:
  "str_index (pre @ error_key) error_key = Some (length pre) \<Longrightarrow>
     error_value (pre @ error_key @ t) = error_value (error_key @ t)"
proof (induction pre)
  case (Cons c pre)
  then have "\<not> has_prefix (c # pre @ error_key) error_key"
    and i: "str_index (pre @ error_key) error_key = Some (length pre)" by (auto split: if_splits)
  then have "\<not> has_prefix ((c # pre @ error_key) @ t) error_key"
    using has_prefix_extend [of error_key "c # pre @ error_key" t] by simp
  then show ?case using Cons.IH [OF i] error_here_key [of "c # pre @ error_key @ t"] by simp
qed simp

text \<open>
  An answer from 300 on whose first 500 bytes hold the first error member of the body whole, with
  any white space around its colon, is judged by the value of that member alone: the route is absent
  exactly for the two errors of an unknown route.
\<close>

theorem judge_error_member:
  assumes "str_index (pre @ error_key) error_key = Some (length pre)"
    and "list_all re_space s1" and "list_all re_space s2" and "v \<noteq> []" and "CHR 0x22 \<notin> set v"
    and "length (pre @ error_key @ s1 @ '':'' @ s2 @ [CHR 0x22] @ v @ [CHR 0x22]) \<le> peek_limit"
    and "300 \<le> status"
  shows "judge (Inr (status, pre @ error_key @ s1 @ '':'' @ s2 @ [CHR 0x22] @ v @ [CHR 0x22] @ rest))
    = (if v \<in> set absent_errors then Absent else Exists, status, v)"
proof -
  let ?m = "pre @ error_key @ s1 @ '':'' @ s2 @ [CHR 0x22] @ v @ [CHR 0x22]"
  obtain more where "take peek_limit (?m @ rest) = ?m @ more"
    using assms(6) by (simp add: take_append del: append_assoc)
  then have "take peek_limit (pre @ error_key @ s1 @ '':'' @ s2 @ [CHR 0x22] @ v @ [CHR 0x22] @ rest)
    = pre @ error_key @ s1 @ '':'' @ s2 @ [CHR 0x22] @ v @ [CHR 0x22] @ more" by simp
  moreover have "error_value (error_key @ t) = Some v" if "error_here (error_key @ t) = Some v" for t
    using that by (simp add: error_key_def)
  ultimately have "error_value (take peek_limit (pre @ error_key @ s1 @ '':'' @ s2 @ [CHR 0x22] @ v @ [CHR 0x22] @ rest)) = Some v"
    using error_value_skip [OF assms(1)] error_here_hit [OF assms(2-5)] by metis
  then show ?thesis using assms(7) by (simp add: judge_def)
qed

lemma error_value_none: "\<not> contains s error_key \<Longrightarrow> error_value s = None"
  by (induction s) (auto simp: contains_def error_here_key split: if_splits)

text \<open>
  An error member that starts after the first 500 bytes is not seen: the route counts as absent,
  whatever the error is.
\<close>

theorem late_error_absent:
  assumes "\<not> contains (take peek_limit body) error_key" and "300 \<le> status"
  shows "fst (judge (Inr (status, body))) = Absent"
  using error_value_none [OF assms(1)] assms(2) by (simp add: judge_def)

theorem judge_error_member_witness:
  "judge (Inr (404, ''{'' @ error_key @ '': '' @ [CHR 0x22] @ ''no such window'' @ [CHR 0x22] @ ''}''))
     = (Exists, 404, ''no such window'')"
proof -
  have "str_index (''{'' @ error_key) error_key = Some (length ''{'')" by code_simp
  from judge_error_member [OF this, of "[]" "'' ''" "''no such window''" 404 "''}''"] show ?thesis
    by (simp add: re_space_def absent_errors_def peek_limit_def error_key_def)
qed

section \<open>What the harvest writes is what the probe reads\<close>

definition snapshot_utf8 :: "snapshot \<Rightarrow> bool" where
  "snapshot_utf8 s \<longleftrightarrow> list_all route_utf8 (sn_routes s)"

lemma read_table_snapshot:
  assumes "snapshot_utf8 s"
  shows "read_table (Some (jindent 0 (snapshot_json s))) = sn_routes s"
proof -
  let ?rs = "sn_routes s"
  have names: "raw_ok ''source'' \<and> raw_ok ''version'' \<and> raw_ok ''fetched'' \<and> raw_ok ''count'' \<and> raw_ok ''routes''"
    by code_simp
  have d: "Max (insert 0 (jdepth ` set (map route_json ?rs))) \<le> 1" by auto
  have "jwf (snapshot_json s)"
    using names by (auto simp: snapshot_json_def str_mem_def int_mem_def simp del: raw_ok.simps)
  moreover have "jdepth (snapshot_json s) \<le> max_depth"
    using d by (simp add: snapshot_json_def str_mem_def int_mem_def max_depth_def)
  ultimately have p: "parse_json (jindent 0 (snapshot_json s)) = Some (snapshot_json s)"
    by (rule parse_jindent)
  have "field_of [''routes''] (unquote_text ''source'') = None" "field_of [''routes''] (unquote_text ''version'') = None"
    "field_of [''routes''] (unquote_text ''fetched'') = None" "field_of [''routes''] (unquote_text ''count'') = None"
    "field_of [''routes''] (unquote_text ''routes'') = Some ''routes''" by code_simp+
  then have "decode_struct set_table_field [''routes''] (snapshot_json s) [] = dec_route_list (map route_json ?rs) []"
    by (simp add: snapshot_json_def str_mem_def int_mem_def decode_struct_def set_table_field_def dec_routes_def
        split: option.splits)
  also have "\<dots> = Some ?rs"
    using assms by (intro dec_route_list_json) (simp add: snapshot_utf8_def list_all_iff)
  finally show ?thesis by (simp add: read_table_def p)
qed

end
