(* ===== verification/Eight.thy ===== *)
theory Eight
  imports Go_Path Probe
begin

text \<open>
  \<open>cmd/eight/main.go\<close>: the dispatcher of the programs, and \<open>cmd/probe/main.go\<close>, the program around
  \<open>internal/probe\<close>. \<open>exe\<close> is \<open>os.Executable\<close>, \<open>stat\<close> says whether a path exists and \<open>child\<close> runs a program on
  arguments; what they print is left out.
\<close>

section \<open>The probe program\<close>

text \<open>The exit status and what is left of the disk and the world; \<open>None\<close> is the panic of a probe.\<close>

definition probe_main ::
  "(string \<Rightarrow> string option) \<Rightarrow> 'w exchange \<Rightarrow> walk_entry list \<Rightarrow> string \<Rightarrow> string list \<Rightarrow> file_system \<times> 'w
     \<Rightarrow> (int \<times> file_system \<times> 'w) option"
where
  "probe_main url_err exchange walk today args st =
     (case probe_run url_err exchange walk today args (fst st) (snd st) of
        Inl e \<Rightarrow> None
      | Inr out \<Rightarrow> Some out)"

section \<open>The dispatcher\<close>

definition eight_atoms :: "(string \<times> string) list" where
  "eight_atoms =
     [(''wire'', ''.bin/wire''), (''mcp'', ''.bin/http''), (''channel'', ''.bin/channel''), (''probe'', ''.bin/probe''),
      (''session'', ''.bin/session''), (''harvest'', ''.bin/harvest''), (''witness'', ''../8/collector/collector'')]"

text \<open>A child that ran has an exit status; one that could not be run has an error.\<close>

datatype child_end = Exited int | NotRun string

record 's eight_env =
  ei_exe :: "string option"
  ei_stat :: "string \<Rightarrow> bool"
  ei_child :: "string \<Rightarrow> string list \<Rightarrow> 's \<Rightarrow> child_end \<times> 's"
  ei_probe :: "string list \<Rightarrow> 's \<Rightarrow> (int \<times> 's) option"

definition eight_target :: "'s eight_env \<Rightarrow> string \<Rightarrow> string \<Rightarrow> string" where
  "eight_target env self rel =
     (let target = clean_path (path_join [path_dir self, ''..'', rel]) in if ei_stat env target then target else rel)"

definition eight_main :: "'s eight_env \<Rightarrow> string list \<Rightarrow> 's \<Rightarrow> (int \<times> 's) option" where
  "eight_main env args s =
     (case args of
        [] \<Rightarrow> Some (2, s)
      | sub # rest \<Rightarrow>
          if sub = ''probe'' then ei_probe env rest s
          else
            (case map_of eight_atoms sub of
               None \<Rightarrow> Some (2, s)
             | Some rel \<Rightarrow>
                 (case ei_exe env of
                    None \<Rightarrow> Some (1, s)
                  | Some self \<Rightarrow>
                      (case ei_child env (eight_target env self rel) rest s of
                         (Exited code, s') \<Rightarrow> Some (code, s')
                       | (NotRun e, s') \<Rightarrow> Some (1, s')))))"

definition usage_atoms :: string where
  "usage_atoms = ''atoms: wire | mcp | channel | probe | session | harvest | witness''"

section \<open>Properties\<close>

text \<open>The last line of the usage, rendered from the table.\<close>

fun bar_join :: "string list \<Rightarrow> string" where
  "bar_join [] = []"
| "bar_join [n] = n"
| "bar_join (n # ns) = n @ '' | '' @ bar_join ns"

text \<open>
  The dispatcher is transparent: on a name that is not in its table it exits with 2 and touches nothing;
  otherwise it is the probe program or one child, on the remaining arguments as they are. The usage lists
  exactly the names of the table.
\<close>

lemma eight_dispatch:
  "eight_main env args s =
     (if args = [] \<or> hd args \<notin> set (map fst eight_atoms) then Some (2, s)
      else if hd args = ''probe'' then ei_probe env (tl args) s
      else
        (case ei_exe env of
           None \<Rightarrow> Some (1, s)
         | Some self \<Rightarrow>
             (let run = ei_child env (eight_target env self (the (map_of eight_atoms (hd args)))) (tl args) s
              in Some (case fst run of Exited code \<Rightarrow> code | NotRun e \<Rightarrow> 1, snd run))))
   \<and> usage_atoms = ''atoms: '' @ bar_join (map fst eight_atoms)"
proof -
  have u: "usage_atoms = ''atoms: '' @ bar_join (map fst eight_atoms)" by code_simp
  show ?thesis
  proof (cases args)
    case (Cons sub rest)
    have p: "''probe'' \<in> set (map fst eight_atoms)" by code_simp
    show ?thesis
    proof (cases "map_of eight_atoms sub")
      case None
      then have n: "sub \<notin> set (map fst eight_atoms)" by (simp add: map_of_eq_None_iff)
      with p have "sub \<noteq> ''probe''" by blast
      with n None Cons u show ?thesis by (simp add: eight_main_def)
    next
      case (Some rel)
      then have "sub \<in> set (map fst eight_atoms)" by (force dest: map_of_SomeD)
      with Some Cons u show ?thesis
        by (cases "ei_exe env") (auto simp: eight_main_def Let_def split: prod.splits child_end.splits)
    qed
  qed (simp add: eight_main_def u)
qed

text \<open>
  Where the build puts the atoms of a checkout at the path of the elements \<open>ds\<close>, as its elements: all beside the
  dispatcher, and the witness in the directory next to that of the repository.
\<close>

definition installed :: "string list \<Rightarrow> string \<Rightarrow> string list" where
  "installed ds sub =
     (if sub = ''witness'' then butlast ds @ [''8'', ''collector'', ''collector'']
      else ds @ [''.bin'', if sub = ''mcp'' then ''http'' else sub])"

lemma clean_steps_target:
  assumes "map_of eight_atoms sub = Some rel" and "list_all entry_name ds" and "ds \<noteq> []"
  shows "\<exists>rs. rs \<noteq> [] \<and> rel = join_byte rs (CHR ''/'') \<and> list_all (\<lambda>s. CHR ''/'' \<notin> set s) rs \<and> rel \<noteq> []
    \<and> clean_steps True rs (rev ds) = installed ds sub \<and> list_all entry_name (installed ds sub)"
proof -
  have names: "list_all entry_name [''8'', ''collector'', ''.bin'', ''wire'', ''http'', ''channel'', ''probe'', ''session'', ''harvest'']"
    by code_simp
  obtain es e where ds: "ds = es @ [e]" using assms(3) by (cases ds rule: rev_cases) auto
  have inst: "list_all entry_name (butlast ds)" using assms(2) ds by simp
  show ?thesis
  proof (cases "sub = ''witness''")
    case True
    let ?rs = "[''..'', ''8'', ''collector'', ''collector'']"
    have "rel = join_byte ?rs (CHR ''/'')" using assms(1) True by (simp add: eight_atoms_def)
    moreover have "clean_steps True ?rs (rev ds) = installed ds sub" using assms(2) True ds by (simp add: installed_def entry_name_def)
    ultimately show ?thesis using names inst True by (intro exI [of _ ?rs]) (simp add: installed_def entry_name_def)
  next
    case False
    let ?rs = "[''.bin'', if sub = ''mcp'' then ''http'' else sub]"
    have r: "rel = join_byte ?rs (CHR ''/'')" "entry_name (last ?rs)"
      using assms(1) False names by (auto simp: eight_atoms_def split: if_splits)
    moreover have "clean_steps True ?rs (rev ds) = installed ds sub"
      using r(2) clean_steps_names [of ?rs True "[]" "rev ds"] names False by (simp add: installed_def)
    ultimately show ?thesis
      using names assms(2) False by (intro exI [of _ ?rs]) (auto simp: installed_def entry_name_def)
  qed
qed

lemma eight_target_installed:
  assumes "map_of eight_atoms sub = Some rel" and "list_all entry_name ds" and "ds \<noteq> []"
  shows "eight_target env (rooted_path (ds @ [''.bin'', ''eight''])) rel
    = (if ei_stat env (rooted_path (installed ds sub)) then rooted_path (installed ds sub) else rel)"
proof -
  obtain rs where rs: "rs \<noteq> []" "rel = join_byte rs (CHR ''/'')" "list_all (\<lambda>s. CHR ''/'' \<notin> set s) rs" "rel \<noteq> []"
    "clean_steps True rs (rev ds) = installed ds sub" "list_all entry_name (installed ds sub)"
    using clean_steps_target [OF assms] by blast
  have "entry_name ''.bin''" "entry_name ''eight''" by code_simp+
  then have d: "list_all entry_name (ds @ [''.bin''])" "list_all entry_name ((ds @ [''.bin'']) @ [''eight''])"
    using assms(2) by simp_all
  have "path_dir (rooted_path (ds @ [''.bin'', ''eight''])) = rooted_path (ds @ [''.bin''])"
    using path_dir_rooted [OF _ d(2)] by simp
  moreover have "path_join [rooted_path (ds @ [''.bin'']), ''..'', rel] = rooted_path (installed ds sub)"
    using path_join_up [of "ds @ [''.bin'']" rs] d(1) rs by simp
  moreover have "installed ds sub \<noteq> []" by (simp add: installed_def)
  ultimately show ?thesis by (simp add: eight_target_def clean_rooted_names [OF _ rs(6)])
qed



end
