(* ===== verification/Redact.thy ===== *)
theory Redact
  imports Json_Struct
begin

text \<open>
  What \<open>cmd/wire\<close> does to the texts it keeps: \<open>redact\<close> is \<open>secretRe.ReplaceAllString\<close> and
  \<open>shorten_ids\<close> is \<open>uuidRe.ReplaceAllStringFunc\<close>, the regular expressions as scanners. The main
  facts are that redaction acts on each \<open>&\<close>-separated parameter by itself, that nothing of the
  value of a secret parameter is left in its result, and that it is idempotent.
\<close>

section \<open>The patterns\<close>

definition secret_names :: "string list" where
  "secret_names = [''key'', ''accesskey'', ''password'', ''token'', ''secret'']"

text \<open>
  A name matched without regard to case, as \<open>(?i)\<close> does it: besides the ASCII letters, the Kelvin
  sign folds to \<open>k\<close> and the long s to \<open>s\<close>. The result is the text after the match.
\<close>

fun fold_match :: "string \<Rightarrow> string \<Rightarrow> string option" where
  "fold_match [] s = Some s"
| "fold_match (p # ps) s =
     (if p = CHR ''k'' \<and> has_prefix s [CHR 0xE2, CHR 0x84, CHR 0xAA] then fold_match ps (drop 3 s)
      else if p = CHR ''s'' \<and> has_prefix s [CHR 0xC5, CHR 0xBF] then fold_match ps (drop 2 s)
      else
        (case s of
           [] \<Rightarrow> None
         | c # s' \<Rightarrow> (if lower_byte c = p then fold_match ps s' else None)))"

text \<open>The group \<open>(?:key|...)=\<close> at the head: the text of the group and the text after it.\<close>

fun first_name :: "string list \<Rightarrow> string \<Rightarrow> (string \<times> string) option" where
  "first_name [] s = None"
| "first_name (n # ns) s =
     (case fold_match n s of
        Some r \<Rightarrow>
          (if has_prefix r ''='' then Some (take (length s - length r + 1) s, drop 1 r) else first_name ns s)
      | None \<Rightarrow> first_name ns s)"

definition is_amp :: "char \<Rightarrow> bool" where
  "is_amp c \<longleftrightarrow> c = CHR ''&''"

text \<open>A match of \<open>secretRe\<close> at the head: its group, and the text after the value.\<close>

definition secret_here :: "string \<Rightarrow> (string \<times> string) option" where
  "secret_here s =
     (case first_name secret_names s of
        None \<Rightarrow> None
      | Some (k, r) \<Rightarrow>
          (if takeWhile (\<lambda>c. \<not> is_amp c) r = [] then None else Some (k, dropWhile (\<lambda>c. \<not> is_amp c) r)))"

lemma fold_match_split:
  "fold_match p s = Some r \<Longrightarrow> \<exists>u. s = u @ r \<and> (\<forall>t. fold_match p (u @ t) = Some t)
     \<and> (list_all (\<lambda>c. CHR ''a'' \<le> c \<and> c \<le> CHR ''z'') p \<longrightarrow> CHR ''='' \<notin> set u \<and> CHR ''&'' \<notin> set u)"
proof (induction p arbitrary: s)
  case (Cons q p)
  let ?K = "[CHR 0xE2, CHR 0x84, CHR 0xAA]" and ?S = "[CHR 0xC5, CHR 0xBF]"
  consider (k) t where "q = CHR ''k''" "s = ?K @ t" "fold_match p t = Some r"
    | (s) t where "q = CHR ''s''" "s = ?S @ t" "fold_match p t = Some r"
    | (c) c t where "s = c # t" "lower_byte c = q" "fold_match p t = Some r"
        "\<not> (q = CHR ''k'' \<and> has_prefix s ?K)" "\<not> (q = CHR ''s'' \<and> has_prefix s ?S)"
    using Cons.prems by (auto simp: has_prefix_iff split: if_splits list.splits)
  then show ?case
  proof cases
    case k
    obtain u where u: "t = u @ r" "\<forall>t. fold_match p (u @ t) = Some t"
      "list_all (\<lambda>c. CHR ''a'' \<le> c \<and> c \<le> CHR ''z'') p \<longrightarrow> CHR ''='' \<notin> set u \<and> CHR ''&'' \<notin> set u"
      using Cons.IH [OF k(3)] by blast
    then show ?thesis using k by (intro exI [of _ "?K @ u"]) auto
  next
    case s
    obtain u where u: "t = u @ r" "\<forall>t. fold_match p (u @ t) = Some t"
      "list_all (\<lambda>c. CHR ''a'' \<le> c \<and> c \<le> CHR ''z'') p \<longrightarrow> CHR ''='' \<notin> set u \<and> CHR ''&'' \<notin> set u"
      using Cons.IH [OF s(3)] by blast
    then show ?thesis using s by (intro exI [of _ "?S @ u"]) auto
  next
    case c
    obtain u where u: "t = u @ r" "\<forall>t. fold_match p (u @ t) = Some t"
      "list_all (\<lambda>c. CHR ''a'' \<le> c \<and> c \<le> CHR ''z'') p \<longrightarrow> CHR ''='' \<notin> set u \<and> CHR ''&'' \<notin> set u"
      using Cons.IH [OF c(3)] by blast
    have n: "lower_byte (CHR 0xE2) \<noteq> CHR ''k''" "lower_byte (CHR 0xC5) \<noteq> CHR ''s''"
      "lower_byte (CHR ''='') = CHR ''=''" "lower_byte (CHR ''&'') = CHR ''&''"
      by (simp_all add: lower_byte_def)
    have f: "fold_match (q # p) ((c # u) @ t') = Some t'" for t'
      using u(2) c(2) n by auto
    have e: "q \<noteq> CHR ''=''" "q \<noteq> CHR ''&''" if "CHR ''a'' \<le> q"
      using that by (auto simp: less_eq_char_def)
    have "c \<noteq> CHR ''=''" "c \<noteq> CHR ''&''" if "CHR ''a'' \<le> q" using e [OF that] c(2) n by auto
    with u(3) show ?thesis using c(1) u(1) f by (intro exI [of _ "c # u"]) auto
  qed
qed simp


lemma fold_match_append: "fold_match p s = Some r \<Longrightarrow> fold_match p (s @ t) = Some (r @ t)"
  using fold_match_split [of p s r] by auto

text \<open>A text that is one of the names, and the group of the pattern at the first equals sign.\<close>

definition is_secret_name :: "string \<Rightarrow> bool" where
  "is_secret_name u \<longleftrightarrow> list_ex (\<lambda>n. fold_match n u = Some []) secret_names"

lemma secret_names_lower: "n \<in> set secret_names \<Longrightarrow> list_all (\<lambda>c. CHR ''a'' \<le> c \<and> c \<le> CHR ''z'') n"
  by (auto simp: secret_names_def less_eq_char_def)

lemma fold_match_eq:
  assumes "n \<in> set secret_names" and "CHR ''='' \<notin> set u"
  shows "(\<exists>r. fold_match n (u @ CHR ''='' # t) = Some r \<and> has_prefix r ''='') \<longleftrightarrow> fold_match n u = Some []"
    and "fold_match n u = Some [] \<Longrightarrow> fold_match n (u @ CHR ''='' # t) = Some (CHR ''='' # t)"
proof -
  show b: "fold_match n u = Some [] \<Longrightarrow> fold_match n (u @ CHR ''='' # t) = Some (CHR ''='' # t)"
    using fold_match_append by fastforce
  show "(\<exists>r. fold_match n (u @ CHR ''='' # t) = Some r \<and> has_prefix r ''='') \<longleftrightarrow> fold_match n u = Some []"
  proof
    assume "\<exists>r. fold_match n (u @ CHR ''='' # t) = Some r \<and> has_prefix r ''=''"
    then obtain r' where f: "fold_match n (u @ CHR ''='' # t) = Some (CHR ''='' # r')"
      by (auto simp: has_prefix_iff)
    obtain v where v: "u @ CHR ''='' # t = v @ CHR ''='' # r'" "\<forall>t. fold_match n (v @ t) = Some t" "CHR ''='' \<notin> set v"
      using fold_match_split [OF f] secret_names_lower [OF assms(1)] by auto
    have "takeWhile (\<lambda>c. c \<noteq> CHR ''='') (x @ CHR ''='' # y) = x" if "CHR ''='' \<notin> set x" for x y
      using that by (induction x) auto
    then have "u = v" using v(1,3) assms(2) by metis
    then show "fold_match n u = Some []" using v(2) by (metis append_Nil2)
  qed (use b in auto)
qed

lemma first_name_eq:
  assumes "CHR ''='' \<notin> set u" and "set ns \<subseteq> set secret_names"
  shows "first_name ns (u @ CHR ''='' # t)
    = (if list_ex (\<lambda>n. fold_match n u = Some []) ns then Some (u @ ''='', t) else None)"
  using assms(2)
proof (induction ns)
  case (Cons n ns)
  then show ?case
    using fold_match_eq [of n u t] assms(1) by (auto split: option.splits)
qed simp

lemma first_name_none: "CHR ''='' \<notin> set u \<Longrightarrow> set ns \<subseteq> set secret_names \<Longrightarrow> first_name ns u = None"
proof (induction ns)
  case (Cons n ns)
  have "\<not> has_prefix r ''=''" if "fold_match n u = Some r" for r
    using fold_match_split [OF that] Cons.prems(1) by (auto simp: has_prefix_iff)
  then show ?case using Cons by (auto split: option.splits)
qed simp

text \<open>\<open>secret_here\<close> looks at the first equals sign of the text only.\<close>

lemma secret_here_eq:
  assumes "CHR ''='' \<notin> set u"
  shows "secret_here (u @ CHR ''='' # t)
    = (if is_secret_name u \<and> t \<noteq> [] \<and> hd t \<noteq> CHR ''&''
       then Some (u @ ''='', dropWhile (\<lambda>c. \<not> is_amp c) t) else None)"
  using first_name_eq [OF assms subset_refl, of t]
  by (cases t) (auto simp: secret_here_def is_secret_name_def is_amp_def)

lemma secret_here_none: "CHR ''='' \<notin> set u \<Longrightarrow> secret_here u = None"
  by (simp add: secret_here_def first_name_none)

lemma split_at_eq: obtains "CHR ''='' \<notin> set s" | u t where "s = u @ CHR ''='' # t" "CHR ''='' \<notin> set u"
  by (metis split_list_first)

lemma secret_here_shrinks: "secret_here s = Some (k, r) \<Longrightarrow> length r < length s"
  by (cases s rule: split_at_eq)
    (auto simp: secret_here_none secret_here_eq length_dropWhile_le le_imp_less_Suc trans_le_add2 split: if_splits)

section \<open>The replacement\<close>

function redact :: "string \<Rightarrow> string" where
  "redact [] = []"
| "redact (c # s) =
     (case secret_here (c # s) of
        Some (k, r) \<Rightarrow> k @ ''REDACTED'' @ redact r
      | None \<Rightarrow> c # redact s)"
  by pat_completeness auto
termination
  by (relation "measure length") (auto dest!: secret_here_shrinks)


section \<open>Redaction by parameters\<close>

text \<open>The text up to the value that is replaced, in a parameter: the part \<open>redact\<close> keeps.\<close>

fun kept_part :: "string \<Rightarrow> string option" where
  "kept_part [] = None"
| "kept_part (c # s) =
     (case secret_here (c # s) of
        Some (k, r) \<Rightarrow> Some k
      | None \<Rightarrow> map_option (\<lambda>k. c # k) (kept_part s))"

lemma dropWhile_amp_free: "CHR ''&'' \<notin> set t \<Longrightarrow> dropWhile (\<lambda>c. \<not> is_amp c) t = []"
  by (auto simp: is_amp_def dropWhile_eq_Nil_conv)

lemma secret_here_amp:
  assumes "CHR ''&'' \<notin> set s"
  shows "secret_here (s @ CHR ''&'' # t) = map_option (\<lambda>(k, r). (k, r @ CHR ''&'' # t)) (secret_here s)"
proof (cases s rule: split_at_eq)
  case 1
  have "secret_here (s @ CHR ''&'' # t) = None"
  proof (cases t rule: split_at_eq)
    case 1
    with \<open>CHR ''='' \<notin> set s\<close> show ?thesis by (intro secret_here_none) auto
  next
    case (2 u t')
    have "\<not> is_secret_name (s @ CHR ''&'' # u)"
    proof
      assume "is_secret_name (s @ CHR ''&'' # u)"
      then obtain n where "n \<in> set secret_names" "fold_match n (s @ CHR ''&'' # u) = Some []"
        by (auto simp: is_secret_name_def list_ex_iff)
      then show False using fold_match_split [of n "s @ CHR ''&'' # u"] secret_names_lower by fastforce
    qed
    with 2 \<open>CHR ''='' \<notin> set s\<close> secret_here_eq [of "s @ CHR ''&'' # u" t'] show ?thesis by simp
  qed
  with 1 show ?thesis by (simp add: secret_here_none)
next
  case (2 u v)
  then have "CHR ''&'' \<notin> set v" using assms by simp
  then have "dropWhile (\<lambda>c. \<not> is_amp c) (v @ CHR ''&'' # t) = CHR ''&'' # t"
    by (auto simp: is_amp_def dropWhile_append dropWhile_eq_Nil_conv)
  then show ?thesis
    using 2 secret_here_eq [of u v] secret_here_eq [of u "v @ CHR ''&'' # t"] \<open>CHR ''&'' \<notin> set v\<close>
    by (cases v) (auto simp: dropWhile_amp_free)
qed

lemma secret_here_free:
  "secret_here s = Some (k, r) \<Longrightarrow> CHR ''&'' \<notin> set s \<Longrightarrow> r = [] \<and> (\<exists>u. k = u @ ''='' \<and> CHR ''='' \<notin> set u \<and> is_secret_name u)"
  by (cases s rule: split_at_eq)
    (auto simp: secret_here_none secret_here_eq dropWhile_amp_free split: if_splits)

lemma redact_param:
  "CHR ''&'' \<notin> set s \<Longrightarrow> redact s = (case kept_part s of None \<Rightarrow> s | Some k \<Rightarrow> k @ ''REDACTED'')"
proof (induction s)
  case (Cons c s)
  show ?case
  proof (cases "secret_here (c # s)")
    case None
    then show ?thesis using Cons by (simp split: option.splits)
  next
    case (Some kr)
    obtain k r where kr: "kr = (k, r)" by fastforce
    have "r = []" using secret_here_free [of "c # s" k r] Some kr Cons.prems by simp
    then show ?thesis using Some kr by simp
  qed
qed simp

lemma secret_here_at_amp: "secret_here (CHR ''&'' # t) = None"
  using secret_here_amp [of "[]" t] by (simp add: secret_here_none)

lemma redact_amp:
  "CHR ''&'' \<notin> set s \<Longrightarrow> redact (s @ CHR ''&'' # t) = redact s @ CHR ''&'' # redact t"
proof (induction s)
  case Nil
  show ?case by (simp add: secret_here_at_amp)
next
  case (Cons c s)
  show ?case
  proof (cases "secret_here (c # s)")
    case None
    then show ?thesis using Cons secret_here_amp [of "c # s" t] by simp
  next
    case (Some kr)
    obtain k r where kr: "kr = (k, r)" by fastforce
    have "r = []" using secret_here_free [of "c # s" k r] Some kr Cons.prems by simp
    then show ?thesis using Some kr Cons secret_here_amp [of "c # s" t] by (simp add: secret_here_at_amp)
  qed
qed


lemma redact_append: "redact (s @ CHR ''&'' # t) = redact s @ CHR ''&'' # redact t"
proof (induction "length s" arbitrary: s rule: less_induct)
  case less
  show ?case
  proof (cases "CHR ''&'' \<in> set s")
    case True
    then obtain u v where s: "s = u @ CHR ''&'' # v" "CHR ''&'' \<notin> set u" by (metis split_list_first)
    then show ?thesis using less [of v] redact_amp [OF s(2)] by simp
  qed (rule redact_amp)
qed

lemma redact_join: "ps \<noteq> [] \<Longrightarrow> redact (join_byte ps (CHR ''&'')) = join_byte (map redact ps) (CHR ''&'')"
  by (induction ps "CHR ''&''" rule: join_byte.induct) (simp_all add: redact_append)

text \<open>
  Redaction acts on each parameter of a query by itself: the parameters are redacted one by one
  and joined as they were.
\<close>

theorem redact_params: "redact s = join_byte (map redact (split_byte s (CHR ''&''))) (CHR ''&'')"
  using redact_join [of "split_byte s (CHR ''&'')"] by simp

lemma is_secret_name_free: "is_secret_name u \<Longrightarrow> CHR ''='' \<notin> set u \<and> CHR ''&'' \<notin> set u \<and> u \<noteq> []"
proof -
  assume "is_secret_name u"
  then obtain n where n: "n \<in> set secret_names" "fold_match n u = Some []"
    by (auto simp: is_secret_name_def list_ex_iff)
  then have "u \<noteq> []" by (auto simp: secret_names_def)
  with n show ?thesis using fold_match_split [OF n(2)] secret_names_lower [OF n(1)] by auto
qed

lemma hd_not_amp: "CHR ''&'' \<notin> set v \<Longrightarrow> v \<noteq> [] \<Longrightarrow> hd v \<noteq> CHR ''&''"
  by (cases v) auto

text \<open>Up to its first equals sign a text decides by itself; what follows only has to be a value.\<close>

lemma secret_here_tail:
  assumes "CHR ''&'' \<notin> set (x @ v @ w)" and "v \<noteq> []" and "w \<noteq> []"
  shows "map_option fst (secret_here (x @ CHR ''='' # v)) = map_option fst (secret_here (x @ CHR ''='' # w))"
proof (cases x rule: split_at_eq)
  case 1
  then show ?thesis using assms hd_not_amp by (simp add: secret_here_eq)
next
  case (2 u t)
  have "hd (t @ CHR ''='' # v) \<noteq> CHR ''&'' \<and> hd (t @ CHR ''='' # w) \<noteq> CHR ''&''"
    using 2 assms(1) by (cases t) auto
  then show ?thesis
    using 2 secret_here_eq [of u "t @ CHR ''='' # v"] secret_here_eq [of u "t @ CHR ''='' # w"] by simp
qed

lemma kept_part_nonempty: "kept_part s = Some k \<Longrightarrow> CHR ''&'' \<notin> set s \<Longrightarrow> k \<noteq> []"
  by (cases s) (auto dest: secret_here_free split: option.splits)

lemma kept_part_tail:
  assumes "CHR ''&'' \<notin> set (x @ v @ w)" and "v \<noteq> []" and "w \<noteq> []"
    and "kept_part (x @ CHR ''='' # v) = Some k" and "length k \<le> Suc (length x)"
  shows "kept_part (x @ CHR ''='' # w) = Some k"
  using assms
proof (induction x arbitrary: k)
  case Nil
  have "secret_here (CHR ''='' # v) = None"
    using secret_here_eq [of "[]" v] is_secret_name_free [of "[]"] by auto
  then obtain k' where "kept_part v = Some k'" "k = CHR ''='' # k'" using Nil(4) by auto
  then show ?case using Nil(1,5) kept_part_nonempty by fastforce
next
  case (Cons c x)
  have t: "map_option fst (secret_here (c # x @ CHR ''='' # v)) = map_option fst (secret_here (c # x @ CHR ''='' # w))"
    using secret_here_tail [of "c # x" v w] Cons.prems by simp
  show ?case
  proof (cases "secret_here (c # x @ CHR ''='' # v)")
    case None
    then obtain k' where k: "kept_part (x @ CHR ''='' # v) = Some k'" "k = c # k'" using Cons.prems(4) by auto
    have "kept_part (x @ CHR ''='' # w) = Some k'" using Cons k by simp
    then show ?thesis using t None k by simp
  next
    case (Some kr)
    then show ?thesis using t Cons.prems(4) by (cases kr) (auto split: option.splits)
  qed
qed

lemma kept_part_split:
  assumes "kept_part s = Some k" and "CHR ''&'' \<notin> set s"
  shows "\<exists>x v. k = x @ ''='' \<and> s = x @ CHR ''='' # v \<and> v \<noteq> []"
  using assms
proof (induction s arbitrary: k)
  case (Cons c s)
  show ?case
  proof (cases "secret_here (c # s)")
    case None
    then obtain k' where "kept_part s = Some k'" "k = c # k'" using Cons.prems by auto
    then show ?thesis using Cons.IH [of k'] Cons.prems(2) by (metis append_Cons list.set_intros(2))
  next
    case (Some kr)
    then obtain r where sh: "secret_here (c # s) = Some (k, r)" using Cons.prems(1) by (cases kr) simp
    show ?thesis
    proof (cases "c # s" rule: split_at_eq)
      case 1
      then show ?thesis using sh by (simp add: secret_here_none)
    next
      case (2 u t)
      then show ?thesis using sh by (auto simp: secret_here_eq split: if_splits)
    qed
  qed
qed simp

text \<open>Redacting a text twice is redacting it once.\<close>

theorem redact_idempotent: "redact (redact s) = redact s"
proof -
  have p: "redact (redact s) = redact s" if a: "CHR ''&'' \<notin> set s" for s
  proof (cases "kept_part s")
    case None
    then show ?thesis using redact_param [OF a] by simp
  next
    case (Some k)
    obtain x v where k: "k = x @ ''=''" "s = x @ CHR ''='' # v" "v \<noteq> []" using kept_part_split [OF Some a] by blast
    then have "kept_part (x @ CHR ''='' # ''REDACTED'') = Some k"
      using a Some by (intro kept_part_tail [of x v "''REDACTED''" k]) auto
    moreover have "CHR ''&'' \<notin> set (k @ ''REDACTED'')" using a k by simp
    ultimately have "redact (k @ ''REDACTED'') = k @ ''REDACTED''" using redact_param k(1) by simp
    then show ?thesis using redact_param [OF a] Some by simp
  qed
  show ?thesis
  proof (induction "length s" arbitrary: s rule: less_induct)
    case less
    show ?case
    proof (cases "CHR ''&'' \<in> set s")
      case True
      then obtain u v where s: "s = u @ CHR ''&'' # v" "CHR ''&'' \<notin> set u" by (metis split_list_first)
      then show ?thesis using less [of v] p [OF s(2)] by (simp add: redact_append)
    qed (rule p)
  qed
qed

lemma kept_part_secret:
  assumes "is_secret_name n" and "CHR ''&'' \<notin> set (a @ v)" and "v \<noteq> []"
  shows "\<exists>k. kept_part (a @ n @ CHR ''='' # v) = Some k \<and> length k \<le> Suc (length (a @ n))"
  using assms(2)
proof (induction a)
  case Nil
  obtain c n' where n: "n = c # n'" using is_secret_name_free [OF assms(1)] by (cases n) auto
  have "secret_here (n @ CHR ''='' # v) = Some (n @ ''='', dropWhile (\<lambda>c. \<not> is_amp c) v)"
    using is_secret_name_free [OF assms(1)] assms hd_not_amp Nil by (simp add: secret_here_eq)
  then show ?case using n by simp
next
  case (Cons c a)
  show ?case
  proof (cases "secret_here (c # a @ n @ CHR ''='' # v)")
    case None
    then show ?thesis using Cons by auto
  next
    case (Some kr)
    obtain k r where kr: "kr = (k, r)" by fastforce
    have "length k \<le> Suc (length (c # a @ n))"
    proof (cases "c # a @ n" rule: split_at_eq)
      case 1
      then show ?thesis using secret_here_eq [OF 1, of v] Some kr by (simp split: if_splits)
    next
      case (2 u t)
      then have e: "c # a @ n @ CHR ''='' # v = u @ CHR ''='' # t @ CHR ''='' # v"
        by (metis append.assoc append_Cons)
      have "k = u @ ''=''"
        using secret_here_eq [OF 2(2), of "t @ CHR ''='' # v"] Some kr unfolding e by (simp split: if_splits)
      then show ?thesis using arg_cong [OF 2(1), of length] by simp
    qed
    then show ?thesis using Some kr by simp
  qed
qed

text \<open>Two texts that differ in the value of one secret parameter only have the same redaction.\<close>

lemma redact_value_indep:
  assumes "is_secret_name n" and "v \<noteq> []" and "w \<noteq> []" and "CHR ''&'' \<notin> set (v @ w)"
    and "t = [] \<or> hd t = CHR ''&''"
  shows "redact (a @ n @ ''='' @ v @ t) = redact (a @ n @ ''='' @ w @ t)"
proof -
  have p: "redact (a @ n @ CHR ''='' # v) = redact (a @ n @ CHR ''='' # w)" if a: "CHR ''&'' \<notin> set a" for a
  proof -
    have f: "CHR ''&'' \<notin> set ((a @ n) @ v @ w)" using a assms is_secret_name_free [OF assms(1)] by simp
    obtain k where k: "kept_part ((a @ n) @ CHR ''='' # v) = Some k" "length k \<le> Suc (length (a @ n))"
      using kept_part_secret [OF assms(1) _ assms(2), of a] a assms(4) by auto
    then have "kept_part ((a @ n) @ CHR ''='' # w) = Some k" using kept_part_tail [OF f assms(2,3)] by blast
    then show ?thesis using k redact_param f by simp
  qed
  have q: "redact (a @ n @ CHR ''='' # v) = redact (a @ n @ CHR ''='' # w)"
  proof (cases "CHR ''&'' \<in> set a")
    case True
    then obtain b c where "a = b @ CHR ''&'' # c" "CHR ''&'' \<notin> set c" by (metis split_list_last)
    then show ?thesis using p [of c] by (simp add: redact_append)
  qed (rule p)
  show ?thesis
  proof (cases t)
    case (Cons c t')
    then have "t = CHR ''&'' # t'" using assms(5) by simp
    then show ?thesis
      using q redact_append [of "a @ n @ CHR ''='' # v" t'] redact_append [of "a @ n @ CHR ''='' # w" t'] by simp
  qed (use q in simp)
qed

text \<open>Two parameters that are equal but for the value of a secret.\<close>

definition same_but_secret :: "string \<Rightarrow> string \<Rightarrow> bool" where
  "same_but_secret p q \<longleftrightarrow> p = q \<or>
     (\<exists>a n v w. is_secret_name n \<and> v \<noteq> [] \<and> w \<noteq> [] \<and> CHR ''&'' \<notin> set (v @ w)
        \<and> p = a @ n @ ''='' @ v \<and> q = a @ n @ ''='' @ w)"

lemma redact_same:
  assumes "same_but_secret p q"
  shows "redact p = redact q"
  using assms unfolding same_but_secret_def
proof (elim disjE exE conjE)
  fix a n v w
  assume h: "is_secret_name n" "v \<noteq> []" "w \<noteq> []" "CHR ''&'' \<notin> set (v @ w)"
    and e: "p = a @ n @ ''='' @ v" "q = a @ n @ ''='' @ w"
  have "redact (a @ n @ ''='' @ v @ []) = redact (a @ n @ ''='' @ w @ [])"
    by (rule redact_value_indep [OF h]) simp
  then show ?thesis by (simp only: e append_Nil2)
qed simp

text \<open>
  C16. Nothing of the values of the secret parameters reaches the redacted text: two queries whose
  parameters differ in the values of secrets only, any number of them, have the same redaction.
\<close>

theorem redact_hides_secrets:
  assumes "list_all2 same_but_secret ps qs"
  shows "redact (join_byte ps (CHR ''&'')) = redact (join_byte qs (CHR ''&''))"
proof -
  have "map redact ps = map redact qs" using assms by (induction rule: list_all2_induct) (simp_all add: redact_same)
  moreover have "ps = [] \<longleftrightarrow> qs = []" using assms by auto
  ultimately show ?thesis using redact_join [of ps] redact_join [of qs] by auto
qed

theorem redact_hides_secrets_witness:
  "redact (join_byte [''user=u'', ''accessKey=a=b'', ''token=1''] (CHR ''&''))
     = redact (join_byte [''user=u'', ''accessKey=zz'', ''token=2''] (CHR ''&''))"
proof -
  have n: "is_secret_name ''accessKey''" "is_secret_name ''token''" by code_simp+
  have "same_but_secret ''user=u'' ''user=u''" by (simp add: same_but_secret_def)
  moreover have "same_but_secret ''accessKey=a=b'' ''accessKey=zz''"
    unfolding same_but_secret_def using n(1)
    by (intro disjI2 exI [of _ "[]"] exI [of _ "''accessKey''"] exI [of _ "''a=b''"] exI [of _ "''zz''"]) simp
  moreover have "same_but_secret ''token=1'' ''token=2''"
    unfolding same_but_secret_def using n(2)
    by (intro disjI2 exI [of _ "[]"] exI [of _ "''token''"] exI [of _ "''1''"] exI [of _ "''2''"]) simp
  ultimately show ?thesis by (intro redact_hides_secrets) simp
qed

text \<open>
  A text without an equals sign is kept as it is: a JSON body keeps its credentials.
\<close>

theorem redact_no_equals:
  assumes "CHR ''='' \<notin> set s"
  shows "redact s = s"
proof -
  have "secret_here t = None" if "suffix t s" for t
    using that assms by (intro secret_here_none) (auto simp: suffix_def)
  then show ?thesis
  proof (induction s)
    case (Cons c s)
    have "secret_here (c # s) = None" using Cons.prems by simp
    moreover have "redact s = s" using Cons by (simp add: suffix_ConsI)
    ultimately show ?case by simp
  qed simp
qed

theorem redact_no_equals_witness:
  "redact (jprint (JObj (str_mem ''accessKey'' ''s3cr3t''))) = jprint (JObj (str_mem ''accessKey'' ''s3cr3t''))"
proof -
  have "CHR ''='' \<notin> set (jprint (JObj (str_mem ''accessKey'' ''s3cr3t'')))" by code_simp
  then show ?thesis by (rule redact_no_equals)
qed

section \<open>Session ids in paths\<close>

definition is_lower_hex :: "char \<Rightarrow> bool" where
  "is_lower_hex c \<longleftrightarrow> is_digit c \<or> (97 \<le> byte_val c \<and> byte_val c \<le> 102)"

text \<open>A match of \<open>uuidRe\<close> at the head: groups of 8, 4, 4, 4 and 12 digits joined by dashes.\<close>

definition uuid_here :: "string \<Rightarrow> bool" where
  "uuid_here s \<longleftrightarrow> 36 \<le> length s \<and>
     list_all (\<lambda>i. if i \<in> {8, 13, 18, 23} then s ! i = CHR ''-'' else is_lower_hex (s ! i)) [0..<36]"

function shorten_ids :: "string \<Rightarrow> string" where
  "shorten_ids [] = []"
| "shorten_ids (c # s) =
     (if uuid_here (c # s) then take 8 (c # s) @ shorten_ids (drop 36 (c # s)) else c # shorten_ids s)"
  by pat_completeness auto
termination
  by (relation "measure length") auto

end
