(* ===== verification/Wire.thy ===== *)
theory Wire
  imports Redact Httpx "HOL-Library.Multiset"
begin

text \<open>
  \<open>cmd/wire/main.go\<close>: the transparent witness. A body is a reader, the chunks it will deliver and
  the error after them; \<open>tee\<close> is the capture of its first bytes. \<open>handle_call\<close> is one call of
  the handler up to its record, \<open>replay_step\<close> are the steps that concurrent handlers take on the
  replay log, and \<open>witness_body\<close> is the report to the collector. Parameters: the reverse proxy and
  its original director (library), the outcome of \<open>host.Read\<close>, the clock, and how \<open>%q\<close> writes
  code points outside ASCII (Unicode tables).
\<close>

section \<open>Capturing a body\<close>

type_synonym reader = "string list \<times> string option"

definition body_cap :: nat where "body_cap = 4096"

text \<open>\<open>io.ReadFull\<close> into a buffer of \<open>n\<close> bytes: what was read and what is left.\<close>

fun read_peek :: "nat \<Rightarrow> string list \<Rightarrow> string \<times> string list" where
  "read_peek n [] = ([], [])"
| "read_peek n (c # cs) =
     (if n = 0 then ([], c # cs)
      else if length c \<le> n then (case read_peek (n - length c) cs of (b, rest) \<Rightarrow> (c @ b, rest))
      else (take n c, drop n c # cs))"

text \<open>The capture, and the reader that takes the place of the body.\<close>

definition tee :: "reader \<Rightarrow> string \<times> reader" where
  "tee r = (case read_peek body_cap (fst r) of (peek, rest) \<Rightarrow> (peek, (peek # rest, snd r)))"

definition tee_body :: "reader option \<Rightarrow> string \<times> reader option" where
  "tee_body b = (case b of None \<Rightarrow> ([], None) | Some r \<Rightarrow> (case tee r of (peek, r') \<Rightarrow> (peek, Some r')))"

section \<open>One call\<close>

record wire_config =
  wc_scheme :: string
  wc_host :: string
  wc_user :: "(string \<times> string option) option"
  wc_witness :: string
  wc_actor :: string

record inbound =
  in_method :: string
  in_path :: string
  in_query :: string
  in_header :: smap
  in_host :: string
  in_body :: "reader option"

record answer =
  an_status :: int
  an_length :: int
  an_body :: "reader option"

datatype reply = Relayed answer | ProxyFailed | HostInfo string

record wire_record =
  wr_ts :: string
  wr_method :: string
  wr_url :: string
  wr_req_body :: string
  wr_resp_body :: string
  wr_status :: int
  wr_latency_us :: int

record observed =
  ob_status :: int
  ob_bytes :: int
  ob_resp_body :: string

definition full_path :: "inbound \<Rightarrow> string" where
  "full_path req = (if in_query req = [] then in_path req else in_path req @ ''?'' @ redact (in_query req))"

definition witnessed_url :: "wire_config \<Rightarrow> inbound \<Rightarrow> string" where
  "witnessed_url cfg req =
     (if in_path req = ''/host'' then ''wire://self/host''
      else wc_scheme cfg @ ''://'' @ wc_host cfg @ full_path req)"

text \<open>The director: the library's one, then the host of the upstream and its credential.\<close>

definition direct :: "wire_config \<Rightarrow> (inbound \<Rightarrow> inbound) \<Rightarrow> inbound \<Rightarrow> inbound" where
  "direct cfg orig req =
     (let rq = (orig req)\<lparr>in_host := wc_host cfg\<rparr>
      in case wc_user cfg of
           Some (user, Some pw) \<Rightarrow>
             rq\<lparr>in_header := header_set ''Authorization'' (''Basic '' @ base64 (user @ '':'' @ pw)) (in_header rq)\<rparr>
         | _ \<Rightarrow> rq)"

definition observe :: "answer \<Rightarrow> observed \<times> answer" where
  "observe a =
     (case tee_body (an_body a) of
        (peek, b) \<Rightarrow> (\<lparr>ob_status = an_status a, ob_bytes = an_length a, ob_resp_body = peek\<rparr>, a\<lparr>an_body := b\<rparr>))"

text \<open>
  The round trip. \<open>proxy\<close> sends a request on the state of the outside world; when it fails, the
  library answers the client itself and \<open>observe\<close> is not called.
\<close>

definition serve ::
  "wire_config \<Rightarrow> (inbound \<Rightarrow> inbound) \<Rightarrow> ('w \<Rightarrow> inbound \<Rightarrow> answer option \<times> 'w) \<Rightarrow> string \<Rightarrow> inbound \<Rightarrow> 'w
     \<Rightarrow> observed \<times> reply \<times> 'w"
where
  "serve cfg orig proxy host_buf req w =
     (if in_path req = ''/host'' then
        (\<lparr>ob_status = 200, ob_bytes = int (length host_buf), ob_resp_body = []\<rparr>, HostInfo host_buf, w)
      else
        (case proxy w (direct cfg orig req) of
           (None, w') \<Rightarrow> (\<lparr>ob_status = 0, ob_bytes = 0, ob_resp_body = []\<rparr>, ProxyFailed, w')
         | (Some a, w') \<Rightarrow> (case observe a of (ob, a') \<Rightarrow> (ob, Relayed a', w'))))"

definition handle_call ::
  "wire_config \<Rightarrow> (inbound \<Rightarrow> inbound) \<Rightarrow> ('w \<Rightarrow> inbound \<Rightarrow> answer option \<times> 'w) \<Rightarrow> string \<Rightarrow> string \<Rightarrow> int
     \<Rightarrow> inbound \<Rightarrow> 'w \<Rightarrow> wire_record \<times> int \<times> reply \<times> 'w"
where
  "handle_call cfg orig proxy host_buf ts latency req w =
     (case tee_body (in_body req) of
        (req_body, b) \<Rightarrow>
          (case serve cfg orig proxy host_buf (req\<lparr>in_body := b\<rparr>) w of
             (ob, rep, w') \<Rightarrow>
               (\<lparr>wr_ts = ts, wr_method = in_method req, wr_url = redact (witnessed_url cfg req),
                  wr_req_body = redact req_body, wr_resp_body = redact (ob_resp_body ob),
                  wr_status = ob_status ob, wr_latency_us = latency\<rparr>, ob_bytes ob, rep, w')))"

section \<open>The replay log\<close>

text \<open>A line: \<open>json.Marshal\<close> of a map, so its keys are sorted.\<close>

definition replay_json :: "int \<Rightarrow> wire_record \<Rightarrow> json" where
  "replay_json seq r = JObj (int_mem ''latency_us'' (wr_latency_us r) @ str_mem ''method'' (wr_method r)
     @ str_mem ''req_body'' (wr_req_body r) @ str_mem ''resp_body'' (wr_resp_body r) @ int_mem ''seq'' seq
     @ int_mem ''status'' (wr_status r) @ str_mem ''ts'' (wr_ts r) @ str_mem ''url'' (wr_url r))"

definition replay_line :: "int \<times> wire_record \<Rightarrow> string" where
  "replay_line e = jprint (replay_json (fst e) (snd e)) @ [CHR 0x0A]"

text \<open>
  The log that concurrent handlers share: a handler takes its number from the atomic counter and
  appends its line later, under the lock. \<open>rl_taken\<close> are the lines still to be appended.
\<close>

record replay_log =
  rl_file :: "string option"
  rl_seq :: int
  rl_taken :: "(int \<times> wire_record) list"
  rl_done :: "(int \<times> wire_record) list"

definition new_replay :: "string option \<Rightarrow> replay_log" where
  "new_replay file = \<lparr>rl_file = file, rl_seq = 0, rl_taken = [], rl_done = []\<rparr>"

text \<open>Taking a number: what \<open>write\<close> returns, and the log after it.\<close>

definition replay_take :: "wire_record \<Rightarrow> replay_log \<Rightarrow> int \<times> replay_log" where
  "replay_take r l =
     (case rl_file l of
        None \<Rightarrow> (-1, l)
      | Some f \<Rightarrow>
          (let seq = wrap64 (rl_seq l + 1) in (seq, l\<lparr>rl_seq := seq, rl_taken := rl_taken l @ [(seq, r)]\<rparr>)))"

definition replay_append :: "nat \<Rightarrow> replay_log \<Rightarrow> replay_log" where
  "replay_append i l =
     l\<lparr>rl_file := map_option (\<lambda>f. f @ replay_line (rl_taken l ! i)) (rl_file l),
       rl_taken := take i (rl_taken l) @ drop (Suc i) (rl_taken l), rl_done := rl_done l @ [rl_taken l ! i]\<rparr>"

inductive replay_step :: "replay_log \<Rightarrow> replay_log \<Rightarrow> bool" where
  take_number: "replay_step l (snd (replay_take r l))"
| append_line: "i < length (rl_taken l) \<Longrightarrow> replay_step l (replay_append i l)"

section \<open>The report to the collector\<close>

text \<open>\<open>%q\<close>: \<open>quote_rune\<close> writes a code point outside ASCII.\<close>

definition go_escape :: "char \<Rightarrow> string" where
  "go_escape c =
     (if c = CHR 0x22 \<or> c = CHR 0x5C then [CHR 0x5C, c]
      else if c = CHR 0x07 then [CHR 0x5C, CHR ''a'']
      else if c = CHR 0x08 then [CHR 0x5C, CHR ''b'']
      else if c = CHR 0x0C then [CHR 0x5C, CHR ''f'']
      else if c = CHR 0x0A then [CHR 0x5C, CHR ''n'']
      else if c = CHR 0x0D then [CHR 0x5C, CHR ''r'']
      else if c = CHR 0x09 then [CHR 0x5C, CHR ''t'']
      else if c = CHR 0x0B then [CHR 0x5C, CHR ''v'']
      else if 32 \<le> byte_val c \<and> byte_val c < 127 then [c]
      else [CHR 0x5C, CHR ''x'', hex_digit (byte_val c div 16), hex_digit (byte_val c mod 16)])"

function go_quote_text :: "(string \<Rightarrow> string) \<Rightarrow> string \<Rightarrow> string" where
  "go_quote_text quote_rune [] = []"
| "go_quote_text quote_rune (c # s) =
     (if rune_len (c # s) \<le> 1 then go_escape c @ go_quote_text quote_rune s
      else quote_rune (take (rune_len (c # s)) (c # s)) @ go_quote_text quote_rune (drop (rune_len (c # s) - 1) s))"
  by pat_completeness auto
termination
  by (relation "measure (\<lambda>(q, s). length s)") auto

definition go_quote :: "(string \<Rightarrow> string) \<Rightarrow> string \<Rightarrow> string" where
  "go_quote quote_rune s = [CHR 0x22] @ go_quote_text quote_rune s @ [CHR 0x22]"

definition session_mark :: "int \<Rightarrow> string" where
  "session_mark seq = (if seq \<ge> 0 then ''mitm#'' @ dec_int seq else ''mitm'')"

definition json_key :: "string \<Rightarrow> string" where
  "json_key n = [CHR 0x22] @ n @ [CHR 0x22, CHR '':'']"

definition witness_body :: "(string \<Rightarrow> string) \<Rightarrow> wire_config \<Rightarrow> wire_record \<Rightarrow> int \<Rightarrow> int \<Rightarrow> string" where
  "witness_body quote_rune cfg r bytes seq =
     ''{'' @ json_key ''physics'' @ [CHR 0x22] @ ''call'' @ [CHR 0x22]
     @ '','' @ json_key ''method'' @ go_quote quote_rune (wr_method r)
     @ '','' @ json_key ''url'' @ go_quote quote_rune (wr_url r)
     @ '','' @ json_key ''status'' @ dec_int (wr_status r)
     @ '','' @ json_key ''latency_us'' @ dec_int (wr_latency_us r)
     @ '','' @ json_key ''resp_bytes'' @ dec_int bytes
     @ '','' @ json_key ''actor'' @ go_quote quote_rune (wc_actor cfg)
     @ '','' @ json_key ''session'' @ go_quote quote_rune (session_mark seq) @ ''}''"

text \<open>The report of a call, when a collector is configured.\<close>

definition witness_post ::
  "(string \<Rightarrow> string option) \<Rightarrow> (string \<Rightarrow> string) \<Rightarrow> wire_config \<Rightarrow> wire_record \<Rightarrow> int \<Rightarrow> int \<Rightarrow> wire_request option"
where
  "witness_post url_err quote_rune cfg r bytes seq =
     (if wc_witness cfg = [] then None
      else
        (case new_request url_err ''POST'' (wc_witness cfg @ ''/witnessed'') (witness_body quote_rune cfg r bytes seq) of
           Inl e \<Rightarrow> None
         | Inr q \<Rightarrow>
             Some (q\<lparr>wq_headers := header_set ''X-8-Actor'' (wc_actor cfg)
               (header_set ''Content-Type'' ''application/json'' (wq_headers q))\<rparr>)))"


section \<open>Properties of the capture\<close>

lemma read_peek_spec:
  "fst (read_peek n cs) = take n (concat cs) \<and> fst (read_peek n cs) @ concat (snd (read_peek n cs)) = concat cs"
  by (induction n cs rule: read_peek.induct) (auto split: prod.splits)

definition reader_text :: "reader \<Rightarrow> string" where
  "reader_text r = concat (fst r)"

lemma tee_spec:
  "fst (tee r) = take body_cap (reader_text r)" "reader_text (snd (tee r)) = reader_text r"
  "snd (snd (tee r)) = snd r"
  using read_peek_spec [of body_cap "fst r"] by (auto simp: tee_def reader_text_def split: prod.splits)

definition same_body :: "reader option \<Rightarrow> reader option \<Rightarrow> bool" where
  "same_body a b \<longleftrightarrow>
     map_option (\<lambda>r. (reader_text r, snd r)) a = map_option (\<lambda>r. (reader_text r, snd r)) b"

definition captured :: "reader option \<Rightarrow> string" where
  "captured b = (case b of None \<Rightarrow> [] | Some r \<Rightarrow> take body_cap (reader_text r))"

lemma tee_body_spec: "fst (tee_body b) = captured b" "same_body (snd (tee_body b)) b"
  by (auto simp: tee_body_def captured_def same_body_def tee_spec split: option.splits prod.splits)
    (use tee_spec in \<open>metis fst_conv snd_conv\<close>)+


definition demo_config :: wire_config where
  "demo_config = \<lparr>wc_scheme = ''https'', wc_host = ''hub'', wc_user = Some (''u'', Some ''k''),
     wc_witness = ''http://c'', wc_actor = ''wire-mitm''\<rparr>"

definition demo_inbound :: inbound where
  "demo_inbound = \<lparr>in_method = ''POST'', in_path = ''/wd'', in_query = ''token=abc'', in_header = [],
     in_host = ''localhost'', in_body = Some ([''ab'', ''c''], None)\<rparr>"

definition demo_proxy :: "nat \<Rightarrow> inbound \<Rightarrow> answer option \<times> nat" where
  "demo_proxy n rq = (Some \<lparr>an_status = 404, an_length = 2, an_body = Some ([''x'', ''y''], None)\<rparr>, Suc n)"


text \<open>
  C35. Whatever a call is, the texts that its record keeps are redacted for good, and the URL does not
  depend on the value of a secret parameter of the query.
\<close>

theorem record_redacted:
  assumes "handle_call cfg orig proxy host_buf ts latency req w = (r, bytes, rep, w')"
  shows "redact (wr_url r) = wr_url r \<and> redact (wr_req_body r) = wr_req_body r
    \<and> redact (wr_resp_body r) = wr_resp_body r
    \<and> (\<forall>a n v v' t r2 bytes2 rep2 w2. is_secret_name n \<and> v \<noteq> [] \<and> v' \<noteq> [] \<and> CHR ''&'' \<notin> set (v @ v')
         \<and> (t = [] \<or> hd t = CHR ''&'') \<and> in_query req = a @ n @ ''='' @ v @ t
         \<and> handle_call cfg orig proxy host_buf ts latency (req\<lparr>in_query := a @ n @ ''='' @ v' @ t\<rparr>) w
             = (r2, bytes2, rep2, w2)
         \<longrightarrow> wr_url r2 = wr_url r)"
proof -
  have u: "wr_url r = redact (witnessed_url cfg req)"
    and f: "redact (wr_url r) = wr_url r \<and> redact (wr_req_body r) = wr_req_body r \<and> redact (wr_resp_body r) = wr_resp_body r"
    using assms by (auto simp: handle_call_def redact_idempotent split: prod.splits)
  have "wr_url r2 = wr_url r"
    if n: "is_secret_name n" "v \<noteq> []" "v' \<noteq> []" "CHR ''&'' \<notin> set (v @ v')" "t = [] \<or> hd t = CHR ''&''"
      and q: "in_query req = a @ n @ ''='' @ v @ t"
      and h: "handle_call cfg orig proxy host_buf ts latency (req\<lparr>in_query := a @ n @ ''='' @ v' @ t\<rparr>) w
        = (r2, bytes2, rep2, w2)" for a n v v' t r2 bytes2 rep2 w2
  proof -
    have "wr_url r2 = redact (witnessed_url cfg (req\<lparr>in_query := a @ n @ ''='' @ v' @ t\<rparr>))"
      using h by (auto simp: handle_call_def split: prod.splits)
    moreover have "full_path (req\<lparr>in_query := a @ n @ ''='' @ v' @ t\<rparr>) = full_path req"
      using redact_value_indep [OF n, of a] q by (simp add: full_path_def)
    ultimately show ?thesis using u by (simp add: witnessed_url_def)
  qed
  with f show ?thesis by blast
qed

theorem record_redacted_witness:
  "\<exists>r bytes rep w'. handle_call demo_config id demo_proxy [] ''t'' 5 demo_inbound 0 = (r, bytes, rep, w')
     \<and> redact (wr_url r) = wr_url r"
proof -
  obtain r bytes rep w where h: "handle_call demo_config id demo_proxy [] ''t'' 5 demo_inbound 0 = (r, bytes, rep, w)"
    by (metis prod_cases4)
  from record_redacted [OF h] h show ?thesis by blast
qed

section \<open>Properties of the replay log\<close>

text \<open>
  The numbers of the lines taken and appended so far are all different, and they are \<open>1\<close> to the
  counter, as long as fewer than \<open>2 ^ 63\<close> were taken; the file is the appended lines.
\<close>

definition numbers :: "replay_log \<Rightarrow> int list" where
  "numbers l = map fst (rl_done l @ rl_taken l)"

definition replay_inv :: "string option \<Rightarrow> replay_log \<Rightarrow> bool" where
  "replay_inv file l \<longleftrightarrow>
     rl_file l = map_option (\<lambda>f. f @ concat (map replay_line (rl_done l))) file
     \<and> (file = None \<longrightarrow> rl_done l = [] \<and> rl_taken l = [])
     \<and> (int (length (numbers l)) < 2 ^ 63 \<longrightarrow>
          rl_seq l = int (length (numbers l)) \<and> distinct (numbers l) \<and> set (numbers l) = {1..rl_seq l})"

lemma replay_inv_take:
  assumes "replay_inv file l"
  shows "replay_inv file (snd (replay_take r l))"
proof (cases "rl_file l")
  case (Some f)
  let ?l = "snd (replay_take r l)"
  have n: "numbers ?l = numbers l @ [wrap64 (rl_seq l + 1)]" and fl: "rl_file ?l = rl_file l" "rl_done ?l = rl_done l"
    and sq: "rl_seq ?l = wrap64 (rl_seq l + 1)"
    using Some by (simp_all add: replay_take_def numbers_def Let_def)
  have "file \<noteq> None" using assms Some by (cases "file") (auto simp: replay_inv_def)
  moreover have "rl_seq ?l = int (length (numbers ?l)) \<and> distinct (numbers ?l) \<and> set (numbers ?l) = {1..rl_seq ?l}"
    if "int (length (numbers ?l)) < 2 ^ 63"
  proof -
    have i: "rl_seq l = int (length (numbers l))" "distinct (numbers l)" "set (numbers l) = {1..rl_seq l}"
      using assms that n by (auto simp: replay_inv_def)
    have w: "wrap64 (rl_seq l + 1) = rl_seq l + 1" using i(1) that n by (intro wrap64_id) auto
    show ?thesis using i w n sq by auto
  qed
  ultimately show ?thesis using assms fl unfolding replay_inv_def by auto
qed (use assms in \<open>simp add: replay_take_def\<close>)

lemma mset_remove_nth: "i < length xs \<Longrightarrow> mset (take i xs @ drop (Suc i) xs) + {#xs ! i#} = mset xs"
  by (metis add_mset_add_single append_take_drop_id Cons_nth_drop_Suc mset.simps(2) mset_append union_mset_add_mset_right)

lemma replay_inv_append:
  assumes "replay_inv file l" and "i < length (rl_taken l)"
  shows "replay_inv file (replay_append i l)"
proof -
  let ?l = "replay_append i l"
  have "mset (numbers ?l) = mset (numbers l)"
  proof -
    have "mset (rl_done ?l @ rl_taken ?l) = mset (rl_done l @ rl_taken l)"
      using mset_remove_nth [OF assms(2)] by (simp add: replay_append_def)
    then show ?thesis unfolding numbers_def by (metis mset_map)
  qed
  then have n: "length (numbers ?l) = length (numbers l)" "distinct (numbers ?l) = distinct (numbers l)"
    "set (numbers ?l) = set (numbers l)"
    by (metis mset_eq_length, metis mset_eq_imp_distinct_iff, metis mset_eq_setD)
  then show ?thesis
    using assms unfolding replay_inv_def n by (auto simp: replay_append_def map_option_case split: option.splits)
qed

lemma replay_step_inv: "replay_step l l' \<Longrightarrow> replay_inv file l \<Longrightarrow> replay_inv file l'"
  by (induction rule: replay_step.induct) (simp_all add: replay_inv_take replay_inv_append)

interpretation replay_machine: machine "\<lambda>l. l = new_replay init" replay_step "replay_inv init" for init
proof unfold_locales
  fix l l' and init :: "string option"
  show "l = new_replay init \<Longrightarrow> replay_inv init l"
    by (cases init) (simp_all add: replay_inv_def new_replay_def numbers_def)
  show "replay_inv init l \<Longrightarrow> replay_step l l' \<Longrightarrow> replay_inv init l'" by (rule replay_step_inv)
qed

definition replay_reachable :: "string option \<Rightarrow> replay_log \<Rightarrow> bool" where
  "replay_reachable file l \<longleftrightarrow> replay_step\<^sup>*\<^sup>* (new_replay file) l"

text \<open>
  C18. However the handlers interleave, the log only grows by whole lines, every line has a number of
  its own, and when no line is outstanding the numbers are exactly those that were handed out: each
  report can be joined with its line. (Fewer than \<open>2 ^ 63\<close> calls; with no file, nothing is kept.)
\<close>

theorem replay_joinable:
  assumes "replay_reachable file l" and "int (length (rl_done l @ rl_taken l)) < 2 ^ 63"
  shows "rl_file l = map_option (\<lambda>f. f @ concat (map replay_line (rl_done l))) file
    \<and> distinct (map fst (rl_done l @ rl_taken l))
    \<and> (rl_taken l = [] \<longrightarrow> set (map fst (rl_done l)) = {1..rl_seq l})
    \<and> (file \<noteq> None \<longrightarrow> (\<forall>r. fst (replay_take r l) \<notin> set (map fst (rl_done l @ rl_taken l))))"
proof -
  have i: "replay_inv file l"
    using assms(1) unfolding replay_reachable_def by (rule replay_machine.reachable_inv [OF refl])
  then have n: "rl_seq l = int (length (numbers l))" "distinct (numbers l)" "set (numbers l) = {1..rl_seq l}"
    using assms(2) by (auto simp: replay_inv_def numbers_def)
  have "fst (replay_take r l) \<notin> set (numbers l)" if given: "file \<noteq> None" for r
  proof -
    obtain f0 where "file = Some f0" using given by (cases "file") auto
    then obtain f where f: "rl_file l = Some f" using i by (auto simp: replay_inv_def)
    have "wrap64 (rl_seq l + 1) \<notin> {1..rl_seq l}"
    proof (cases "rl_seq l + 1 < 2 ^ 63")
      case True
      then have "wrap64 (rl_seq l + 1) = rl_seq l + 1" using n(1) by (intro wrap64_id) auto
      then show ?thesis by simp
    next
      case False
      then have "rl_seq l + 1 = 2 ^ 63" using n(1) assms(2) by (simp add: numbers_def)
      then show ?thesis by (simp add: wrap64_def)
    qed
    then show ?thesis using f n(3) by (simp add: replay_take_def Let_def)
  qed
  moreover have "rl_taken l = [] \<Longrightarrow> set (map fst (rl_done l)) = {1..rl_seq l}"
    using n(3) by (simp add: numbers_def)
  moreover have "rl_file l = map_option (\<lambda>f. f @ concat (map replay_line (rl_done l))) file"
    using i by (simp add: replay_inv_def)
  ultimately show ?thesis using n(2) unfolding numbers_def by blast
qed


text \<open>Two handlers take their numbers in one order and append their lines in the other.\<close>

definition demo_record :: wire_record where
  "demo_record = \<lparr>wr_ts = [], wr_method = ''GET'', wr_url = ''u'', wr_req_body = [], wr_resp_body = [],
     wr_status = 200, wr_latency_us = 1\<rparr>"

definition demo_replay :: replay_log where
  "demo_replay = replay_append 1 (snd (replay_take demo_record (snd (replay_take demo_record (new_replay (Some []))))))"

theorem replay_joinable_witness:
  "replay_reachable (Some []) demo_replay \<and> map fst (rl_done demo_replay) = [2] \<and> map fst (rl_taken demo_replay) = [1]
   \<and> rl_file demo_replay = Some (replay_line (2, demo_record))"
proof -
  let ?a = "snd (replay_take demo_record (new_replay (Some [])))"
  let ?b = "snd (replay_take demo_record ?a)"
  have f: "rl_taken ?b = [(1, demo_record), (2, demo_record)]" "rl_done ?b = []"
    by (simp_all add: replay_take_def new_replay_def wrap64_def)
  have "replay_step ?b demo_replay" unfolding demo_replay_def by (rule append_line) (simp add: f)
  then have r: "replay_reachable (Some []) demo_replay" unfolding replay_reachable_def
    by (meson rtranclp.rtrancl_into_rtrancl rtranclp.rtrancl_refl take_number)
  have d: "rl_done demo_replay = [(2, demo_record)]" "rl_taken demo_replay = [(1, demo_record)]"
    by (simp_all add: demo_replay_def replay_append_def f)
  from replay_joinable [OF r] d r show ?thesis by simp
qed

section \<open>Properties of the report\<close>

definition printable_ascii :: "string \<Rightarrow> bool" where
  "printable_ascii s \<longleftrightarrow> list_all (\<lambda>c. 32 \<le> byte_val c \<and> byte_val c < 127) s"

lemma rune_len_printable: "byte_val c < 128 \<Longrightarrow> rune_len (c # s) = 1"
  by (simp add: rune_len_def rune_need_def)

lemma go_quote_ascii:
  "printable_ascii s \<Longrightarrow> raw_ok (go_quote_text q s) \<and> unquote_text (go_quote_text q s) = s"
proof (induction s)
  case (Cons c s)
  have c: "32 \<le> byte_val c" "byte_val c < 127" using Cons.prems by (auto simp: printable_ascii_def)
  then have r: "rune_len (c # s) = 1" by (intro rune_len_printable) simp
  have IH: "raw_ok (go_quote_text q s)" "unquote_text (go_quote_text q s) = s"
    using Cons by (auto simp: printable_ascii_def)
  show ?case
  proof (cases "c = CHR 0x22 \<or> c = CHR 0x5C")
    case True
    then show ?thesis
    proof
      assume "c = CHR 0x22"
      with r IH show ?thesis by (simp add: go_escape_def simple_escape_def simple_unescape_def)
    next
      assume "c = CHR 0x5C"
      with r IH show ?thesis by (simp add: go_escape_def simple_escape_def simple_unescape_def)
    qed
  next
    case False
    have "c \<noteq> CHR 0x07" "c \<noteq> CHR 0x08" "c \<noteq> CHR 0x0C" "c \<noteq> CHR 0x0A" "c \<noteq> CHR 0x0D" "c \<noteq> CHR 0x09" "c \<noteq> CHR 0x0B"
      using c(1) by (auto simp: byte_val_def)
    then have "go_escape c = [c]" using c False by (simp add: go_escape_def)
    then show ?thesis using r IH False c by (simp add: rune_len_printable)
  qed
qed simp

text \<open>
  For printable ASCII the hand-written report is a JSON document: it parses, and its members are
  the method, the URL, the numbers, the actor and the key that joins it with its replay line.
\<close>

theorem witness_body_parses:
  assumes "printable_ascii (wr_method r)" and "printable_ascii (wr_url r)" and "printable_ascii (wc_actor cfg)"
  shows "\<exists>m u a s. parse_json (witness_body q cfg r bytes seq)
      = Some (JObj [(''physics'', JStr ''call''), (''method'', JStr m), (''url'', JStr u),
          (''status'', jint (wr_status r)), (''latency_us'', jint (wr_latency_us r)),
          (''resp_bytes'', jint bytes), (''actor'', JStr a), (''session'', JStr s)])
    \<and> unquote_text m = wr_method r \<and> unquote_text u = wr_url r \<and> unquote_text a = wc_actor cfg
    \<and> unquote_text s = session_mark seq"
proof -
  let ?g = "go_quote_text q"
  let ?j = "JObj [(''physics'', JStr ''call''), (''method'', JStr (?g (wr_method r))), (''url'', JStr (?g (wr_url r))),
          (''status'', jint (wr_status r)), (''latency_us'', jint (wr_latency_us r)),
          (''resp_bytes'', jint bytes), (''actor'', JStr (?g (wc_actor cfg))), (''session'', JStr (?g (session_mark seq)))]"
  have s: "printable_ascii (session_mark seq)"
  proof -
    have d: "32 \<le> byte_val c \<and> byte_val c < 127" if "is_digit c" for c using that by (simp add: is_digit_def)
    have "printable_ascii (dec_nat n)" for n
      using dec_nat_digits [of n] d by (auto simp: printable_ascii_def list_all_iff)
    moreover have "printable_ascii ''mitm#''" "printable_ascii ''mitm''" by code_simp+
    ultimately show ?thesis by (simp add: session_mark_def dec_int_def printable_ascii_def)
  qed
  note ok = go_quote_ascii [OF assms(1), of q] go_quote_ascii [OF assms(2), of q] go_quote_ascii [OF assms(3), of q]
    go_quote_ascii [OF s, of q]
  have n: "raw_ok ''physics'' \<and> raw_ok ''call'' \<and> raw_ok ''method'' \<and> raw_ok ''url'' \<and> raw_ok ''status''
    \<and> raw_ok ''latency_us'' \<and> raw_ok ''resp_bytes'' \<and> raw_ok ''actor'' \<and> raw_ok ''session''" by code_simp
  have "witness_body q cfg r bytes seq = jprint ?j"
    by (simp add: witness_body_def json_key_def go_quote_def jquote_def jint_def)
  moreover have "jwf ?j" using n ok by (simp del: raw_ok.simps)
  moreover have "jdepth ?j \<le> max_depth" by (simp add: max_depth_def)
  ultimately have "parse_json (witness_body q cfg r bytes seq) = Some ?j" using parse_jprint [of ?j] by metis
  then show ?thesis using ok by (intro exI conjI) auto
qed

theorem witness_body_parses_witness:
  "\<exists>j. parse_json (witness_body (\<lambda>s. s) demo_config (demo_record\<lparr>wr_url := [CHR 0x22, CHR 0x5C]\<rparr>) 2 7) = Some j"
proof -
  have "printable_ascii (wr_method demo_record)" "printable_ascii (wr_url (demo_record\<lparr>wr_url := [CHR 0x22, CHR 0x5C]\<rparr>))"
    "printable_ascii (wc_actor demo_config)" by code_simp+
  with witness_body_parses [of "demo_record\<lparr>wr_url := [CHR 0x22, CHR 0x5C]\<rparr>" demo_config "\<lambda>s. s" 2 7]
  show ?thesis by (auto simp: demo_record_def)
qed

text \<open>
  A control byte in the URL is written as \<open>\a\<close>, which is no escape of JSON: the report of the
  call does not parse.
\<close>

theorem witness_body_bell:
  "parse_json (witness_body q (demo_config\<lparr>wc_actor := []\<rparr>) (demo_record\<lparr>wr_url := [CHR 0x07]\<rparr>) 0 (-1)) = None"
  by code_simp

end
