(* ===== verification/Url_Query.thy ===== *)
theory Url_Query
  imports Json_Struct
begin

text \<open>
  The query of a URL as \<open>net/url\<close> reads and writes it (\<open>ParseQuery\<close>, \<open>Values.Get\<close>, \<open>Values.Set\<close>,
  \<open>Values.Encode\<close>), which \<open>applyChannelAuth\<close> of \<open>cmd/mcp/main.go\<close> goes through. A Go map of lists
  is an association list in the order of its keys, the order in which \<open>Encode\<close> writes it.
\<close>

section \<open>Escapes\<close>

definition unreserved :: "char \<Rightarrow> bool" where
  "unreserved c \<longleftrightarrow>
     (let n = byte_val c
      in 48 \<le> n \<and> n \<le> 57 \<or> 65 \<le> n \<and> n \<le> 90 \<or> 97 \<le> n \<and> n \<le> 122 \<or> c \<in> set ''-_.~'')"

definition upper_hex :: "nat \<Rightarrow> char" where
  "upper_hex n = char_of (if n < 10 then 48 + n else 55 + n)"

definition escape_byte :: "char \<Rightarrow> string" where
  "escape_byte c =
     (if unreserved c then [c]
      else if c = CHR '' '' then ''+''
      else [CHR ''%'', upper_hex (byte_val c div 16), upper_hex (byte_val c mod 16)])"

definition query_escape :: "string \<Rightarrow> string" where
  "query_escape s = concat (map escape_byte s)"

text \<open>\<open>QueryUnescape\<close>: \<open>None\<close> for a percent sign without two hexadecimal digits.\<close>

fun query_unescape :: "string \<Rightarrow> string option" where
  "query_unescape [] = Some []"
| "query_unescape (c # s) =
     (if c = CHR ''%'' then
        (case s of
           h # l # r \<Rightarrow>
             (if is_hex h \<and> is_hex l
              then map_option (\<lambda>t. char_of (16 * hex_value h + hex_value l) # t) (query_unescape r) else None)
         | _ \<Rightarrow> None)
      else map_option (\<lambda>t. (if c = CHR ''+'' then CHR '' '' else c) # t) (query_unescape s))"

section \<open>Values\<close>

type_synonym query = "(string \<times> string list) list"

definition query_all :: "query \<Rightarrow> string \<Rightarrow> string list" where
  "query_all q k = (case map_of q k of Some vs \<Rightarrow> vs | None \<Rightarrow> [])"

definition query_get :: "query \<Rightarrow> string \<Rightarrow> string" where
  "query_get q k = (case query_all q k of [] \<Rightarrow> [] | v # vs \<Rightarrow> v)"

definition query_set :: "string \<Rightarrow> string \<Rightarrow> query \<Rightarrow> query" where
  "query_set k v q = smap_put k [v] q"

definition query_add :: "string \<Rightarrow> string \<Rightarrow> query \<Rightarrow> query" where
  "query_add k v q = smap_put k (query_all q k @ [v]) q"

text \<open>One piece of the query; a piece with a semicolon or a bad escape is left out.\<close>

definition add_piece :: "string \<Rightarrow> query \<Rightarrow> query" where
  "add_piece p q =
     (if p = [] \<or> CHR '';'' \<in> set p then q
      else
        (case (query_unescape (takeWhile (\<lambda>c. c \<noteq> CHR ''='') p),
               query_unescape (drop 1 (dropWhile (\<lambda>c. c \<noteq> CHR ''='') p))) of
           (Some k, Some v) \<Rightarrow> query_add k v q
         | _ \<Rightarrow> q))"

definition parse_query :: "string \<Rightarrow> query" where
  "parse_query s = fold add_piece (split_byte s (CHR ''&'')) []"

definition pair_text :: "string \<Rightarrow> string \<Rightarrow> string" where
  "pair_text k v = query_escape k @ ''='' @ query_escape v"

definition encode_query :: "query \<Rightarrow> string" where
  "encode_query q = join_byte (concat (map (\<lambda>(k, vs). map (pair_text k) vs) q)) (CHR ''&'')"

section \<open>Properties\<close>

lemma upper_hex_table: "list_all (\<lambda>n. is_hex (upper_hex n) \<and> hex_value (upper_hex n) = n) [0..<16]"
  by code_simp

lemma upper_hex [simp]: "n < 16 \<Longrightarrow> is_hex (upper_hex n)" "n < 16 \<Longrightarrow> hex_value (upper_hex n) = n"
  using upper_hex_table by (auto simp: list_all_iff)

lemma byte_val_bound: "byte_val c < 256"
  by simp

lemma query_unescape_byte: "query_unescape (escape_byte c @ s) = map_option (\<lambda>t. c # t) (query_unescape s)"
proof -
  have "byte_val c div 16 < 16" using byte_val_bound [of c] by linarith
  moreover have "char_of (16 * (byte_val c div 16) + byte_val c mod 16) = c" by simp
  moreover have "\<not> unreserved (CHR ''%'')" "\<not> unreserved (CHR ''+'')" by code_simp+
  ultimately show ?thesis by (auto simp: escape_byte_def)
qed

lemma query_unescape_escape [simp]: "query_unescape (query_escape s) = Some s"
  by (induction s) (simp_all add: query_escape_def query_unescape_byte)

lemma upper_hex_safe: "n < 16 \<Longrightarrow> upper_hex n \<notin> {CHR ''&'', CHR ''='', CHR '';''}"
proof -
  have "list_all (\<lambda>n. upper_hex n \<notin> {CHR ''&'', CHR ''='', CHR '';''}) [0..<16]" by code_simp
  then show "n < 16 \<Longrightarrow> upper_hex n \<notin> {CHR ''&'', CHR ''='', CHR '';''}" by (simp only: list_all_iff) auto
qed

lemma escape_byte_safe: "set (escape_byte c) \<inter> {CHR ''&'', CHR ''='', CHR '';''} = {}"
proof -
  have "byte_val c div 16 < 16" using byte_val_bound [of c] by linarith
  moreover have "\<not> unreserved (CHR ''&'')" "\<not> unreserved (CHR ''='')" "\<not> unreserved (CHR '';'')" by code_simp+
  ultimately show ?thesis
    using upper_hex_safe [of "byte_val c div 16"] upper_hex_safe [of "byte_val c mod 16"]
    by (auto simp: escape_byte_def)
qed

lemma query_escape_safe: "CHR ''&'' \<notin> set (query_escape s)" "CHR ''='' \<notin> set (query_escape s)" "CHR '';'' \<notin> set (query_escape s)"
  using escape_byte_safe by (fastforce simp: query_escape_def)+

lemma add_pair_text: "add_piece (pair_text k v) q = query_add k v q"
proof -
  have "takeWhile (\<lambda>c. c \<noteq> CHR ''='') (pair_text k v) = query_escape k"
    "dropWhile (\<lambda>c. c \<noteq> CHR ''='') (pair_text k v) = ''='' @ query_escape v"
    using query_escape_safe(2) [of k] by (auto simp: pair_text_def takeWhile_append dropWhile_append)
  moreover have "CHR '';'' \<notin> set (pair_text k v)" "pair_text k v \<noteq> []"
    using query_escape_safe(3) by (auto simp: pair_text_def)
  ultimately show ?thesis by (simp add: add_piece_def)
qed

lemma smap_put_at_end: "\<forall>p \<in> set a. fst p < k \<Longrightarrow> smap_put k x (a @ [(k, y)]) = a @ [(k, x)]"
  by (induction a) auto

lemma fold_add_key:
  assumes "\<forall>p \<in> set a. fst p < k"
  shows "fold add_piece (map (pair_text k) vs) (a @ [(k, us)]) = a @ [(k, us @ vs)]"
proof (induction vs arbitrary: us)
  case (Cons v vs)
  have "k \<notin> fst ` set a" using assms by auto
  then have "map_of (a @ [(k, us)]) k = Some us" by (simp add: map_add_def map_of_eq_None_iff [THEN iffD2])
  then show ?case using Cons.IH assms by (simp add: add_pair_text query_add_def query_all_def smap_put_at_end)
qed simp

definition query_ok :: "query \<Rightarrow> bool" where
  "query_ok q \<longleftrightarrow> smap_sorted q \<and> (\<forall>e \<in> set q. snd e \<noteq> [])"

lemma fold_add_query:
  assumes "smap_sorted (a @ q)" and "\<forall>e \<in> set q. snd e \<noteq> []"
  shows "fold add_piece (concat (map (\<lambda>(k, vs). map (pair_text k) vs) q)) a = a @ q"
  using assms
proof (induction q arbitrary: a)
  case (Cons e q)
  obtain k v vs where e: "e = (k, v # vs)" using Cons.prems(2) by (cases e; cases "snd e") auto
  have less: "\<forall>p \<in> set a. fst p < k"
    using Cons.prems(1) e by (auto simp: smap_sorted_def sorted_wrt_append)
  then have "k \<notin> fst ` set a" by auto
  then have "add_piece (pair_text k v) a = a @ [(k, [v])]"
    using smap_put_last [OF less] by (simp add: add_pair_text query_add_def query_all_def map_of_eq_None_iff [THEN iffD2])
  then show ?case using Cons.IH [of "a @ [e]"] Cons.prems fold_add_key [OF less, of vs "[v]"] e by simp
qed simp

text \<open>What \<open>Encode\<close> writes is read back.\<close>

theorem query_roundtrip:
  assumes "query_ok q"
  shows "parse_query (encode_query q) = q"
proof (cases "concat (map (\<lambda>(k, vs). map (pair_text k) vs) q) = []")
  case True
  then have "q = []" using assms by (cases q) (auto simp: query_ok_def)
  then show ?thesis by (simp add: parse_query_def encode_query_def add_piece_def)
next
  case False
  have "CHR ''&'' \<notin> set p" if "p \<in> set (concat (map (\<lambda>(k, vs). map (pair_text k) vs) q))" for p
    using that query_escape_safe(1) by (auto simp: pair_text_def)
  from split_join_byte [OF False this] fold_add_query [of "[]" q] assms show ?thesis
    by (simp add: parse_query_def encode_query_def query_ok_def)
qed

lemma smap_put_values: "set (smap_put k v m) \<subseteq> insert (k, v) (set m)"
  by (induction m) (auto split: if_splits)

lemma query_put_ok: "query_ok q \<Longrightarrow> vs \<noteq> [] \<Longrightarrow> query_ok (smap_put k vs q)"
  using smap_put_values [of k vs q] by (auto simp: query_ok_def smap_put_sorted)

lemma add_piece_ok: "query_ok q \<Longrightarrow> query_ok (add_piece p q)"
  by (simp add: add_piece_def query_add_def query_put_ok split: option.splits)

lemma parse_query_ok: "query_ok (parse_query s)"
proof -
  have "query_ok (fold add_piece ps q)" if "query_ok q" for ps q
    using that by (induction ps arbitrary: q) (simp_all add: add_piece_ok)
  moreover have "query_ok []" by (simp add: query_ok_def smap_sorted_def)
  ultimately show ?thesis unfolding parse_query_def .
qed

end
