(* ===== verification/Value.thy ===== *)
theory Value
  imports Json_Indent Json_Struct
begin

text \<open>
  The dynamic values of \<open>cmd/mcp\<close>: what Go's \<open>any\<close> holds after \<open>json.Unmarshal\<close> and what
  \<open>json.Marshal\<close> writes of it. A Go map is an association list in the order of its keys. A number is
  a \<open>float64\<close>; it is kept as the text that \<open>Marshal\<close> writes for it, and the conversion of a literal
  (\<open>strconv\<close>) is the parameter \<open>num\<close>, \<open>None\<close> when it is out of range.
\<close>

section \<open>Dictionaries\<close>

text \<open>The laws of a map from strings, and what a run of insertions gives.\<close>

locale dict =
  fixes put :: "string \<Rightarrow> 'v \<Rightarrow> 'd \<Rightarrow> 'd" and get :: "'d \<Rightarrow> string \<Rightarrow> 'v option"
    and ok :: "'d \<Rightarrow> bool" and none :: 'd
  assumes none_ok: "ok none" and get_none: "get none k = None"
    and put_ok: "ok d \<Longrightarrow> ok (put k v d)"
    and get_put: "ok d \<Longrightarrow> get (put k v d) = (get d)(k \<mapsto> v)"
begin

lemma fold_put_ok: "ok d \<Longrightarrow> ok (fold (\<lambda>(k, v). put k v) kvs d)"
  by (induction kvs arbitrary: d) (auto simp: put_ok)

lemma get_fold_put: "ok d \<Longrightarrow> get (fold (\<lambda>(k, v). put k v) kvs d) = get d ++ map_of (rev kvs)"
  by (induction kvs arbitrary: d) (auto simp: put_ok get_put map_add_def fun_eq_iff split: option.splits)

lemma get_build: "get (fold (\<lambda>(k, v). put k v) kvs none) = map_of (rev kvs)"
  using get_fold_put [OF none_ok] by (simp add: get_none map_add_def fun_eq_iff split: option.splits)

end

interpretation go_map: dict smap_put map_of smap_sorted "[]"
  by unfold_locales (simp_all add: smap_sorted_def [of "[]"] smap_put_sorted map_of_smap_put)

section \<open>Values\<close>

datatype go_value =
    VNull
  | VBool bool
  | VNum string
  | VStr string
  | VList "go_value list"
  | VMap "(string \<times> go_value) list"

text \<open>\<open>json.Unmarshal\<close> into an \<open>any\<close>: of two members with one name the last wins.\<close>

fun value_of :: "(string \<Rightarrow> string option) \<Rightarrow> json \<Rightarrow> go_value option"
and values_of :: "(string \<Rightarrow> string option) \<Rightarrow> json list \<Rightarrow> go_value list option"
and members_of ::
  "(string \<Rightarrow> string option) \<Rightarrow> (string \<times> json) list \<Rightarrow> (string \<times> go_value) list \<Rightarrow> (string \<times> go_value) list option"
where
  "value_of num JNull = Some VNull"
| "value_of num (JBool b) = Some (VBool b)"
| "value_of num (JNum l) = map_option VNum (num l)"
| "value_of num (JStr r) = Some (VStr (unquote_text r))"
| "value_of num (JArr js) = map_option VList (values_of num js)"
| "value_of num (JObj ms) = map_option VMap (members_of num ms [])"
| "values_of num [] = Some []"
| "values_of num (j # js) =
     (case value_of num j of None \<Rightarrow> None | Some v \<Rightarrow> map_option (\<lambda>vs. v # vs) (values_of num js))"
| "members_of num [] m = Some m"
| "members_of num (kv # ms) m =
     (case value_of num (snd kv) of
        None \<Rightarrow> None
      | Some v \<Rightarrow> members_of num ms (smap_put (unquote_text (fst kv)) v m))"

definition parse_value :: "(string \<Rightarrow> string option) \<Rightarrow> string \<Rightarrow> go_value option" where
  "parse_value num s = Option.bind (parse_json s) (value_of num)"

text \<open>\<open>json.Marshal\<close> and \<open>json.MarshalIndent\<close> of a value.\<close>

fun value_json :: "go_value \<Rightarrow> json" where
  "value_json VNull = JNull"
| "value_json (VBool b) = JBool b"
| "value_json (VNum t) = JNum t"
| "value_json (VStr s) = jstring s"
| "value_json (VList vs) = JArr (map value_json vs)"
| "value_json (VMap ms) = JObj (map (\<lambda>m. (quote_text (fst m), value_json (snd m))) ms)"

definition marshal_value :: "go_value \<Rightarrow> string" where
  "marshal_value v = jprint (value_json v)"

definition marshal_indent :: "go_value \<Rightarrow> string" where
  "marshal_indent v = jindent 0 (value_json v)"

section \<open>Round trips\<close>

text \<open>Values that a document can have given: Go maps, valid texts, numbers as \<open>Marshal\<close> writes them.\<close>

fun value_ok :: "(string \<Rightarrow> string option) \<Rightarrow> go_value \<Rightarrow> bool" where
  "value_ok num (VNum t) \<longleftrightarrow> num_ok t \<and> num t = Some t"
| "value_ok num (VStr s) \<longleftrightarrow> valid_utf8 s"
| "value_ok num (VList vs) \<longleftrightarrow> list_all (value_ok num) vs"
| "value_ok num (VMap ms) \<longleftrightarrow> smap_sorted ms \<and> list_all (\<lambda>m. valid_utf8 (fst m) \<and> value_ok num (snd m)) ms"
| "value_ok num _ \<longleftrightarrow> True"

fun value_depth :: "go_value \<Rightarrow> nat" where
  "value_depth (VList vs) = Suc (Max (insert 0 (value_depth ` set vs)))"
| "value_depth (VMap ms) = Suc (Max (insert 0 ((\<lambda>m. value_depth (snd m)) ` set ms)))"
| "value_depth _ = 0"

lemma value_json_depth [simp]: "jdepth (value_json v) = value_depth v"
  by (induction v rule: value_json.induct) (simp_all add: image_image jstring_def)

lemma value_json_wf: "value_ok num v \<Longrightarrow> jwf (value_json v)"
  by (induction num v rule: value_ok.induct) (auto simp: list_all_iff jstring_def)

lemma members_of_sorted:
  assumes "smap_sorted (a @ ms)" and "list_all (\<lambda>m. valid_utf8 (fst m)) ms"
    and "\<And>m. m \<in> set ms \<Longrightarrow> value_of num (value_json (snd m)) = Some (snd m)"
  shows "members_of num (map (\<lambda>m. (quote_text (fst m), value_json (snd m))) ms) a = Some (a @ ms)"
  using assms
proof (induction ms arbitrary: a)
  case (Cons m ms)
  have "\<forall>q \<in> set a. fst q < fst m"
    using Cons.prems(1) by (auto simp: smap_sorted_def sorted_wrt_append)
  then have "smap_put (fst m) (snd m) a = a @ [m]" using smap_put_last [of a "fst m" "snd m"] by simp
  then show ?case using Cons.IH [of "a @ [m]"] Cons.prems by (simp add: unquote_quote)
qed simp

lemma value_of_json: "value_ok num v \<Longrightarrow> value_of num (value_json v) = Some v"
proof (induction num v rule: value_ok.induct)
  case (3 num vs)
  then have "values_of num (map value_json vs) = Some vs" by (induction vs) auto
  then show ?case by simp
next
  case (4 num ms)
  have "members_of num (map (\<lambda>m. (quote_text (fst m), value_json (snd m))) ms) [] = Some ([] @ ms)"
    using 4 by (intro members_of_sorted) (auto simp: list_all_iff)
  then show ?case by simp
qed (auto simp: jstring_def unquote_quote)

text \<open>
  A value that fits Go's nesting limit is read back from what \<open>Marshal\<close> and \<open>MarshalIndent\<close> write.
\<close>

theorem value_roundtrip:
  assumes "value_ok num v" and "value_depth v \<le> max_depth"
  shows "parse_value num (marshal_value v) = Some v" and "parse_value num (marshal_indent v) = Some v"
  using assms parse_jprint [of "value_json v"] parse_jindent [of "value_json v"]
  by (simp_all add: parse_value_def marshal_value_def marshal_indent_def value_json_wf value_of_json)

end
