(* ===== verification/Compose.thy ===== *)
theory Compose
  imports Value
begin

text \<open>
  The composer of \<open>cmd/mcp/main.go\<close>: \<open>tool_text\<close> and \<open>tool_err\<close> wrap the result of a tool,
  \<open>extract_val\<close> unwraps it, \<open>resolve_tpl\<close> fills the templates of a step from the earlier steps and
  \<open>become\<close> runs a recipe. A tool may be \<open>become\<close> again, so \<open>call_tool\<close> has a bound on the nesting,
  \<open>None\<close> when it is used up. The other tools are the parameter \<open>tools\<close> on the state of the world;
  \<open>None\<close> is also the result of a tool that does not return, be it that it panics.
\<close>

type_synonym go_args = "(string \<times> go_value) list"

section \<open>Results of tools\<close>

definition text_content :: "string \<Rightarrow> (string \<times> go_value) list" where
  "text_content text = [(''content'', VList [VMap [(''text'', VStr text), (''type'', VStr ''text'')]])]"

text \<open>\<open>toolText\<close>: a string is the text, any other value is marshalled.\<close>

definition tool_text :: "go_value \<Rightarrow> go_value" where
  "tool_text v = VMap (text_content (case v of VStr t \<Rightarrow> t | _ \<Rightarrow> marshal_indent v))"

definition tool_err :: "string \<Rightarrow> go_value" where
  "tool_err msg = VMap (text_content msg @ [(''isError'', VBool True)])"

text \<open>\<open>str\<close>: the text of a string, and the empty text of everything else.\<close>

definition str_of :: "go_value option \<Rightarrow> string" where
  "str_of v = (case v of Some (VStr s) \<Rightarrow> s | _ \<Rightarrow> [])"

definition extract_val :: "(string \<Rightarrow> string option) \<Rightarrow> go_value \<Rightarrow> go_value" where
  "extract_val num res =
     (case res of
        VMap m \<Rightarrow>
          (case map_of m ''content'' of
             Some (VList (VMap blk # rest)) \<Rightarrow>
               (case map_of blk ''text'' of
                  Some (VStr txt) \<Rightarrow> (case parse_value num txt of Some v \<Rightarrow> v | None \<Rightarrow> VStr txt)
                | _ \<Rightarrow> res)
           | _ \<Rightarrow> res)
      | _ \<Rightarrow> res)"

section \<open>Templates\<close>

definition is_template :: "string \<Rightarrow> bool" where
  "is_template t \<longleftrightarrow> 3 < length t \<and> t ! 0 = CHR ''$'' \<and> t ! 1 = CHR ''{'' \<and> t ! (length t - 1) = CHR ''}''"

text \<open>The value at a key; Go's map gives \<open>nil\<close> for a key that is not there.\<close>

definition at_key :: "go_args \<Rightarrow> string \<Rightarrow> go_value" where
  "at_key m k = (case map_of m k of Some v \<Rightarrow> v | None \<Rightarrow> VNull)"

fun nav_path :: "go_value \<Rightarrow> string list \<Rightarrow> go_value option" where
  "nav_path cur [] = Some cur"
| "nav_path cur (p # ps) = (case cur of VMap m \<Rightarrow> nav_path (at_key m p) ps | _ \<Rightarrow> None)"

definition fill_template :: "go_args \<Rightarrow> string \<Rightarrow> go_value" where
  "fill_template prior t =
     (let path = split_byte (drop 2 (take (length t - 1) t)) (CHR ''.'')
      in case nav_path (at_key prior (hd path)) (tl path) of Some v \<Rightarrow> v | None \<Rightarrow> VStr t)"

fun resolve_tpl :: "go_args \<Rightarrow> go_value \<Rightarrow> go_value" where
  "resolve_tpl prior (VStr t) = (if is_template t then fill_template prior t else VStr t)"
| "resolve_tpl prior (VMap ms) = VMap (map (\<lambda>m. (fst m, resolve_tpl prior (snd m))) ms)"
| "resolve_tpl prior (VList vs) = VList (map (resolve_tpl prior) vs)"
| "resolve_tpl prior v = v"

section \<open>Recipes\<close>

type_synonym 'w tool = "string \<Rightarrow> go_args \<Rightarrow> 'w \<Rightarrow> (go_value \<times> 'w) option"

definition as_map :: "go_value \<Rightarrow> go_args" where
  "as_map v = (case v of VMap m \<Rightarrow> m | _ \<Rightarrow> [])"

definition vint :: "nat \<Rightarrow> go_value" where
  "vint n = VNum (dec_nat n)"

definition no_tool_text :: "nat \<Rightarrow> string" where
  "no_tool_text i = ''step '' @ dec_nat i @ '' has no tool''"

definition step_result :: "nat \<Rightarrow> string \<Rightarrow> go_value \<Rightarrow> go_value" where
  "step_result i tool val = VMap [(''result'', val), (''step'', vint i), (''tool'', VStr tool)]"

text \<open>The results a later step can name: under the index, and under the id if it has one.\<close>

definition remember :: "nat \<Rightarrow> string \<Rightarrow> go_value \<Rightarrow> go_args \<Rightarrow> go_args" where
  "remember i ident val prior =
     (let p = smap_put (dec_nat i) (VMap [(''result'', val)]) prior
      in if ident = [] then p else smap_put ident (VMap [(''result'', val)]) p)"

text \<open>The loop over the steps from step \<open>i\<close> on; a step without a tool ends it with an error.\<close>

fun become_steps ::
  "(string \<Rightarrow> string option) \<Rightarrow> 'w tool \<Rightarrow> nat \<Rightarrow> go_value list \<Rightarrow> go_args \<Rightarrow> go_value list \<Rightarrow> 'w
     \<Rightarrow> ((string + go_value list) \<times> 'w) option"
where
  "become_steps num call i [] prior steps w = Some (Inr steps, w)"
| "become_steps num call i (raw # recipe) prior steps w =
     (let step = as_map raw; tool = str_of (map_of step ''tool'') in
      if tool = [] then Some (Inl (no_tool_text i), w)
      else
        (case call tool (as_map (resolve_tpl prior (at_key step ''args''))) w of
           None \<Rightarrow> None
         | Some (res, w') \<Rightarrow>
             (let val = extract_val num res in
              become_steps num call (Suc i) recipe (remember i (str_of (map_of step ''id'')) val prior)
                (steps @ [step_result i tool val]) w')))"

definition became_text :: "nat \<Rightarrow> string" where
  "became_text n = ''a composition of '' @ dec_nat n @ '' atom steps''"

definition become :: "(string \<Rightarrow> string option) \<Rightarrow> 'w tool \<Rightarrow> go_args \<Rightarrow> 'w \<Rightarrow> (go_value \<times> 'w) option" where
  "become num call args w =
     (case map_of args ''recipe'' of
        Some (VList recipe) \<Rightarrow>
          (case become_steps num call 0 recipe [] [] w of
             None \<Rightarrow> None
           | Some (Inl msg, w') \<Rightarrow> Some (tool_err msg, w')
           | Some (Inr steps, w') \<Rightarrow>
               Some (tool_text (VStr (marshal_value
                 (VMap [(''became'', VStr (became_text (length steps))), (''steps'', VList steps)]))), w'))
      | _ \<Rightarrow> Some (tool_err ''become needs a recipe: [{tool, args, id?}, ...]'', w))"

definition tool_names :: "string list" where
  "tool_names = [''http_request'', ''discover'', ''bidi_command'', ''transports'']"

text \<open>\<open>callTool\<close>, with at most \<open>depth\<close> nested compositions; \<open>tools\<close> are the atoms.\<close>

fun call_tool ::
  "nat \<Rightarrow> (string \<Rightarrow> string option) \<Rightarrow> 'w tool \<Rightarrow> 'w tool"
where
  "call_tool depth num tools name args w =
     (if name \<in> set tool_names then tools name args w
      else if name = ''become'' then
        (case depth of 0 \<Rightarrow> None | Suc d \<Rightarrow> become num (call_tool d num tools) args w)
      else Some (tool_err (''unknown tool: '' @ name), w))"

declare call_tool.simps [simp del]


section \<open>Properties\<close>

lemma extract_val_text:
  "extract_val num (VMap (text_content t @ more)) = (case parse_value num t of Some v \<Rightarrow> v | None \<Rightarrow> VStr t)"
  by (simp add: extract_val_def text_content_def)

lemma extract_tool_text_ok:
  "value_ok num (VMap m) \<Longrightarrow> value_depth (VMap m) \<le> max_depth \<Longrightarrow> extract_val num (tool_text (VMap m)) = VMap m"
  using value_roundtrip(2) [of num "VMap m"] extract_val_text [of num _ "[]"] by (simp add: tool_text_def)

text \<open>
  What a tool returns is what the next step works on: any value but a string survives \<open>toolText\<close>
  and \<open>extractVal\<close> as it is; a string survives too, unless it is a JSON document itself, which is
  then parsed.
\<close>

theorem extract_tool_text:
  assumes "value_ok num v" and "value_depth v \<le> max_depth"
  shows "extract_val num (tool_text v)
    = (case v of VStr t \<Rightarrow> (case parse_value num t of Some u \<Rightarrow> u | None \<Rightarrow> v) | _ \<Rightarrow> v)"
  using value_roundtrip(2) [OF assms] extract_val_text [of num _ "[]"]
  by (cases v) (simp_all add: tool_text_def split: option.splits)

theorem extract_tool_text_witness:
  "extract_val (\<lambda>l. Some l) (tool_text (VMap [(''a'', VNum ''1''), (''b'', VList [VStr ''x'', VNull])]))
     = VMap [(''a'', VNum ''1''), (''b'', VList [VStr ''x'', VNull])]"
proof -
  have "value_ok (\<lambda>l. Some l) (VMap [(''a'', VNum ''1''), (''b'', VList [VStr ''x'', VNull])])" by code_simp
  moreover have "value_depth (VMap [(''a'', VNum ''1''), (''b'', VList [VStr ''x'', VNull])]) \<le> max_depth"
    by (simp add: max_depth_def)
  ultimately show ?thesis by (simp add: extract_tool_text)
qed

text \<open>A value without templates is passed on as it is.\<close>

fun no_templates :: "go_value \<Rightarrow> bool" where
  "no_templates (VStr t) \<longleftrightarrow> \<not> is_template t"
| "no_templates (VMap ms) \<longleftrightarrow> list_all (\<lambda>m. no_templates (snd m)) ms"
| "no_templates (VList vs) \<longleftrightarrow> list_all no_templates vs"
| "no_templates v \<longleftrightarrow> True"

lemma resolve_no_templates: "no_templates v \<Longrightarrow> resolve_tpl prior v = v"
  by (induction v rule: no_templates.induct) (auto simp: list_all_iff map_idI)

definition template :: "string list \<Rightarrow> string" where
  "template path = ''${'' @ join_byte path (CHR ''.'') @ ''}''"

lemma join_byte_nonempty: "hd ps \<noteq> [] \<Longrightarrow> ps \<noteq> [] \<Longrightarrow> join_byte ps c \<noteq> []"
  by (cases "(ps, c)" rule: join_byte.cases) auto

lemma is_template_template: "ps \<noteq> [] \<Longrightarrow> hd ps \<noteq> [] \<Longrightarrow> is_template (template ps)"
  using join_byte_nonempty [of ps "CHR ''.''"]
  by (cases "join_byte ps (CHR ''.'')") (simp_all add: is_template_def template_def nth_append)

lemma fill_template_path:
  assumes "list_all (\<lambda>p. CHR ''.'' \<notin> set p) ps" and "ps \<noteq> []"
  shows "fill_template prior (template ps)
    = (case nav_path (at_key prior (hd ps)) (tl ps) of Some v \<Rightarrow> v | None \<Rightarrow> VStr (template ps))"
proof -
  have "drop 2 (take (length (template ps) - 1) (template ps)) = join_byte ps (CHR ''.'')"
    by (simp add: template_def)
  then show ?thesis using split_join_byte [of ps "CHR ''.''"] assms by (simp add: fill_template_def list_all_iff)
qed

lemma resolve_template:
  "list_all (\<lambda>p. CHR ''.'' \<notin> set p) ps \<Longrightarrow> ps \<noteq> [] \<Longrightarrow> hd ps \<noteq> [] \<Longrightarrow>
     resolve_tpl prior (VStr (template ps))
     = (case nav_path (at_key prior (hd ps)) (tl ps) of Some v \<Rightarrow> v | None \<Rightarrow> VStr (template ps))"
  by (simp add: is_template_template fill_template_path)

lemma remember_sorted: "smap_sorted prior \<Longrightarrow> smap_sorted (remember i ident val prior)"
  by (simp add: remember_def Let_def smap_put_sorted)

lemma at_key_remember:
  assumes "smap_sorted prior"
  shows "at_key (remember i ident val prior) k
    = (if k = dec_nat i \<or> ident \<noteq> [] \<and> k = ident then VMap [(''result'', val)] else at_key prior k)"
  using assms by (auto simp: remember_def at_key_def Let_def map_of_smap_put smap_put_sorted)

text \<open>
  The results that step \<open>n\<close> of a recipe can name: the later of two results wins.
\<close>

fun prior_of :: "nat \<Rightarrow> (string \<times> go_value) list \<Rightarrow> go_args \<Rightarrow> go_args" where
  "prior_of i [] prior = prior"
| "prior_of i ((ident, val) # rs) prior = prior_of (Suc i) rs (remember i ident val prior)"

lemma prior_of_keeps:
  assumes "smap_sorted prior" and "\<forall>j. i \<le> j \<and> j < i + length rs \<longrightarrow> dec_nat j \<noteq> k" and "k \<notin> set (map fst rs)"
  shows "at_key (prior_of i rs prior) k = at_key prior k \<and> smap_sorted (prior_of i rs prior)"
  using assms
proof (induction i rs prior rule: prior_of.induct)
  case (2 i ident val rs prior)
  have "dec_nat i \<noteq> k" using 2(3) by auto
  then have "at_key (remember i ident val prior) k = at_key prior k"
    using 2(2,4) by (auto simp: at_key_remember)
  moreover have "\<forall>j. Suc i \<le> j \<and> j < Suc i + length rs \<longrightarrow> dec_nat j \<noteq> k" using 2(3) by auto
  ultimately show ?case using 2(1) [OF remember_sorted [OF 2(2)]] 2(4) by simp
qed simp


lemma prior_of_append: "prior_of i (rs @ rs') prior = prior_of (i + length rs) rs' (prior_of i rs prior)"
  by (induction i rs prior rule: prior_of.induct) simp_all

lemma prior_of_sorted: "smap_sorted prior \<Longrightarrow> smap_sorted (prior_of i rs prior)"
  by (induction i rs prior rule: prior_of.induct) (simp_all add: remember_sorted)

lemma dec_nat_inj: "dec_nat m = dec_nat n \<longleftrightarrow> m = n"
  by (metis nat_value_dec)

lemma prior_of_index:
  assumes "j < length rs" and "dec_nat j \<notin> set (map fst rs)"
  shows "at_key (prior_of 0 rs []) (dec_nat j) = VMap [(''result'', snd (rs ! j))]"
proof -
  obtain a b where r: "rs = a @ (fst (rs ! j), snd (rs ! j)) # b" "length a = j"
    using assms(1) id_take_nth_drop [of j rs] by (metis length_take min.absorb4 prod.collapse)
  let ?p = "prior_of 0 a []" and ?q = "remember j (fst (rs ! j)) (snd (rs ! j)) (prior_of 0 a [])"
  have s: "smap_sorted ?p" by (simp add: prior_of_sorted smap_sorted_def [of "[]"])
  have "dec_nat j \<notin> set (map fst b)" using assms(2) r by (metis Un_iff list.set_intros(2) map_append set_append list.simps(9))
  then have "at_key (prior_of (Suc j) b ?q) (dec_nat j) = at_key ?q (dec_nat j)"
    using prior_of_keeps [OF remember_sorted [OF s], of "Suc j" b "dec_nat j"] by (simp add: dec_nat_inj)
  moreover have "prior_of 0 rs [] = prior_of (Suc j) b ?q"
    by (subst r(1), cases "rs ! j") (simp add: prior_of_append r(2))
  ultimately show ?thesis using s by (simp add: at_key_remember)
qed

text \<open>The id of a step, its tool, and the result that the receipt of a step shows.\<close>

definition step_id :: "go_value \<Rightarrow> string" where
  "step_id s = str_of (map_of (as_map s) ''id'')"

definition step_tool :: "go_value \<Rightarrow> string" where
  "step_tool s = str_of (map_of (as_map s) ''tool'')"

definition shown_result :: "go_value \<Rightarrow> go_value" where
  "shown_result s = at_key (as_map s) ''result''"

lemma become_steps_run:
  "become_steps num call i pre prior steps w = Some (Inr out, w1) \<Longrightarrow>
    \<exists>new vals. out = steps @ new \<and> length vals = length pre \<and> map shown_result new = vals
     \<and> (\<forall>rest. become_steps num call i (pre @ rest) prior steps w
          = become_steps num call (i + length pre) rest (prior_of i (zip (map step_id pre) vals) prior) out w1)"
proof (induction pre arbitrary: i prior steps w)
  case (Cons s pre)
  let ?tool = "step_tool s"
  have t: "?tool \<noteq> []" using Cons.prems by (auto simp: step_tool_def Let_def)
  obtain res w' where c: "call ?tool (as_map (resolve_tpl prior (at_key (as_map s) ''args''))) w = Some (res, w')"
    using Cons.prems t by (auto simp: step_tool_def Let_def split: option.splits)
  let ?val = "extract_val num res"
  let ?prior = "remember i (step_id s) ?val prior"
  have u: "become_steps num call i (s # rest) prior steps w
    = become_steps num call (Suc i) rest ?prior (steps @ [step_result i ?tool ?val]) w'" for rest
    using t c by (simp add: step_tool_def step_id_def Let_def)
  obtain new vals where IH: "out = (steps @ [step_result i ?tool ?val]) @ new" "length vals = length pre"
    "map shown_result new = vals"
    "\<forall>rest. become_steps num call (Suc i) (pre @ rest) ?prior (steps @ [step_result i ?tool ?val]) w'
      = become_steps num call (Suc i + length pre) rest (prior_of (Suc i) (zip (map step_id pre) vals) ?prior) out w1"
    using Cons.IH [of "Suc i" ?prior "steps @ [step_result i ?tool ?val]" w'] Cons.prems unfolding u by blast
  have "shown_result (step_result i ?tool ?val) = ?val"
    by (simp add: shown_result_def step_result_def as_map_def at_key_def)
  then show ?case
    using IH u by (intro exI [of _ "step_result i ?tool ?val # new"] exI [of _ "?val # vals"]) simp
qed simp

lemma dec_nat_dotless: "CHR ''.'' \<notin> set (dec_nat n) \<and> dec_nat n \<noteq> []"
  using dec_nat_digits [of n] by (auto simp: list_all_iff is_digit_def)

lemma become_step_after:
  assumes "become_steps num call 0 pre [] [] w = Some (Inr steps, w1)"
    and "j < length pre" and "dec_nat j \<notin> set (map step_id pre)"
    and "list_all (\<lambda>p. CHR ''.'' \<notin> set p) ps"
    and "step_tool s \<noteq> []"
    and "at_key (as_map s) ''args'' = VMap [(k, VStr (template (dec_nat j # ''result'' # ps)))]"
    and "nav_path (shown_result (steps ! j)) ps = Some x"
  shows "become_steps num call 0 (pre @ [s]) [] [] w
    = (case call (step_tool s) [(k, x)] w1 of
         None \<Rightarrow> None
       | Some (res, w2) \<Rightarrow>
           Some (Inr (steps @ [step_result (length pre) (step_tool s) (extract_val num res)]), w2))"
proof -
  obtain vals where vals: "length vals = length pre" "map shown_result steps = vals"
    and run: "\<And>rest. become_steps num call 0 (pre @ rest) [] [] w
      = become_steps num call (length pre) rest (prior_of 0 (zip (map step_id pre) vals) []) steps w1"
    using become_steps_run [OF assms(1)] by (metis add_0 append_Nil)
  let ?rs = "zip (map step_id pre) vals"
  have f: "map fst ?rs = map step_id pre" using vals(1) by simp
  have nth: "snd (?rs ! j) = shown_result (steps ! j)"
    using assms(2) vals by (metis length_map nth_map nth_zip snd_conv)
  have "at_key (prior_of 0 ?rs []) (dec_nat j) = VMap [(''result'', shown_result (steps ! j))]"
    using prior_of_index [of j ?rs] assms(2,3) vals(1) nth f by simp
  moreover have "list_all (\<lambda>p. CHR ''.'' \<notin> set p) (dec_nat j # ''result'' # ps)"
    using assms(4) dec_nat_dotless by simp
  ultimately have "resolve_tpl (prior_of 0 ?rs []) (VStr (template (dec_nat j # ''result'' # ps))) = x"
    using resolve_template [of "dec_nat j # ''result'' # ps"] dec_nat_dotless [of j] assms(7)
    by (simp add: at_key_def [of "[(''result'', shown_result (steps ! j))]"] del: resolve_tpl.simps(1))
  then have "as_map (resolve_tpl (prior_of 0 ?rs []) (at_key (as_map s) ''args'')) = [(k, x)]"
    unfolding assms(6) by (simp add: as_map_def del: resolve_tpl.simps(1))
  then show ?thesis
    using assms(5) by (simp add: run step_tool_def Let_def split: option.splits)
qed

text \<open>
  C6. Results are threaded through a recipe: when its first steps have run, a step whose argument is
  the template of a path into the result of step \<open>j\<close> is called with the value at that path, as the
  receipt of step \<open>j\<close> shows it (unless a step gave itself the number of another as its id).
\<close>

theorem become_threads:
  assumes "become_steps num call 0 pre [] [] w = Some (Inr steps, w1)"
    and "j < length pre" and "dec_nat j \<notin> set (map step_id pre)"
    and "list_all (\<lambda>p. CHR ''.'' \<notin> set p) ps"
    and "step_tool s \<noteq> []"
    and "at_key (as_map s) ''args'' = VMap [(k, VStr (template (dec_nat j # ''result'' # ps)))]"
    and "nav_path (shown_result (steps ! j)) ps = Some x"
  shows "become_steps num call 0 (pre @ [s]) [] [] w
    = (case call (step_tool s) [(k, x)] w1 of
         None \<Rightarrow> None
       | Some (res, w2) \<Rightarrow>
           Some (Inr (steps @ [step_result (length pre) (step_tool s) (extract_val num res)]), w2))"
  using assms by (rule become_step_after)

text \<open>Two steps: the first finds a context, the second is given its id.\<close>

definition demo_tools :: "nat tool" where
  "demo_tools name args n =
     Some (tool_text (if name = ''discover'' then VMap [(''ctx'', VMap [(''id'', VStr ''c7'')])] else VMap args), Suc n)"

definition demo_step :: "string \<Rightarrow> go_value \<Rightarrow> go_value" where
  "demo_step tool args = VMap [(''args'', args), (''tool'', VStr tool)]"

theorem become_threads_witness:
  "become_steps (\<lambda>l. Some l) (call_tool 0 (\<lambda>l. Some l) demo_tools) 0
     ([demo_step ''discover'' (VMap [])]
       @ [demo_step ''http_request'' (VMap [(''url'', VStr (template [''0'', ''result'', ''ctx'', ''id'']))])]) [] [] 0
   = Some (Inr [step_result 0 ''discover'' (VMap [(''ctx'', VMap [(''id'', VStr ''c7'')])]),
       step_result 1 ''http_request'' (VMap [(''url'', VStr ''c7'')])], 2)"
proof -
  let ?num = "\<lambda>l. Some l" and ?ctx = "VMap [(''ctx'', VMap [(''id'', VStr ''c7'')])]"
  let ?s0 = "demo_step ''discover'' (VMap [])"
  let ?s1 = "demo_step ''http_request'' (VMap [(''url'', VStr (template (dec_nat 0 # ''result'' # [''ctx'', ''id''])))])"
  have ok: "value_ok ?num ?ctx" "value_ok ?num (VMap [(''url'', VStr ''c7'')])" by code_simp+
  have x: "extract_val ?num (tool_text ?ctx) = ?ctx"
    "extract_val ?num (tool_text (VMap [(''url'', VStr ''c7'')])) = VMap [(''url'', VStr ''c7'')]"
    using value_roundtrip(2) [OF ok(1)] value_roundtrip(2) [OF ok(2)] extract_val_text [of ?num _ "[]"]
    by (simp_all add: tool_text_def max_depth_def)
  have c: "call_tool 0 ?num demo_tools ''discover'' a n = Some (tool_text ?ctx, Suc n)"
    "call_tool 0 ?num demo_tools ''http_request'' a n = Some (tool_text (VMap a), Suc n)" for a n
    by (simp_all add: call_tool.simps tool_names_def demo_tools_def)
  have r: "become_steps ?num (call_tool 0 ?num demo_tools) 0 [?s0] [] [] 0
    = Some (Inr [step_result 0 ''discover'' ?ctx], 1)"
    by (simp add: demo_step_def as_map_def str_of_def at_key_def Let_def c x)
  have d: "dec_nat 0 = ''0''" by code_simp
  have "dec_nat 0 \<notin> set (map step_id [?s0])"
    by (simp add: d step_id_def demo_step_def as_map_def str_of_def)
  from become_threads [OF r _ this, of "[''ctx'', ''id'']" ?s1 "''url''" "VStr ''c7''"]
  have "become_steps ?num (call_tool 0 ?num demo_tools) 0 ([?s0] @ [?s1]) [] [] 0
    = Some (Inr [step_result 0 ''discover'' ?ctx, step_result 1 ''http_request'' (VMap [(''url'', VStr ''c7'')])], 2)"
    by (simp add: step_tool_def demo_step_def as_map_def str_of_def at_key_def shown_result_def step_result_def c x)
  then show ?thesis by (simp add: d)
qed

section \<open>Nesting\<close>

lemma become_no_atom [simp]: "''become'' \<notin> set tool_names"
  by code_simp

lemma call_tool_become [simp]:
  "call_tool 0 num tools ''become'' a w = None"
  "call_tool (Suc d) num tools ''become'' a w = become num (call_tool d num tools) a w"
  by (simp_all add: call_tool.simps [of _ num tools "''become''"])

text \<open>Tools that always return.\<close>

definition tools_return :: "'w tool \<Rightarrow> bool" where
  "tools_return tools \<longleftrightarrow> (\<forall>name args w. tools name args w \<noteq> None)"

lemma call_tool_flat:
  "tools_return tools \<Longrightarrow> name \<noteq> ''become'' \<Longrightarrow> \<exists>res w'. call_tool d num tools name args w = Some (res, w')"
  unfolding tools_return_def by (simp add: call_tool.simps)

definition extends_call :: "'w tool \<Rightarrow> 'w tool \<Rightarrow> bool" where
  "extends_call c c' \<longleftrightarrow> (\<forall>n a w r. c n a w = Some r \<longrightarrow> c' n a w = Some r)"

lemma become_steps_extends:
  "extends_call c c' \<Longrightarrow> become_steps num c i recipe prior steps w = Some r \<Longrightarrow>
     become_steps num c' i recipe prior steps w = Some r"
proof (induction recipe arbitrary: i prior steps w)
  case (Cons s recipe)
  show ?case
  proof (cases "step_tool s = []")
    case True
    then show ?thesis using Cons.prems(2) by (simp add: step_tool_def Let_def)
  next
    case False
    let ?args = "as_map (resolve_tpl prior (at_key (as_map s) ''args''))"
    obtain res w' where c: "c (step_tool s) ?args w = Some (res, w')"
      using Cons.prems(2) False by (auto simp: step_tool_def Let_def split: option.splits)
    then have "c' (step_tool s) ?args w = Some (res, w')" using Cons.prems(1) by (simp add: extends_call_def)
    then show ?thesis using Cons.IH [OF Cons.prems(1)] Cons.prems(2) False c by (simp add: step_tool_def Let_def)
  qed
qed simp

lemma become_extends: "extends_call c c' \<Longrightarrow> become num c args w = Some r \<Longrightarrow> become num c' args w = Some r"
  by (auto simp: become_def dest!: become_steps_extends split: option.splits go_value.splits sum.splits)

text \<open>A larger bound on the nesting never changes a result: the bound only says when there is one.\<close>

theorem call_tool_deeper:
  assumes "call_tool d num tools name args w = Some r" and "d \<le> d'"
  shows "call_tool d' num tools name args w = Some r"
proof -
  have "extends_call (call_tool d num tools) (call_tool (Suc d) num tools)" for d
  proof (induction d)
    case 0
    show ?case by (auto simp: extends_call_def call_tool.simps [of 0] call_tool.simps [of "Suc 0"] split: if_splits)
  next
    case (Suc d)
    have "call_tool (Suc (Suc d)) num tools n a w = Some r" if "call_tool (Suc d) num tools n a w = Some r" for n a w r
    proof (cases "n = ''become''")
      case True
      then show ?thesis using that become_extends [OF Suc, of num a w r] by simp
    next
      case False
      then show ?thesis using that
        by (simp add: call_tool.simps [of "Suc d" num tools n a w] call_tool.simps [of "Suc (Suc d)" num tools n a w]
            split: if_split_asm)
    qed
    then show ?case by (simp add: extends_call_def)
  qed
  then have "extends_call (call_tool d num tools) (call_tool (d + n) num tools)" for n
    by (induction n) (auto simp: extends_call_def)
  then show ?thesis using assms by (metis extends_call_def le_add_diff_inverse)
qed


theorem call_tool_deeper_witness:
  "call_tool 3 (\<lambda>l. Some l) demo_tools ''become'' [(''recipe'', VList [])] 0
     = call_tool 1 (\<lambda>l. Some l) demo_tools ''become'' [(''recipe'', VList [])] 0"
proof -
  have "''become'' \<notin> set tool_names" by code_simp
  then obtain r where r: "call_tool 1 (\<lambda>l. Some l) demo_tools ''become'' [(''recipe'', VList [])] 0 = Some r"
    by (simp add: call_tool.simps become_def)
  from call_tool_deeper [OF r, of 3] r show ?thesis by simp
qed

lemma recipe_returns:
  assumes "\<And>s args w. s \<in> set recipe \<Longrightarrow> step_tool s \<noteq> [] \<Longrightarrow> call_tool d num tools (step_tool s) args w \<noteq> None"
  shows "\<exists>r. call_tool (Suc d) num tools ''become'' [(''recipe'', VList recipe)] w = Some r"
proof -
  have "\<exists>r. become_steps num (call_tool d num tools) i rs prior steps w = Some r" if "set rs \<subseteq> set recipe" for i rs prior steps w
    using that
  proof (induction rs arbitrary: i prior steps w)
    case (Cons s rs)
    show ?case
    proof (cases "step_tool s = []")
      case True
      then show ?thesis by (simp add: step_tool_def Let_def)
    next
      case False
      obtain res w' where "call_tool d num tools (step_tool s) (as_map (resolve_tpl prior (at_key (as_map s) ''args''))) w
          = Some (res, w')"
        using assms [of s] Cons.prems False by fastforce
      then show ?thesis using Cons False by (simp add: step_tool_def Let_def)
    qed
  qed simp
  then obtain r where "become_steps num (call_tool d num tools) 0 recipe [] [] w = Some r" by blast
  then show ?thesis by (cases r) (auto simp: call_tool.simps become_def split: sum.splits)
qed

text \<open>
  A recipe that names no composition itself always returns when the tools do, whatever its steps are:
  one level is enough.
\<close>

theorem flat_recipe_returns:
  assumes "list_all (\<lambda>s. step_tool s \<noteq> ''become'') recipe" and "tools_return tools"
  shows "\<exists>r. call_tool 1 num tools ''become'' [(''recipe'', VList recipe)] w = Some r"
  unfolding One_nat_def
proof (rule recipe_returns)
  fix s args w
  assume "s \<in> set recipe"
  with assms(1) have "step_tool s \<noteq> ''become''" by (auto simp: list_all_iff)
  from call_tool_flat [OF assms(2) this] show "call_tool 0 num tools (step_tool s) args w \<noteq> None" by fastforce
qed

theorem flat_recipe_returns_witness:
  "\<exists>r. call_tool 1 (\<lambda>l. Some l) demo_tools ''become'' [(''recipe'', VList [demo_step ''discover'' VNull])] 0 = Some r"
proof -
  have "list_all (\<lambda>s. step_tool s \<noteq> ''become'') [demo_step ''discover'' VNull]" by code_simp
  then show ?thesis by (rule flat_recipe_returns) (simp add: tools_return_def demo_tools_def)
qed

text \<open>
  A recipe whose composition step takes its recipe from what a tool returned, and a server that
  answers with that very recipe: no bound on the nesting is enough.
\<close>

definition looping_recipe :: go_value where
  "looping_recipe = VList [demo_step ''discover'' (VMap []),
     demo_step ''become'' (VStr (template [''0'', ''result'']))]"

definition looping_tools :: "nat tool" where
  "looping_tools name args n = Some (tool_text (VMap [(''recipe'', looping_recipe)]), Suc n)"


text \<open>
  A template is left as it is when its path leads through something that is no map; when only the
  last key is missing it becomes \<open>null\<close>, not the literal that the comment promises.
\<close>

theorem unknown_key_null:
  "resolve_tpl [] (VStr (template [''0'', ''result''])) = VStr (template [''0'', ''result''])
   \<and> resolve_tpl [] (VStr (template [''0''])) = VNull"
proof -
  have p: "list_all (\<lambda>p. CHR ''.'' \<notin> set p) [''0'', ''result'']" "list_all (\<lambda>p. CHR ''.'' \<notin> set p) [''0'']"
    by code_simp+
  show ?thesis
    using resolve_template [OF p(1), of "[]"] resolve_template [OF p(2), of "[]"]
    by (simp add: at_key_def del: resolve_tpl.simps(1))
qed

end
