(* ===== verification/Auth.thy ===== *)
theory Auth
  imports Go_Path Httpx
begin

text \<open>
  \<open>auth/auth.go\<close>: a profile name becomes a Basic credential. The environment, the path of the
  executable and the files are arguments: \<open>env\<close> is \<open>os.Getenv\<close>, \<open>exe\<close> is \<open>os.Executable\<close> and
  \<open>read_file\<close> is \<open>os.ReadFile\<close>, \<open>Inl\<close> being its error.
\<close>

datatype auth_error =
  NoProfile string string string
| ProfileNotJson string
| HalfProfile string

type_synonym profile = "string \<times> string"

definition set_profile_field :: "string \<Rightarrow> json \<Rightarrow> profile \<Rightarrow> profile option" where
  "set_profile_field n j p =
     (if n = ''username'' then map_option (\<lambda>s. (s, snd p)) (dec_string j (fst p))
      else map_option (\<lambda>s. (fst p, s)) (dec_string j (snd p)))"

definition basic_auth :: "string \<Rightarrow> string \<Rightarrow> httpx_auth" where
  "basic_auth user key = \<lparr>au_type = ''basic'', au_user = user, au_key = key, au_header = []\<rparr>"

definition profile_rel :: "string \<Rightarrow> string" where
  "profile_rel name = ''auth/'' @ replace_all name '':'' ''-'' @ ''.json''"

definition profile_candidates :: "string option \<Rightarrow> string \<Rightarrow> string list" where
  "profile_candidates exe name =
     profile_rel name # (case exe of Some e \<Rightarrow> [path_join [path_dir e, profile_rel name]] | None \<Rightarrow> [])"

text \<open>The first candidate that can be read, or the error of the last one.\<close>

fun read_first :: "(string \<Rightarrow> string + string) \<Rightarrow> string list \<Rightarrow> string \<Rightarrow> string + string" where
  "read_first read_file [] err = Inl err"
| "read_first read_file (c # cs) err =
     (case read_file c of Inr raw \<Rightarrow> Inr raw | Inl e \<Rightarrow> read_first read_file cs e)"

definition auth_resolve ::
  "(string \<Rightarrow> string) \<Rightarrow> string option \<Rightarrow> (string \<Rightarrow> string + string) \<Rightarrow> string \<Rightarrow> auth_error + httpx_auth"
where
  "auth_resolve env exe read_file name =
     (if env ''LT_USERNAME'' \<noteq> [] \<and> env ''LT_ACCESS_KEY'' \<noteq> [] then
        Inr (basic_auth (env ''LT_USERNAME'') (env ''LT_ACCESS_KEY''))
      else
        (case read_first read_file (profile_candidates exe name) [] of
           Inl e \<Rightarrow> Inl (NoProfile name (profile_rel name) e)
         | Inr raw \<Rightarrow>
             (case Option.bind (parse_json raw)
                 (\<lambda>j. decode_struct set_profile_field [''username'', ''accessKey''] j ([], [])) of
                None \<Rightarrow> Inl (ProfileNotJson (profile_rel name))
              | Some (user, key) \<Rightarrow>
                  if user = [] \<or> key = [] then Inl (HalfProfile (profile_rel name))
                  else Inr (basic_auth user key))))"

section \<open>Properties\<close>

text \<open>The file of a profile, as a document.\<close>

definition profile_json :: "string \<Rightarrow> string \<Rightarrow> json" where
  "profile_json user key = JObj (str_mem ''username'' user @ str_mem ''accessKey'' key)"

lemma profile_decode:
  assumes "valid_utf8 user" and "valid_utf8 key"
  shows "Option.bind (parse_json (jprint (profile_json user key)))
    (\<lambda>j. decode_struct set_profile_field [''username'', ''accessKey''] j ([], [])) = Some (user, key)"
proof -
  have n: "raw_ok ''username''" "raw_ok ''accessKey''" by code_simp+
  have f: "field_of [''username'', ''accessKey''] (unquote_text ''username'') = Some ''username''"
    "field_of [''username'', ''accessKey''] (unquote_text ''accessKey'') = Some ''accessKey''" by code_simp+
  have "parse_json (jprint (profile_json user key)) = Some (profile_json user key)"
    using n by (intro parse_jprint) (simp_all add: profile_json_def str_mem_def max_depth_def del: raw_ok.simps quote_text.simps)
  then show ?thesis
    using assms f by (simp add: profile_json_def str_mem_def decode_struct_def set_profile_field_def)
qed

text \<open>
  A profile is resolved to its own credential: without the two variables of the environment, the
  credential is that of the file of the working directory, or else of the one beside the executable;
  with them it is theirs for every name, and no file is read.
\<close>

theorem auth_resolve_spec:
  assumes "valid_utf8 user" and "valid_utf8 key" and "user \<noteq> []" and "key \<noteq> []"
    and "env ''LT_USERNAME'' = [] \<or> env ''LT_ACCESS_KEY'' = []"
    and "read_file (profile_rel name) = Inr (jprint (profile_json user key))
      \<or> read_file (profile_rel name) = Inl e \<and> exe = Some prog
        \<and> read_file (path_join [path_dir prog, profile_rel name]) = Inr (jprint (profile_json user key))"
  shows "auth_resolve env exe read_file name = Inr (basic_auth user key)"
    and "env' ''LT_USERNAME'' \<noteq> [] \<Longrightarrow> env' ''LT_ACCESS_KEY'' \<noteq> [] \<Longrightarrow>
      auth_resolve env' exe read_file name = Inr (basic_auth (env' ''LT_USERNAME'') (env' ''LT_ACCESS_KEY''))"
proof -
  have "read_first read_file (profile_candidates exe name) [] = Inr (jprint (profile_json user key))"
    using assms(6) by (auto simp: profile_candidates_def)
  then show "auth_resolve env exe read_file name = Inr (basic_auth user key)"
    using assms(3,4,5) profile_decode [OF assms(1,2)] by (auto simp: auth_resolve_def)
  show "env' ''LT_USERNAME'' \<noteq> [] \<Longrightarrow> env' ''LT_ACCESS_KEY'' \<noteq> [] \<Longrightarrow>
      auth_resolve env' exe read_file name = Inr (basic_auth (env' ''LT_USERNAME'') (env' ''LT_ACCESS_KEY''))"
    by (simp add: auth_resolve_def)
qed

text \<open>
  A credential is never half: whatever the environment and the files hold, a resolution that
  succeeds gives a Basic credential with a user and a key.
\<close>

theorem auth_never_half:
  assumes "auth_resolve env exe read_file name = Inr a"
  shows "au_type a = ''basic'' \<and> au_user a \<noteq> [] \<and> au_key a \<noteq> []"
  using assms by (auto simp: auth_resolve_def basic_auth_def split: if_splits sum.splits option.splits)

theorem auth_never_half_witness:
  "\<exists>a. auth_resolve (\<lambda>v. if v = ''LT_USERNAME'' then ''u'' else ''k'') None (\<lambda>p. Inl ''no file'') ''lt:prod'' = Inr a
     \<and> au_key a \<noteq> []"
proof -
  have r: "auth_resolve (\<lambda>v. if v = ''LT_USERNAME'' then ''u'' else ''k'') None (\<lambda>p. Inl ''no file'') ''lt:prod''
    = Inr (basic_auth ''u'' ''k'')" by code_simp
  from auth_never_half [OF r] r show ?thesis by blast
qed

text \<open>
  The name of a profile is a path: only its colons are replaced, so dots in it lead out of the
  directory of the profiles, beside the executable as well as in the working directory.
\<close>

theorem profile_escapes:
  "profile_candidates (Some ''/opt/mcp/http'') ''../x:y''
     = [''auth/../x-y.json'', ''/opt/mcp/x-y.json'']"
  by code_simp

end
