(* ===== verification/Mcp_Call.thy ===== *)
theory Mcp_Call
  imports Compose Auth
begin

text \<open>
  The tool \<open>http_request\<close> of \<open>cmd/mcp/main.go\<close>: from the arguments to one call of \<open>httpx.Do\<close>, through
  the witness if one is configured. The record \<open>mcp_env\<close> holds what the code asks of its environment:
  the number conversions, \<open>os.Getenv\<close>, the executable and the files, the network as a function on the
  state of the world, and the texts of errors.
\<close>

record 'w mcp_env =
  me_num :: "string \<Rightarrow> string option"
  me_pos :: "string \<Rightarrow> bool"
  me_int :: "string \<Rightarrow> int"
  me_getenv :: "string \<Rightarrow> string"
  me_exe :: "string option"
  me_read :: "string \<Rightarrow> string + string"
  me_url_err :: "string \<Rightarrow> string option"
  me_net :: "'w \<Rightarrow> http_client \<Rightarrow> wire_request \<Rightarrow> (string + wire_response) \<times> 'w"
  me_auth_text :: "auth_error \<Rightarrow> string"
  me_do_text :: "do_error \<Rightarrow> string"

text \<open>\<open>httpx.Do\<close> on the state of the world, which only a request that was made changes.\<close>

definition http_do_w ::
  "('w, 'e) mcp_env_scheme \<Rightarrow> http_client option \<Rightarrow> httpx_request \<Rightarrow> 'w \<Rightarrow> (do_error + httpx_response) \<times> 'w"
where
  "http_do_w env client r w =
     (case route_call client (hq_url r) of
        (c, url) \<Rightarrow>
          (case new_request (me_url_err env) (to_upper (hq_method r)) url (hq_body r) of
             Inl e \<Rightarrow> (Inl e, w)
           | Inr req \<Rightarrow>
               (case me_net env w c (req\<lparr>wq_headers := call_headers (hq_headers r) (hq_body r)\<rparr>) of
                  (ans, w') \<Rightarrow> (http_do (me_url_err env) (\<lambda>c q. ans) client r, w'))))"

definition server_client :: http_client where
  "server_client = \<lparr>cl_timeout_ms = 120 * 1000, cl_dialer = DialTcp\<rparr>"

section \<open>The arguments\<close>

definition arg :: "go_args \<Rightarrow> string \<Rightarrow> string" where
  "arg args k = str_of (map_of args k)"

text \<open>\<open>bodyStr\<close>: a string is the body, anything else is marshalled.\<close>

definition body_str :: "go_value option \<Rightarrow> string" where
  "body_str v =
     (case v of None \<Rightarrow> [] | Some VNull \<Rightarrow> [] | Some (VStr s) \<Rightarrow> s | Some u \<Rightarrow> marshal_value u)"

definition string_map :: "go_args \<Rightarrow> smap" where
  "string_map m = map (\<lambda>kv. (fst kv, str_of (Some (snd kv)))) m"

text \<open>The headers, \<open>None\<close> for a nil map.\<close>

definition arg_headers :: "go_args \<Rightarrow> smap option" where
  "arg_headers args = (case map_of args ''headers'' of Some (VMap h) \<Rightarrow> Some (string_map h) | _ \<Rightarrow> None)"

definition base_request :: "go_args \<Rightarrow> httpx_request" where
  "base_request args =
     \<lparr>hq_method = arg args ''method'', hq_url = arg args ''url'',
      hq_headers = (case arg_headers args of Some h \<Rightarrow> h | None \<Rightarrow> []), hq_body = body_str (map_of args ''body'')\<rparr>"

definition literal_auth :: "go_args \<Rightarrow> httpx_auth" where
  "literal_auth a = \<lparr>au_type = arg a ''type'', au_user = arg a ''user'', au_key = arg a ''key'', au_header = arg a ''header''\<rparr>"

text \<open>The request with its authentication, and whether its headers are a map (not nil).\<close>

definition call_request :: "('w, 'e) mcp_env_scheme \<Rightarrow> go_args \<Rightarrow> auth_error + httpx_request \<times> bool" where
  "call_request env args =
     (let r = base_request args; made = (arg_headers args \<noteq> None) in
      case map_of args ''auth'' of
        Some (VMap a) \<Rightarrow>
          (if arg a ''profile'' \<noteq> [] then
             (case auth_resolve (me_getenv env) (me_exe env) (me_read env) (arg a ''profile'') of
                Inl e \<Rightarrow> Inl e
              | Inr cred \<Rightarrow> Inr (apply_auth cred r, True))
           else Inr (apply_auth (literal_auth a) r, True))
      | _ \<Rightarrow> Inr (r, made))"

text \<open>The client: a positive \<open>timeout_ms\<close> gives a client of its own; the fraction is cut off.\<close>

definition arg_timeout :: "('w, 'e) mcp_env_scheme \<Rightarrow> go_args \<Rightarrow> int option" where
  "arg_timeout env args =
     (case map_of args ''timeout_ms'' of
        Some (VNum t) \<Rightarrow> (if me_pos env t then Some (wrap64 (me_int env t * 1000000) div 1000000) else None)
      | _ \<Rightarrow> None)"

definition call_client :: "('w, 'e) mcp_env_scheme \<Rightarrow> go_args \<Rightarrow> http_client" where
  "call_client env args =
     (case arg_timeout env args of
        Some ms \<Rightarrow> \<lparr>cl_timeout_ms = ms, cl_dialer = DialTcp\<rparr>
      | None \<Rightarrow> server_client)"

section \<open>The witness\<close>

definition fetch_payload :: "httpx_request \<Rightarrow> bool \<Rightarrow> json" where
  "fetch_payload r made =
     JObj (str_mem ''body'' (hq_body r) @ [(''headers'', if made then smap_json (hq_headers r) else JNull)]
       @ str_mem ''method'' (hq_method r) @ str_mem ''url'' (hq_url r))"

definition fetch_request :: "string \<Rightarrow> httpx_request \<Rightarrow> bool \<Rightarrow> httpx_request" where
  "fetch_request witness r made =
     \<lparr>hq_method = ''POST'', hq_url = trim_right_byte witness (CHR ''/'') @ ''/fetch'',
      hq_headers = [(''Content-Type'', ''application/json'')], hq_body = jprint (fetch_payload r made)\<rparr>"

record wrapped =
  wd_status :: int
  wd_body :: string
  wd_witness :: "go_args option"

definition set_wrapped_field :: "(string \<Rightarrow> string option) \<Rightarrow> string \<Rightarrow> json \<Rightarrow> wrapped \<Rightarrow> wrapped option" where
  "set_wrapped_field num n j x =
     (if n = ''status'' then map_option (\<lambda>i. x\<lparr>wd_status := i\<rparr>) (dec_int64 j (wd_status x))
      else if n = ''body'' then map_option (\<lambda>s. x\<lparr>wd_body := s\<rparr>) (dec_string j (wd_body x))
      else
        (case j of
           JObj ms \<Rightarrow>
             map_option (\<lambda>m. x\<lparr>wd_witness := Some m\<rparr>)
               (members_of num ms (case wd_witness x of Some m \<Rightarrow> m | None \<Rightarrow> []))
         | JNull \<Rightarrow> Some (x\<lparr>wd_witness := None\<rparr>)
         | _ \<Rightarrow> None))"

definition parse_wrapped :: "(string \<Rightarrow> string option) \<Rightarrow> string \<Rightarrow> wrapped option" where
  "parse_wrapped num s =
     Option.bind (parse_json s) (\<lambda>j. decode_struct (set_wrapped_field num) [''status'', ''body'', ''witness''] j
       \<lparr>wd_status = 0, wd_body = [], wd_witness = None\<rparr>)"

text \<open>The texts of a witnessed call: a satellite and a middle dot stand around \<open>witnessed\<close>.\<close>

definition witnessed_text :: "int \<Rightarrow> string \<Rightarrow> string \<Rightarrow> string" where
  "witnessed_text status body seen =
     ''status '' @ dec_int status @ [CHR 0x0A] @ body @ [CHR 0x0A, CHR 0x0A, CHR 0xF0, CHR 0x9F, CHR 0x9B, CHR 0xB0]
     @ '' witnessed '' @ [CHR 0xC2, CHR 0xB7] @ '' '' @ seen @ '' (replayable via the witness)''"

text \<open>What the answer of the witness gives: \<open>None\<close> when the call has to be made directly.\<close>

definition witness_answer :: "(string \<Rightarrow> string option) \<Rightarrow> do_error + httpx_response \<Rightarrow> go_value option" where
  "witness_answer num ans =
     (case ans of
        Inl e \<Rightarrow> None
      | Inr resp \<Rightarrow>
          if hp_status resp < 200 \<or> 300 \<le> hp_status resp then None
          else
            (case parse_wrapped num (hp_body resp) of
               None \<Rightarrow> None
             | Some x \<Rightarrow>
                 (case wd_witness x of
                    None \<Rightarrow> None
                  | Some m \<Rightarrow> Some (tool_text (VStr (witnessed_text (wd_status x) (wd_body x) (arg m ''seen'')))))))"

section \<open>The tool\<close>

text \<open>\<open>toolText\<close> of a response: its struct, with the tags of \<open>httpx.Response\<close>.\<close>

definition header_lists_json :: "(string \<times> string list) list \<Rightarrow> json" where
  "header_lists_json hs = JObj (map (\<lambda>kv. (quote_text (fst kv), JArr (map jstring (snd kv)))) (sort_key fst hs))"

definition response_value :: "httpx_response \<Rightarrow> json" where
  "response_value r = JObj (int_mem ''status'' (hp_status r) @ [(''headers'', header_lists_json (hp_headers r))]
     @ str_mem ''body'' (hp_body r))"

definition response_result :: "httpx_response \<Rightarrow> go_value" where
  "response_result r = VMap (text_content (jindent 0 (response_value r)))"

definition direct_call ::
  "('w, 'e) mcp_env_scheme \<Rightarrow> http_client \<Rightarrow> httpx_request \<Rightarrow> 'w \<Rightarrow> go_value \<times> 'w"
where
  "direct_call env client r w =
     (case http_do_w env (Some client) r w of
        (Inl e, w') \<Rightarrow> (tool_err (''request failed: '' @ me_do_text env e), w')
      | (Inr resp, w') \<Rightarrow> (response_result resp, w'))"

definition http_request_tool :: "('w, 'e) mcp_env_scheme \<Rightarrow> go_args \<Rightarrow> 'w \<Rightarrow> go_value \<times> 'w" where
  "http_request_tool env args w =
     (case call_request env args of
        Inl e \<Rightarrow> (tool_err (''auth: '' @ me_auth_text env e), w)
      | Inr (r, made) \<Rightarrow>
          (let client = call_client env args; witness = me_getenv env ''HTTP_MCP_WITNESS'' in
           if witness = [] then direct_call env client r w
           else
             (case http_do_w env (Some client) (fetch_request witness r made) w of
                (ans, w') \<Rightarrow>
                  (case witness_answer (me_num env) ans of
                     Some res \<Rightarrow> (res, w')
                   | None \<Rightarrow> direct_call env client r w'))))"


section \<open>Properties\<close>

definition headers_value :: "(string \<times> string list) list \<Rightarrow> go_value" where
  "headers_value hs = VMap (map (\<lambda>kv. (fst kv, VList (map VStr (snd kv)))) (sort_key fst hs))"

lemma values_of_strings: "list_all valid_utf8 vs \<Longrightarrow> values_of num (map jstring vs) = Some (map VStr vs)"
  by (induction vs) (simp_all add: jstring_def unquote_quote)

lemma value_of_headers:
  assumes "distinct (map fst hs)" and "\<forall>kv \<in> set hs. valid_utf8 (fst kv) \<and> list_all valid_utf8 (snd kv)"
  shows "value_of num (header_lists_json hs) = Some (headers_value hs)"
proof -
  let ?hs = "sort_key fst hs"
  have "members_of num (map (\<lambda>kv. (quote_text (fst kv), JArr (map jstring (snd kv)))) ms) a
      = Some (a @ map (\<lambda>kv. (fst kv, VList (map VStr (snd kv)))) ms)"
    if "smap_sorted (a @ map (\<lambda>kv. (fst kv, VList (map VStr (snd kv)))) ms)"
      "\<forall>kv \<in> set ms. valid_utf8 (fst kv) \<and> list_all valid_utf8 (snd kv)" for ms a
    using that
  proof (induction ms arbitrary: a)
    case (Cons kv ms)
    have "\<forall>q \<in> set a. fst q < fst kv" using Cons.prems(1) by (auto simp: smap_sorted_def sorted_wrt_append)
    then have "smap_put (fst kv) (VList (map VStr (snd kv))) a = a @ [(fst kv, VList (map VStr (snd kv)))]"
      by (rule smap_put_last)
    then show ?case
      using Cons.IH [of "a @ [(fst kv, VList (map VStr (snd kv)))]"] Cons.prems
      by (simp add: values_of_strings unquote_quote)
  qed simp
  moreover have "smap_sorted (map (\<lambda>kv. (fst kv, VList (map VStr (snd kv)))) ?hs)"
    using sort_key_smap [OF assms(1)] by (simp add: smap_sorted_def o_def)
  ultimately show ?thesis using assms(2) by (simp add: header_lists_json_def headers_value_def)
qed

lemma member_order:
  "''body'' < (''headers'' :: string)" "''headers'' < (''status'' :: string)"
  "''body'' < (''status'' :: string)" "''headers'' \<noteq> (''status'' :: string)"
  by code_simp+

lemma value_of_response:
  assumes "distinct (map fst (hp_headers r))"
    and "\<forall>kv \<in> set (hp_headers r). valid_utf8 (fst kv) \<and> list_all valid_utf8 (snd kv)"
    and "valid_utf8 (hp_body r)" and "num (dec_int (hp_status r)) = Some (dec_int (hp_status r))"
  shows "value_of num (response_value r)
    = Some (VMap [(''body'', VStr (hp_body r)), (''headers'', headers_value (hp_headers r)),
        (''status'', VNum (dec_int (hp_status r)))])"
proof -
  have n: "unquote_text ''status'' = ''status''" "unquote_text ''headers'' = ''headers''" "unquote_text ''body'' = ''body''"
    by code_simp+
  show ?thesis
    using assms(3,4) member_order
    by (simp add: response_value_def str_mem_def int_mem_def jint_def jstring_def n value_of_headers [OF assms(1,2)]
        unquote_quote del: unquote_text.simps quote_text.simps)
qed


lemma response_value_wf: "jwf (response_value r)" "jdepth (response_value r) \<le> 3"
proof -
  have n: "plain ''status''" "plain ''body''" "raw_ok ''headers''" by code_simp+
  have h: "jwf (header_lists_json hs) \<and> jdepth (header_lists_json hs) \<le> 2" for hs
    unfolding header_lists_json_def numeral_2_eq_2
    by (rule jobj_wf) (auto simp: image_image image_constant_conv simp del: raw_ok.simps quote_text.simps)
  have "jwf (response_value r) \<and> jdepth (response_value r) \<le> Suc 2"
    unfolding response_value_def
    using mem_json_wf(3) [OF n(1)] mem_json_wf(1) [OF n(2)] n(3) h
    by (intro jobj_wf) (auto simp del: raw_ok.simps)
  then show "jwf (response_value r)" "jdepth (response_value r) \<le> 3" by simp_all
qed

lemma response_value_read:
  assumes "distinct (map fst (hp_headers r))"
    and "\<forall>kv \<in> set (hp_headers r). valid_utf8 (fst kv) \<and> list_all valid_utf8 (snd kv)"
    and "valid_utf8 (hp_body r)" and "num (dec_int (hp_status r)) = Some (dec_int (hp_status r))"
  shows "extract_val num (response_result r)
    = VMap [(''body'', VStr (hp_body r)), (''headers'', headers_value (hp_headers r)),
        (''status'', VNum (dec_int (hp_status r)))]"
proof -
  have "parse_json (jindent 0 (response_value r)) = Some (response_value r)"
    using response_value_wf [of r] by (intro parse_jindent) (simp_all add: max_depth_def)
  then show ?thesis
    using value_of_response [of r num, OF assms] extract_val_text [of num "jindent 0 (response_value r)" "[]"]
    by (simp add: response_result_def parse_value_def)
qed

text \<open>
  C14. A response is handed on whole: what a later step of a composition finds in the result of
  \<open>http_request\<close> is the status, the headers and the body of the answer, byte for byte.
\<close>

theorem response_readable:
  assumes "distinct (map fst (hp_headers r))"
    and "\<forall>kv \<in> set (hp_headers r). valid_utf8 (fst kv) \<and> list_all valid_utf8 (snd kv)"
    and "valid_utf8 (hp_body r)" and "num (dec_int (hp_status r)) = Some (dec_int (hp_status r))"
  shows "extract_val num (response_result r)
    = VMap [(''body'', VStr (hp_body r)), (''headers'', headers_value (hp_headers r)),
        (''status'', VNum (dec_int (hp_status r)))]"
  using assms by (rule response_value_read)

definition demo_response :: httpx_response where
  "demo_response = \<lparr>hp_status = 404, hp_headers = [(''Content-Type'', [''text/html'', ''b''])], hp_body = ''<a>''\<rparr>"

theorem response_readable_witness:
  "nav_path (extract_val (\<lambda>l. Some l) (response_result demo_response)) [''body''] = Some (VStr ''<a>'')"
proof -
  have "\<forall>kv \<in> set (hp_headers demo_response). valid_utf8 (fst kv) \<and> list_all valid_utf8 (snd kv)"
    "valid_utf8 (hp_body demo_response)" "distinct (map fst (hp_headers demo_response))" by code_simp+
  with response_readable [of demo_response "\<lambda>l. Some l"] show ?thesis
    by (simp add: at_key_def demo_response_def del: valid_utf8.simps)
qed


text \<open>A timeout below one millisecond is cut to zero, which is no timeout at all.\<close>

theorem tiny_timeout_unbounded:
  assumes "map_of args ''timeout_ms'' = Some (VNum t)" and "me_pos env t" and "me_int env t = 0"
  shows "cl_timeout_ms (call_client env args) = 0"
  using assms by (simp add: call_client_def arg_timeout_def wrap64_def)


definition demo_env :: "nat mcp_env" where
  "demo_env = \<lparr>me_num = (\<lambda>l. Some l), me_pos = (\<lambda>t. True), me_int = (\<lambda>t. 0),
     me_getenv = (\<lambda>v. if v = ''LT_USERNAME'' then ''u'' else if v = ''LT_ACCESS_KEY'' then ''k'' else []),
     me_exe = None, me_read = (\<lambda>p. Inl ''no file''), me_url_err = (\<lambda>u. None),
     me_net = (\<lambda>n c q. (Inr \<lparr>wp_status = 200, wp_headers = [], wp_body = [], wp_body_err = None\<rparr>, Suc n)),
     me_auth_text = (\<lambda>e. []), me_do_text = (\<lambda>e. [])\<rparr>"

definition demo_profile_args :: go_args where
  "demo_profile_args = [(''auth'', VMap [(''profile'', VStr ''lt'')]), (''method'', VStr ''GET''),
     (''timeout_ms'', VNum ''0.5''), (''url'', VStr ''http://h/'')]"


theorem tiny_timeout_unbounded_witness: "cl_timeout_ms (call_client demo_env demo_profile_args) = 0"
proof -
  have "map_of demo_profile_args ''timeout_ms'' = Some (VNum ''0.5'')" by code_simp
  then show ?thesis by (rule tiny_timeout_unbounded) (simp_all add: demo_env_def)
qed

end
