(* ===== verification/Specs.thy ===== *)
theory Specs
  imports Mcp_Call Probe
begin

text \<open>
  \<open>probeSpecs\<close> of \<open>cmd/mcp/main.go\<close>: the stored tables that fit a filter, their routes without
  duplicates, one call per route with made-up parameters, and the count of the verdicts. The disk is
  part of the environment \<open>disk_env\<close>: \<open>de_is_dir\<close> is \<open>dirExists\<close> and \<open>de_read_dir\<close> is
  \<open>os.ReadDir\<close>, the names in its order and \<open>None\<close> for an error.
\<close>

record 'w disk_env = "'w mcp_env" +
  de_is_dir :: "string \<Rightarrow> bool"
  de_read_dir :: "string \<Rightarrow> string list option"

text \<open>\<open>specsDir\<close>: beside the executable, two levels above it, or in the working directory.\<close>

definition specs_dir :: "('w, 'e) disk_env_scheme \<Rightarrow> string" where
  "specs_dir env =
     (let near = (case me_exe env of
                    Some exe \<Rightarrow> [path_join [path_dir exe, ''specs''], path_join [path_dir exe, ''..'', ''..'', ''specs'']]
                  | None \<Rightarrow> [])
      in case find (de_is_dir env) (near @ [''specs'']) of Some d \<Rightarrow> d | None \<Rightarrow> [])"

section \<open>The stored tables\<close>

record spec_file =
  sf_source :: string
  sf_version :: string
  sf_routes :: "route list"

definition set_spec_field :: "string \<Rightarrow> json \<Rightarrow> spec_file \<Rightarrow> spec_file option" where
  "set_spec_field n j f =
     (if n = ''source'' then map_option (\<lambda>s. f\<lparr>sf_source := s\<rparr>) (dec_string j (sf_source f))
      else if n = ''version'' then map_option (\<lambda>s. f\<lparr>sf_version := s\<rparr>) (dec_string j (sf_version f))
      else map_option (\<lambda>rs. f\<lparr>sf_routes := rs\<rparr>) (dec_routes j (sf_routes f)))"

definition parse_spec :: "string \<Rightarrow> spec_file option" where
  "parse_spec s =
     Option.bind (parse_json s) (\<lambda>j. decode_struct set_spec_field [''source'', ''version'', ''routes''] j
       \<lparr>sf_source = [], sf_version = [], sf_routes = []\<rparr>)"

text \<open>One entry of a directory; what is no table, does not fit, or cannot be read is skipped.\<close>

definition load_entry ::
  "('w, 'e) disk_env_scheme \<Rightarrow> string \<Rightarrow> string \<Rightarrow> string \<Rightarrow> string \<Rightarrow> (string \<times> spec_file) list"
where
  "load_entry env dir sub fltr entry =
     (if \<not> has_suffix entry ''.json'' then []
      else
        (let name = trim_suffix entry ''.json''
         in if fltr \<noteq> [] \<and> \<not> contains name fltr then []
            else
              (case me_read env (dir @ ''/'' @ entry) of
                 Inl e \<Rightarrow> []
               | Inr b \<Rightarrow> (case parse_spec b of None \<Rightarrow> [] | Some f \<Rightarrow> [(sub @ ''/'' @ name, f)]))))"

definition load_sub :: "('w, 'e) disk_env_scheme \<Rightarrow> string \<Rightarrow> string \<Rightarrow> string \<Rightarrow> (string \<times> spec_file) list" where
  "load_sub env specs fltr sub =
     (let dir = specs @ ''/'' @ sub
      in case de_read_dir env dir of None \<Rightarrow> [] | Some names \<Rightarrow> concat (map (load_entry env dir sub fltr) names))"

definition load_specs :: "('w, 'e) disk_env_scheme \<Rightarrow> string \<Rightarrow> string \<Rightarrow> (string \<times> spec_file) list" where
  "load_specs env specs fltr = concat (map (load_sub env specs fltr) [''webdriver'', ''appium''])"

text \<open>Every route once; two routes are the same when method, a blank and path give the same text.\<close>

definition route_key :: "route \<Rightarrow> string" where
  "route_key r = rt_method r @ '' '' @ rt_path r"

fun dedupe :: "string list \<Rightarrow> route list \<Rightarrow> route list" where
  "dedupe seen [] = []"
| "dedupe seen (r # rs) =
     (if route_key r \<in> set seen then dedupe seen rs else r # dedupe (route_key r # seen) rs)"

definition spec_routes :: "(string \<times> spec_file) list \<Rightarrow> route list" where
  "spec_routes specs = dedupe [] (concat (map (sf_routes \<circ> snd) specs))"

section \<open>One probe\<close>

definition spec_bogus :: string where
  "spec_bogus = ''00000000-0000-0000-0000-000000000000''"

definition spec_segment :: "string \<Rightarrow> string" where
  "spec_segment s = (if has_prefix s '':'' then ''bogus'' else s)"

definition spec_path :: "string \<Rightarrow> string" where
  "spec_path path =
     (let p = replace_all (replace_all path '':sessionId'' spec_bogus) '':id'' spec_bogus
      in join_byte (map spec_segment (split_byte p (CHR ''/''))) (CHR ''/''))"

definition probe_call :: "string \<Rightarrow> route \<Rightarrow> httpx_request" where
  "probe_call hub r = \<lparr>hq_method = rt_method r, hq_url = hub @ spec_path (rt_path r), hq_headers = [], hq_body = []\<rparr>"

text \<open>The discriminator: the media type of the answer.\<close>

definition answers_json :: "httpx_response \<Rightarrow> bool" where
  "answers_json resp =
     contains (concat (case map_of (hp_headers resp) ''Content-Type'' of Some vs \<Rightarrow> vs | None \<Rightarrow> [])) ''json''"

definition sample_entry :: "route \<Rightarrow> int \<Rightarrow> go_value" where
  "sample_entry r status =
     VMap [(''route'', VStr (route_key r)), (''status'', VNum (dec_int status)), (''verdict'', VStr ''exists'')]"

section \<open>The run\<close>

record spec_tally =
  st_exists :: nat
  st_absent :: nat
  st_errored :: nat
  st_sample :: "go_value list"

definition sample_size :: nat where "sample_size = 5"

definition count_answer :: "route \<Rightarrow> do_error + httpx_response \<Rightarrow> spec_tally \<Rightarrow> spec_tally" where
  "count_answer r ans t =
     (case ans of
        Inl e \<Rightarrow> t\<lparr>st_errored := st_errored t + 1\<rparr>
      | Inr resp \<Rightarrow>
          if answers_json resp then
            t\<lparr>st_exists := st_exists t + 1,
              st_sample := (if length (st_sample t) < sample_size
                then st_sample t @ [sample_entry r (hp_status resp)] else st_sample t)\<rparr>
          else t\<lparr>st_absent := st_absent t + 1\<rparr>)"

fun probe_specs_loop ::
  "('w, 'e) disk_env_scheme \<Rightarrow> string \<Rightarrow> route list \<Rightarrow> spec_tally \<Rightarrow> 'w \<Rightarrow> spec_tally \<times> 'w"
where
  "probe_specs_loop env hub [] t w = (t, w)"
| "probe_specs_loop env hub (r # rs) t w =
     (case http_do_w env (Some server_client) (probe_call hub r) w of
        (ans, w') \<Rightarrow> probe_specs_loop env hub rs (count_answer r ans t) w')"

definition probe_note :: string where
  "probe_note = ''probe verdict beats snapshot claim. exists=route matched a handler; absent=router never matched.''"

definition probe_report :: "nat \<Rightarrow> spec_tally \<Rightarrow> go_value" where
  "probe_report probed t =
     VMap [(''absent'', vint (st_absent t)), (''errored'', vint (st_errored t)), (''exists'', vint (st_exists t)),
       (''note'', VStr probe_note), (''probed'', vint probed), (''sample'', VList (st_sample t))]"

definition probe_specs ::
  "('w, 'e) disk_env_scheme \<Rightarrow> string \<Rightarrow> string \<Rightarrow> string \<Rightarrow> 'w \<Rightarrow> go_value option \<times> 'w"
where
  "probe_specs env hub specs fltr w =
     (let loaded = load_specs env specs fltr
      in if loaded = [] then (None, w)
         else
           (let routes = spec_routes loaded
            in case probe_specs_loop env hub routes \<lparr>st_exists = 0, st_absent = 0, st_errored = 0, st_sample = []\<rparr> w of
                 (t, w') \<Rightarrow> (Some (probe_report (length routes) t), w')))"


section \<open>Properties\<close>

lemma dedupe_keys:
  "distinct (map route_key (dedupe seen rs))
   \<and> route_key ` set (dedupe seen rs) = route_key ` set rs - set seen"
proof (induction rs arbitrary: seen)
  case (Cons r rs)
  show ?case
  proof (cases "route_key r \<in> set seen")
    case False
    have "route_key r \<notin> route_key ` set (dedupe (route_key r # seen) rs)"
      using Cons.IH [of "route_key r # seen"] by auto
    then show ?thesis using Cons.IH [of "route_key r # seen"] False by auto
  qed (use Cons.IH [of seen] in auto)
qed simp

text \<open>The answers to the probes of a list of routes, one after the other.\<close>

fun probe_answers ::
  "('w, 'e) disk_env_scheme \<Rightarrow> string \<Rightarrow> route list \<Rightarrow> 'w \<Rightarrow> (do_error + httpx_response) list"
where
  "probe_answers env hub [] w = []"
| "probe_answers env hub (r # rs) w =
     (case http_do_w env (Some server_client) (probe_call hub r) w of
        (ans, w') \<Rightarrow> ans # probe_answers env hub rs w')"

definition served :: "do_error + httpx_response \<Rightarrow> bool" where
  "served ans = (case ans of Inl e \<Rightarrow> False | Inr resp \<Rightarrow> answers_json resp)"

definition served_entries :: "route list \<Rightarrow> (do_error + httpx_response) list \<Rightarrow> go_value list" where
  "served_entries rs answers =
     map (\<lambda>(r, ans). sample_entry r (hp_status (projr ans))) (filter (served \<circ> snd) (zip rs answers))"

lemma served_simps [simp]: "served (Inl e) \<longleftrightarrow> False" "served (Inr resp) \<longleftrightarrow> answers_json resp"
  by (simp_all add: served_def)

lemma served_entries_Cons [simp]:
  "served_entries (r # rs) (a # as)
     = (if served a then [sample_entry r (hp_status (projr a))] else []) @ served_entries rs as"
  by (simp add: served_entries_def)

lemma probe_answers_length [simp]: "length (probe_answers env hub rs w) = length rs"
  by (induction rs arbitrary: w) (auto split: prod.splits)

lemma probe_specs_loop_counts:
  assumes "probe_specs_loop env hub rs t w = (t', w')"
  shows "st_exists t' = st_exists t + length (filter served (probe_answers env hub rs w))
    \<and> st_errored t' = st_errored t + length (filter isl (probe_answers env hub rs w))
    \<and> st_exists t' + st_absent t' + st_errored t' = st_exists t + st_absent t + st_errored t + length rs
    \<and> st_sample t' = st_sample t @ take (sample_size - length (st_sample t)) (served_entries rs (probe_answers env hub rs w))"
  using assms
proof (induction rs arbitrary: t w)
  case (Cons r rs)
  obtain ans w1 where a: "http_do_w env (Some server_client) (probe_call hub r) w = (ans, w1)" by fastforce
  with Cons.prems have "probe_specs_loop env hub rs (count_answer r ans t) w1 = (t', w')" by simp
  from Cons.IH [OF this] show ?case
  proof (cases ans)
    case (Inr resp)
    with Cons.IH [OF \<open>probe_specs_loop env hub rs (count_answer r ans t) w1 = (t', w')\<close>] show ?thesis
      by (cases "answers_json resp"; cases "sample_size - length (st_sample t)")
        (simp_all add: a count_answer_def diff_Suc)
  qed (simp add: a count_answer_def)
qed (simp add: served_entries_def)

text \<open>
  C13. The re-perception of a hub is a complete count: every route of the tables that fit the filter is
  called exactly once (routes with the same method and path are one), each answer is a JSON answer, another
  answer or an error of the call and is counted as such, so the three counts add up to the number of
  routes; the sample shows the first five routes that were answered in JSON, with their statuses.
\<close>

theorem probe_specs_counts:
  assumes "probe_specs env hub specs fltr w = (Some report, w')"
  shows "\<exists>routes answers t. report = probe_report (length routes) t
    \<and> distinct (map route_key routes)
    \<and> route_key ` set routes = (\<Union>sp \<in> set (load_specs env specs fltr). route_key ` set (sf_routes (snd sp)))
    \<and> answers = probe_answers env hub routes w
    \<and> st_exists t = length (filter served answers)
    \<and> st_errored t = length (filter isl answers)
    \<and> st_exists t + st_absent t + st_errored t = length routes
    \<and> st_sample t = take 5 (served_entries routes answers)"
proof -
  let ?specs = "load_specs env specs fltr" and ?t = "\<lparr>st_exists = 0, st_absent = 0, st_errored = 0, st_sample = []\<rparr>"
  obtain t where t: "probe_specs_loop env hub (spec_routes ?specs) ?t w = (t, w')"
    and rep: "report = probe_report (length (spec_routes ?specs)) t"
    using assms by (auto simp: probe_specs_def Let_def split: if_splits prod.splits)
  show ?thesis
    using probe_specs_loop_counts [OF t] dedupe_keys [of "[]" "concat (map (sf_routes \<circ> snd) ?specs)"] rep
    by (intro exI [of _ "spec_routes ?specs"] exI [of _ "probe_answers env hub (spec_routes ?specs) w"] exI [of _ t])
      (auto simp: sample_size_def spec_routes_def image_UN)
qed

lemma probe_specs_runs: "load_specs env specs fltr \<noteq> [] \<Longrightarrow> \<exists>report w'. probe_specs env hub specs fltr w = (Some report, w')"
  by (simp add: probe_specs_def Let_def split: prod.splits)

definition table_text :: string where
  "table_text = jprint (JObj [(''routes'', JArr (map route_json [Route ''GET'' ''/a'', Route ''GET'' ''/s/:id'', Route ''GET'' ''/a'']))])"

definition demo_disk :: "nat disk_env" where
  "demo_disk = \<lparr>me_num = (\<lambda>l. Some l), me_pos = (\<lambda>t. True), me_int = (\<lambda>t. 0), me_getenv = (\<lambda>v. []),
     me_exe = None, me_read = (\<lambda>p. if p = ''specs/webdriver/w@1.json'' then Inr table_text else Inl ''no file''),
     me_url_err = (\<lambda>u. None),
     me_net = (\<lambda>n c q. (Inr \<lparr>wp_status = 404, wp_headers = [(''Content-Type'', [''application/json''])],
       wp_body = [], wp_body_err = None\<rparr>, Suc n)),
     me_auth_text = (\<lambda>e. []), me_do_text = (\<lambda>e. []), de_is_dir = (\<lambda>d. d = ''specs''),
     de_read_dir = (\<lambda>d. if d = ''specs/webdriver'' then Some [''README'', ''w@1.json''] else None)\<rparr>"

theorem probe_specs_counts_witness:
  "\<exists>report w' routes t. probe_specs demo_disk ''http://h'' ''specs'' ''w@'' 0 = (Some report, w')
     \<and> report = probe_report (length routes) t \<and> distinct (map route_key routes)
     \<and> st_exists t + st_absent t + st_errored t = length routes"
proof -
  have "load_specs demo_disk ''specs'' ''w@'' \<noteq> []" by code_simp
  from probe_specs_runs [OF this] obtain report w'
    where "probe_specs demo_disk ''http://h'' ''specs'' ''w@'' 0 = (Some report, w')" by blast
  moreover from probe_specs_counts [OF this] obtain routes t where "report = probe_report (length routes) t"
    "distinct (map route_key routes)" "st_exists t + st_absent t + st_errored t = length routes"
    by (elim exE conjE) (rule that, assumption+)
  ultimately show ?thesis by blast
qed

lemma spec_segment_concrete: "\<not> has_prefix (spec_segment s) '':''"
  by (simp add: spec_segment_def)

lemma spec_segment_free: "CHR ''/'' \<notin> set s \<Longrightarrow> CHR ''/'' \<notin> set (spec_segment s)"
  by (simp add: spec_segment_def)

text \<open>The probed path is concrete: no segment of it is a parameter with a leading colon.\<close>

theorem spec_path_concrete:
  "list_all (\<lambda>s. \<not> has_prefix s '':'') (split_byte (spec_path path) (CHR ''/''))"
  unfolding spec_path_def Let_def
  by (subst split_map_join) (use spec_segment_free spec_segment_concrete in \<open>simp_all add: list_all_iff\<close>)

definition unknown_command :: string where
  "unknown_command = jprint (JObj [(''value'', JObj [(''error'', jstring ''unknown command'')])])"

text \<open>
  The two probes of the repository disagree: on the W3C answer for a command that is not there,
  \<open>internal/probe\<close> says that the route is absent, \<open>discover\<close> counts it as served.
\<close>

theorem probes_disagree:
  "fst (judge (Inr (404, unknown_command))) = Absent
   \<and> st_exists (count_answer r (Inr \<lparr>hp_status = 404, hp_headers = [(''Content-Type'', [''application/json''])],
       hp_body = unknown_command\<rparr>) t) = Suc (st_exists t)"
proof -
  have "fst (judge (Inr (404, unknown_command))) = Absent" by code_simp
  moreover have "contains (''application/json'' :: string) ''json''" by code_simp
  ultimately show ?thesis by (simp add: count_answer_def answers_json_def)
qed

end
