(* ===== verification/Json_Sound.thy ===== *)
theory Json_Sound
  imports Json_Text
begin

text \<open>
  What the parser accepts: a tree that \<open>parse_json\<close> returns is well-formed and respects the nesting
  limit, so that printing it gives a document again.
\<close>

lemma scan_str_raw_ok: "scan_str s = Some (r, t) \<Longrightarrow> raw_ok r"
proof (induction s arbitrary: r t rule: scan_str.induct)
  case (2 c s)
  show ?case
  proof (cases "c = CHR 0x5C")
    case True
    then obtain e s' where s: "s = e # s'" using 2(4) by (cases s) auto
    show ?thesis
    proof (cases "e = CHR ''u''")
      case True
      obtain r' where "scan_str (drop 4 s') = Some (r', t)" "r = c # e # take 4 s' @ r'"
        and h: "4 \<le> length s'" "list_all is_hex (take 4 s')"
        using 2(4) \<open>c = CHR 0x5C\<close> s True by (auto split: if_splits)
      then show ?thesis using 2(1) [of e s' r' t] \<open>c = CHR 0x5C\<close> s True by auto
    next
      case False
      obtain r' where "scan_str s' = Some (r', t)" "r = c # e # r'" "simple_escape e"
        using 2(4) \<open>c = CHR 0x5C\<close> s False by (auto split: if_splits)
      then show ?thesis using 2(2) [of e s' r' t] \<open>c = CHR 0x5C\<close> s False by auto
    qed
  next
    case False
    then show ?thesis using 2(3) [of _ t] 2(4) by (auto split: if_splits)
  qed
qed simp

lemma takeWhile_again: "u = [] \<or> \<not> P (hd u) \<Longrightarrow> takeWhile P (takeWhile P x @ u) = takeWhile P x"
  by (cases u) (auto simp: takeWhile_append dest: set_takeWhileD)

lemma dropWhile_again: "u = [] \<or> \<not> P (hd u) \<Longrightarrow> dropWhile P (takeWhile P x @ u) = u"
  by (cases u) (auto simp: dropWhile_append dest: set_takeWhileD)

lemma dropWhile_takeWhile_same [simp]: "dropWhile P (takeWhile P x) = []"
  by (auto simp: dropWhile_eq_Nil_conv dest: set_takeWhileD)

lemma not_digits: "\<not> is_digit (CHR ''-'')" "\<not> is_digit (CHR ''+'')" "\<not> is_digit (CHR ''.'')"
  "\<not> is_digit (CHR ''e'')" "\<not> is_digit (CHR ''E'')"
  by (simp_all add: is_digit_def byte_val_def)

lemma scan_int_Some:
  assumes "scan_int s = Some (i, r)"
  shows "i \<noteq> [] \<and> \<not> has_prefix i ''-'' \<and> (\<forall>u. u = [] \<or> \<not> is_digit (hd u) \<longrightarrow> scan_int (i @ u) = Some (i, u))"
proof -
  obtain c x where s: "s = c # x" using assms by (cases s) (auto simp: scan_int_def)
  show ?thesis
  proof (cases "c = CHR ''0''")
    case True
    then show ?thesis using assms s by (auto simp: scan_int_def)
  next
    case False
    then have i: "i = c # takeWhile is_digit x" "is_digit c" using assms s by (auto simp: scan_int_def split: if_splits)
    then have "c \<noteq> CHR ''-''" using not_digits by auto
    moreover have "scan_int (i @ u) = Some (i, u)" if "u = [] \<or> \<not> is_digit (hd u)" for u
      using i False takeWhile_again [of u is_digit, OF that] dropWhile_again [of u is_digit, OF that] by (simp add: scan_int_def)
    ultimately show ?thesis using i(1) by simp
  qed
qed

lemma scan_frac_Some:
  assumes "scan_frac s = Some (f, r)"
  shows "(f = [] \<or> hd f = CHR ''.'')
    \<and> (\<forall>u. u = [] \<or> \<not> is_digit (hd u) \<and> hd u \<noteq> CHR ''.'' \<longrightarrow> scan_frac (f @ u) = Some (f, u))"
proof (cases f)
  case Nil
  have "scan_frac u = Some ([], u)" if "u = [] \<or> hd u \<noteq> CHR ''.''" for u
    using that by (cases u) (auto simp: scan_frac_def)
  then show ?thesis using Nil by auto
next
  case (Cons c x)
  then obtain y where f: "f = CHR ''.'' # takeWhile is_digit y" "takeWhile is_digit y \<noteq> []"
    using assms by (auto simp: scan_frac_def split: list.splits if_splits)
  have "scan_frac (f @ u) = Some (f, u)" if "u = [] \<or> \<not> is_digit (hd u)" for u
    using f takeWhile_again [of u is_digit, OF that] dropWhile_again [of u is_digit, OF that] by (simp add: scan_frac_def)
  then have "scan_frac (f @ u) = Some (f, u)" if "u = [] \<or> \<not> is_digit (hd u) \<and> hd u \<noteq> CHR ''.''" for u
    using that by blast
  then show ?thesis using f(1) by simp
qed

lemma scan_exp_Some:
  assumes "scan_exp s = Some (e, r)"
  shows "(e = [] \<or> hd e = CHR ''e'' \<or> hd e = CHR ''E'') \<and> scan_exp e = Some (e, [])"
proof (cases e)
  case (Cons c e')
  then obtain x sg where s: "s = c # x" "c = CHR ''e'' \<or> c = CHR ''E''"
    and sg: "sg = (case x of [] \<Rightarrow> [] | g # _ \<Rightarrow> if g = CHR ''+'' \<or> g = CHR ''-'' then [g] else [])"
    and t: "takeWhile is_digit (drop (length sg) x) \<noteq> []" "e' = sg @ takeWhile is_digit (drop (length sg) x)"
    using assms by (auto simp: scan_exp_def Let_def split: list.splits if_splits)
  have d: "is_digit (hd (takeWhile is_digit (drop (length sg) x)))" using t(1) by (metis hd_in_set set_takeWhileD)
  have "(case e' of [] \<Rightarrow> [] | g # _ \<Rightarrow> if g = CHR ''+'' \<or> g = CHR ''-'' then [g] else []) = sg"
  proof (cases sg)
    case Nil
    then have "e' = takeWhile is_digit x" and "hd e' \<noteq> CHR ''+''" "hd e' \<noteq> CHR ''-''" using t d not_digits by auto
    moreover obtain g gs where "takeWhile is_digit x = g # gs"
      using t(1) Nil by (cases "takeWhile is_digit x") simp_all
    ultimately show ?thesis using Nil by simp
  next
    case (Cons g gs)
    then have "gs = []" "g = CHR ''+'' \<or> g = CHR ''-''" using sg by (auto split: list.splits if_splits)
    then show ?thesis using t(2) Cons by simp
  qed
  then show ?thesis
    using s(2) Cons t takeWhile_again [of "[]" is_digit] dropWhile_again [of "[]" is_digit]
    by (auto simp: scan_exp_def Let_def)
qed (simp add: scan_exp_def)

lemma scan_num_wf:
  assumes "scan_num s = Some (l, r)"
  shows "num_ok l"
proof -
  obtain sg i f e s1 s2 where l: "l = sg @ i @ f @ e" "sg = (if has_prefix s ''-'' then ''-'' else [])"
    and i: "scan_int (drop (length sg) s) = Some (i, s1)" and f: "scan_frac s1 = Some (f, s2)"
    and e: "scan_exp s2 = Some (e, r)"
    using assms by (auto simp: scan_num_def Let_def split: option.splits)
  note I = scan_int_Some [OF i] and F = scan_frac_Some [OF f] and E = scan_exp_Some [OF e]
  have "has_prefix l ''-'' \<longleftrightarrow> sg = ''-''"
    using l(2) I unfolding l(1) by (cases i) auto
  then have p: "(if has_prefix l ''-'' then ''-'' else []) = sg" using l(2) by auto
  have d: "drop (length sg) l = i @ f @ e" by (simp add: l(1))
  have "f @ e = [] \<or> \<not> is_digit (hd (f @ e))" using E F not_digits by (cases f) auto
  moreover have "e = [] \<or> \<not> is_digit (hd e) \<and> hd e \<noteq> CHR ''.''" using E not_digits by auto
  ultimately have "scan_int (i @ f @ e) = Some (i, f @ e)" "scan_frac (f @ e) = Some (f, e)" "scan_exp e = Some (e, [])"
    using I F E by blast+
  then show ?thesis by (simp add: num_ok_def scan_num_def p d Let_def) (simp add: l(1))
qed

lemma pval_sound:
  "pval n d s = Some (j, t) \<Longrightarrow> jwf j \<and> jdepth j \<le> d"
  "pelems n d s = Some (vs, t) \<Longrightarrow> \<forall>v \<in> set vs. jwf v \<and> jdepth v \<le> d"
  "pmems n d s = Some (ms, t) \<Longrightarrow> \<forall>m \<in> set ms. raw_ok (fst m) \<and> jwf (snd m) \<and> jdepth (snd m) \<le> d"
proof (induction n d s and n d s and n d s arbitrary: j t and vs t and ms t rule: pval_pelems_pmems.induct)
  case (2 n d s)
  obtain c r where s: "skip_ws s = c # r" using 2(3) by (cases "skip_ws s") auto
  consider (obj) "c = CHR ''{''" | (arr) "c = CHR ''[''" | (other) "c \<noteq> CHR ''{''" "c \<noteq> CHR ''[''" by blast
  then show ?case
  proof cases
    case obj
    then have d: "d \<noteq> 0" using 2(3) s by (auto split: if_splits)
    show ?thesis
    proof (cases "has_prefix (skip_ws r) ''}''")
      case True
      then show ?thesis using 2(3) s obj d by auto
    next
      case False
      then obtain ms where "pmems n (d - 1) r = Some (ms, t)" "j = JObj ms" using 2(3) s obj d by auto
      then show ?thesis using 2(1) [OF s obj d False] d by (cases d) auto
    qed
  next
    case arr
    then have d: "d \<noteq> 0" using 2(3) s by (auto split: if_splits)
    show ?thesis
    proof (cases "has_prefix (skip_ws r) '']''")
      case True
      then show ?thesis using 2(3) s arr d by auto
    next
      case False
      then obtain vs where "pelems n (d - 1) r = Some (vs, t)" "j = JArr vs" using 2(3) s arr d by auto
      then show ?thesis using 2(2) [OF s _ arr d False] arr d by (cases d) auto
    qed
  next
    case other
    then show ?thesis using 2(3) s scan_str_raw_ok scan_num_wf by (auto split: if_splits)
  qed
next
  case (4 n d s)
  then show ?case by (auto split: option.splits list.splits if_splits)
next
  case (6 n d s)
  obtain r where s: "skip_ws s = CHR 0x22 # r" using 6(3) by (auto split: list.splits if_splits)
  then obtain k t1 where k: "scan_str r = Some (k, t1)" using 6(3) by (auto split: option.splits)
  then obtain r2 where t1: "skip_ws t1 = CHR '':'' # r2" using 6(3) s by (auto split: list.splits if_splits)
  then obtain v t2 where v: "pval n d r2 = Some (v, t2)" using 6(3) s k by (auto split: option.splits)
  have j: "raw_ok k" "jwf v \<and> jdepth v \<le> d"
    using scan_str_raw_ok [OF k] 6(1) [OF s _ k refl t1 _ v] by simp_all
  obtain c3 r3 where t2: "skip_ws t2 = c3 # r3" using 6(3) s k t1 v by (auto split: list.splits)
  show ?case
  proof (cases "c3 = CHR '',''")
    case True
    then obtain ms' where m: "pmems n d r3 = Some (ms', t)" "ms = (k, v) # ms'" using 6(3) s k t1 v t2 by auto
    have "\<forall>m \<in> set ms'. raw_ok (fst m) \<and> jwf (snd m) \<and> jdepth (snd m) \<le> d"
      using 6(2) [OF s _ k refl t1 _ v refl t2 True m(1)] by simp
    then show ?thesis using m(2) j by simp
  next
    case False
    then show ?thesis using 6(3) s k t1 v t2 j by (auto split: if_splits)
  qed
qed simp_all

theorem parse_json_sound: "parse_json s = Some j \<Longrightarrow> jwf j \<and> jdepth j \<le> max_depth"
  by (auto simp: parse_json_def simp del: pval.simps dest!: pval_sound(1) split: option.splits if_splits)


text \<open>A document that ends with a line feed, as the writers of lines leave it.\<close>

lemma parse_jprint_line:
  assumes "jwf j" and "jdepth j \<le> max_depth"
  shows "parse_json (jprint j @ [CHR 0x0A]) = Some j"
proof -
  have "pval (2 * length (jprint j @ [CHR 0x0A]) + 2) max_depth (jprint j @ [CHR 0x0A]) = Some (j, [CHR 0x0A])"
    using assms by (intro jprint_parse_gen) (auto simp: is_digit_def byte_val_def)
  then show ?thesis by (simp add: parse_json_def skip_ws_def is_ws_def)
qed

end
