(* ===== verification/Discover.thy ===== *)
theory Discover
  imports Specs Json_Sound
begin

text \<open>
  The tool \<open>discover\<close> of \<open>cmd/mcp/main.go\<close>: \<open>held_channels\<close> asks the loopback ports of the brokers
  (\<open>heldChannels\<close>) and \<open>discover_tool\<close> asks a hub about itself and probes its routes (\<open>discover\<close>).
  Errors of \<open>json.Unmarshal\<close> are not looked at there, so the decoders of this theory keep what could be
  decoded: a value of the wrong kind leaves its place as it was, a number out of range leaves \<open>nil\<close>.
\<close>

section \<open>Decoding without looking at the error\<close>

fun bad_nums :: "(string \<Rightarrow> string option) \<Rightarrow> json \<Rightarrow> json" where
  "bad_nums num (JNum l) = (if num l = None then JNull else JNum l)"
| "bad_nums num (JArr js) = JArr (map (bad_nums num) js)"
| "bad_nums num (JObj ms) = JObj (map (\<lambda>m. (fst m, bad_nums num (snd m))) ms)"
| "bad_nums num j = j"

definition kept :: "'a option \<Rightarrow> 'a \<Rightarrow> 'a" where
  "kept new old = (case new of Some x \<Rightarrow> x | None \<Rightarrow> old)"

text \<open>A \<open>map[string]any\<close>, \<open>None\<close> for nil.\<close>

definition dec_any_map :: "(string \<Rightarrow> string option) \<Rightarrow> json \<Rightarrow> go_args option \<Rightarrow> go_args option" where
  "dec_any_map num j old =
     (case j of
        JObj ms \<Rightarrow>
          Some (kept (members_of num (map (\<lambda>m. (fst m, bad_nums num (snd m))) ms) (kept old [])) (kept old []))
      | JNull \<Rightarrow> None
      | _ \<Rightarrow> old)"

definition read_any_map :: "(string \<Rightarrow> string option) \<Rightarrow> string \<Rightarrow> go_args option" where
  "read_any_map num s = (case parse_json s of None \<Rightarrow> None | Some j \<Rightarrow> dec_any_map num j None)"

definition opt_map :: "go_args option \<Rightarrow> go_value" where
  "opt_map m = (case m of Some kvs \<Rightarrow> VMap kvs | None \<Rightarrow> VNull)"

section \<open>The stored table of the channel\<close>

record chan_method =
  cm_does :: string
  cm_example :: "go_args option"

record chan_spec =
  cs_protocol :: string
  cs_version :: string
  cs_methods :: "(string \<times> chan_method) list"
  cs_events :: "go_args option"
  cs_verify :: "go_args option"

definition no_method :: chan_method where
  "no_method = \<lparr>cm_does = [], cm_example = None\<rparr>"

definition no_spec :: chan_spec where
  "no_spec = \<lparr>cs_protocol = [], cs_version = [], cs_methods = [], cs_events = None, cs_verify = None\<rparr>"

definition set_method_field ::
  "(string \<Rightarrow> string option) \<Rightarrow> string \<Rightarrow> json \<Rightarrow> chan_method \<Rightarrow> chan_method option"
where
  "set_method_field num n j m =
     Some (if n = ''does'' then m\<lparr>cm_does := kept (dec_string j (cm_does m)) (cm_does m)\<rparr>
           else m\<lparr>cm_example := dec_any_map num j (cm_example m)\<rparr>)"

definition dec_method :: "(string \<Rightarrow> string option) \<Rightarrow> json \<Rightarrow> chan_method" where
  "dec_method num j = kept (decode_struct (set_method_field num) [''does'', ''example''] j no_method) no_method"

definition dec_methods ::
  "(string \<Rightarrow> string option) \<Rightarrow> json \<Rightarrow> (string \<times> chan_method) list \<Rightarrow> (string \<times> chan_method) list"
where
  "dec_methods num j old =
     (case j of
        JObj ms \<Rightarrow> fold (\<lambda>m. smap_put (unquote_text (fst m)) (dec_method num (snd m))) ms old
      | JNull \<Rightarrow> []
      | _ \<Rightarrow> old)"

definition set_chan_field ::
  "(string \<Rightarrow> string option) \<Rightarrow> string \<Rightarrow> json \<Rightarrow> chan_spec \<Rightarrow> chan_spec option"
where
  "set_chan_field num n j c =
     Some (if n = ''protocol'' then c\<lparr>cs_protocol := kept (dec_string j (cs_protocol c)) (cs_protocol c)\<rparr>
           else if n = ''version'' then c\<lparr>cs_version := kept (dec_string j (cs_version c)) (cs_version c)\<rparr>
           else if n = ''methods'' then c\<lparr>cs_methods := dec_methods num j (cs_methods c)\<rparr>
           else if n = ''events'' then c\<lparr>cs_events := dec_any_map num j (cs_events c)\<rparr>
           else c\<lparr>cs_verify := dec_any_map num j (cs_verify c)\<rparr>)"

definition read_chan_spec :: "('w, 'e) disk_env_scheme \<Rightarrow> chan_spec" where
  "read_chan_spec env =
     (case me_read env (specs_dir env @ ''/channel/bidi@1.0.json'') of
        Inl e \<Rightarrow> no_spec
      | Inr data \<Rightarrow>
          (case parse_json data of
             None \<Rightarrow> no_spec
           | Some j \<Rightarrow>
               kept (decode_struct (set_chan_field (me_num env))
                 [''protocol'', ''version'', ''methods'', ''events'', ''verify''] j no_spec) no_spec))"

section \<open>The tree of contexts\<close>

definition set_context_field :: "string \<Rightarrow> json \<Rightarrow> string \<times> string \<Rightarrow> (string \<times> string) option" where
  "set_context_field n j c =
     Some (if n = ''context'' then (kept (dec_string j (fst c)) (fst c), snd c)
           else (fst c, kept (dec_string j (snd c)) (snd c)))"

definition dec_context :: "json \<Rightarrow> string \<times> string \<Rightarrow> string \<times> string" where
  "dec_context j c = kept (decode_struct set_context_field [''context'', ''url''] j c) c"

fun dec_context_list :: "json list \<Rightarrow> (string \<times> string) list \<Rightarrow> (string \<times> string) list" where
  "dec_context_list [] old = []"
| "dec_context_list (j # js) old = dec_context j (if old = [] then ([], []) else hd old) # dec_context_list js (tl old)"

definition set_contexts_field :: "string \<Rightarrow> json \<Rightarrow> (string \<times> string) list \<Rightarrow> (string \<times> string) list option" where
  "set_contexts_field n j old =
     Some (case j of JArr js \<Rightarrow> dec_context_list js old | JNull \<Rightarrow> [] | _ \<Rightarrow> old)"

definition set_tree_field :: "string \<Rightarrow> json \<Rightarrow> (string \<times> string) list \<Rightarrow> (string \<times> string) list option" where
  "set_tree_field n j old = Some (kept (decode_struct set_contexts_field [''contexts''] j old) old)"

definition read_contexts :: "string \<Rightarrow> (string \<times> string) list" where
  "read_contexts body =
     (case parse_json body of
        None \<Rightarrow> []
      | Some j \<Rightarrow> kept (decode_struct set_tree_field [''result''] j []) [])"

section \<open>The texts\<close>

definition witness_law :: string where
  "witness_law =
     ''every command through this wire is echoed to the witness '' @ [CHR 0xE2, CHR 0x80, CHR 0x94]
     @ '' RECORDED and REPLAYABLE. You do not need to build your own replay; it already exists here.''"

definition witness_reafference :: "string \<Rightarrow> string" where
  "witness_reafference at =
     ''Fire through the witness instead of the broker directly (POST '' @ at
     @ ''/run?session=<id> for a channel command '' @ [CHR 0xC2, CHR 0xB7] @ '' '' @ at
     @ ''/fetch for a call '' @ [CHR 0xC2, CHR 0xB7] @ '' '' @ at
     @ ''/act for a drive) and the response carries an X-8-Witness header ''
     @ [CHR 0xE2, CHR 0x80, CHR 0x94] @ '' '' @ [CHR 0x27] @ ''seen '' @ [CHR 0xC2, CHR 0xB7]
     @ '' replayable frame #N '' @ [CHR 0xC2, CHR 0xB7] @ '' gaze'' @ [CHR 0xE2, CHR 0x86, CHR 0x92]
     @ ''<ctx>'' @ [CHR 0x27] @ '' '' @ [CHR 0xE2, CHR 0x80, CHR 0x94]
     @ '' proof you were seen plus a replay handle, in the same call.''"

definition note_ledger :: string where
  "note_ledger =
     ''the witness ledger '' @ [CHR 0xE2, CHR 0x80, CHR 0x94] @ '' every recent op, each replayable''"

definition record_then :: string where
  "record_then =
     [CHR 0xE2, CHR 0x80, CHR 0xA6] @ ''drive'' @ [CHR 0xE2, CHR 0x80, CHR 0xA6] @ '', then ''"

definition note_record :: string where
  "note_record =
     ''record a series while you drive, then replay it whole (seat-attributed)''"

definition note_replay :: string where
  "note_replay =
     ''re-fire a recorded series on demand '' @ [CHR 0xE2, CHR 0x80, CHR 0x94]
     @ '' no hand-rolled script needed''"

definition note_events :: string where
  "note_events =
     ''SSE; subscribe first via session.subscribe''"

definition how_broker :: string where
  "how_broker =
     ''ONE socket, broker-held '' @ [CHR 0xE2, CHR 0x80, CHR 0x94]
     @ '' do NOT bidi_command it (a 2nd ws is refused). http_request the examples; browsingContext.create ''
     @ ''gives you your own tab; pass that context in later calls.''"

definition note_no_hub :: string where
  "note_no_hub =
     ''no hub_url '' @ [CHR 0xE2, CHR 0x80, CHR 0x94]
     @ '' returning held_channels only; pass hub_url to also re-perceive an HTTP hub''"

section \<open>The brokers\<close>

definition get_request :: "string \<Rightarrow> httpx_request" where
  "get_request url = \<lparr>hq_method = ''GET'', hq_url = url, hq_headers = [], hq_body = []\<rparr>"

definition witness_at :: "('w, 'e) disk_env_scheme \<Rightarrow> string" where
  "witness_at env =
     (let u = me_getenv env ''HTTP_MCP_WITNESS''
      in trim_right_byte (if u = [] then ''http://127.0.0.1:7070'' else u) (CHR ''/''))"

definition witness_section :: "string \<Rightarrow> go_value" where
  "witness_section at =
     VMap [(''at'', VStr at), (''law'', VStr witness_law),
       (''ledger'', VMap [(''method'', VStr ''GET''), (''note'', VStr note_ledger), (''tool'', VStr ''http_request''),
          (''url'', VStr (at @ ''/requests?n=10''))]),
       (''reafference'', VStr (witness_reafference at)),
       (''record'', VMap [(''method'', VStr ''GET''), (''note'', VStr note_record),
          (''then'', VStr (record_then @ at @ ''/record?action=stop'')), (''tool'', VStr ''http_request''),
          (''url'', VStr (at @ ''/record?action=start&name=my-run''))]),
       (''replay'', VMap [(''method'', VStr ''POST''), (''note'', VStr note_replay), (''tool'', VStr ''http_request''),
          (''url'', VStr (at @ ''/replay-series?name=my-run''))])]"

definition alive :: "do_error + httpx_response \<Rightarrow> bool" where
  "alive ans = (case ans of Inl e \<Rightarrow> False | Inr resp \<Rightarrow> hp_status resp = 200 \<and> contains (hp_body resp) ''alive'')"

definition broker_url :: "nat \<Rightarrow> string" where
  "broker_url port = ''http://127.0.0.1:'' @ dec_nat port"

definition broker_ports :: "nat list" where
  "broker_ports = [4445..<4453]"

definition tree_command :: string where
  "tree_command = jprint (JObj [(''method'', jstring ''browsingContext.getTree''), (''params'', JObj [])])"

definition tree_request :: "string \<Rightarrow> httpx_request" where
  "tree_request broker =
     \<lparr>hq_method = ''POST'', hq_url = broker @ ''/command'', hq_headers = [(''Content-Type'', ''application/json'')],
      hq_body = tree_command\<rparr>"

definition method_entry :: "string \<Rightarrow> string \<times> chan_method \<Rightarrow> string \<times> go_value" where
  "method_entry broker m =
     (fst m, VMap [(''does'', VStr (cm_does (snd m))),
        (''example_http_request'', VMap
           [(''body'', VMap [(''method'', VStr (fst m)), (''params'', VMap (kept (cm_example (snd m)) []))]),
            (''method'', VStr ''POST''), (''tool'', VStr ''http_request''), (''url'', VStr (broker @ ''/command''))])])"

definition broker_entry ::
  "string \<Rightarrow> chan_spec \<Rightarrow> go_args option \<Rightarrow> (string \<times> string) list \<Rightarrow> go_value \<Rightarrow> go_value"
where
  "broker_entry broker spec health contexts witness =
     VMap [(''broker'', VStr broker),
       (''contexts'', VList (map (\<lambda>c. VMap [(''context'', VStr (fst c)), (''url'', VStr (snd c))]) contexts)),
       (''events'', opt_map (cs_events spec)),
       (''events_endpoint'', VMap [(''method'', VStr ''GET''), (''note'', VStr note_events),
          (''tool'', VStr ''http_request''), (''url'', VStr (broker @ ''/events''))]),
       (''health'', opt_map health), (''how'', VStr how_broker),
       (''methods'', VMap (map (method_entry broker) (cs_methods spec))),
       (''protocol'', VStr (cs_protocol spec)), (''spec'', VStr (''specs/channel/bidi@'' @ cs_version spec)),
       (''verify'', opt_map (cs_verify spec)), (''witnessed_by'', witness)]"

text \<open>One port: a broker is listed when its health answers 200; its contexts are asked for then.\<close>

definition ask_broker ::
  "('w, 'e) disk_env_scheme \<Rightarrow> chan_spec \<Rightarrow> go_value \<Rightarrow> nat \<Rightarrow> 'w \<Rightarrow> go_value list \<times> 'w"
where
  "ask_broker env spec witness port w =
     (let broker = broker_url port
      in case http_do_w env (Some server_client) (get_request (broker @ ''/health'')) w of
           (Inl e, w') \<Rightarrow> ([], w')
         | (Inr resp, w') \<Rightarrow>
             if hp_status resp \<noteq> 200 then ([], w')
             else
               (case http_do_w env (Some server_client) (tree_request broker) w' of
                  (ans, w'') \<Rightarrow>
                    ([broker_entry broker spec (read_any_map (me_num env) (hp_body resp))
                        (case ans of Inl e \<Rightarrow> [] | Inr tree \<Rightarrow> read_contexts (hp_body tree)) witness], w'')))"

fun ask_brokers ::
  "('w, 'e) disk_env_scheme \<Rightarrow> chan_spec \<Rightarrow> go_value \<Rightarrow> nat list \<Rightarrow> 'w \<Rightarrow> go_value list \<times> 'w"
where
  "ask_brokers env spec witness [] w = ([], w)"
| "ask_brokers env spec witness (p # ps) w =
     (case ask_broker env spec witness p w of
        (es, w') \<Rightarrow> (case ask_brokers env spec witness ps w' of (rest, w'') \<Rightarrow> (es @ rest, w'')))"

definition held_channels :: "('w, 'e) disk_env_scheme \<Rightarrow> 'w \<Rightarrow> go_value list \<times> 'w" where
  "held_channels env w =
     (let at = witness_at env
      in case http_do_w env (Some server_client) (get_request (at @ ''/health'')) w of
           (ans, w') \<Rightarrow>
             ask_brokers env (read_chan_spec env) (if alive ans then witness_section at else VNull) broker_ports w')"

section \<open>The hub\<close>

text \<open>What is shown of an answer: its status and its body as an object, or the error of the call.\<close>

definition shown_answer :: "('w, 'e) disk_env_scheme \<Rightarrow> do_error + httpx_response \<Rightarrow> go_value" where
  "shown_answer env ans =
     (case ans of
        Inl e \<Rightarrow> VMap [(''error'', VStr (me_do_text env e))]
      | Inr resp \<Rightarrow>
          VMap [(''body'', opt_map (read_any_map (me_num env) (hp_body resp))), (''http'', VNum (dec_int (hp_status resp)))])"

definition appium_paths :: "string list" where
  "appium_paths = [''/appium/commands'', ''/appium/extensions'', ''/appium/capabilities'']"

fun appium_loop ::
  "('w, 'e) disk_env_scheme \<Rightarrow> string \<Rightarrow> string list \<Rightarrow> go_args \<Rightarrow> 'w \<Rightarrow> go_args \<times> 'w"
where
  "appium_loop env base [] found w = (found, w)"
| "appium_loop env base (p # ps) found w =
     (case http_do_w env (Some server_client) (get_request (base @ p)) w of
        (ans, w') \<Rightarrow>
          appium_loop env base ps
            (case ans of
               Inr resp \<Rightarrow>
                 (if hp_status resp = 200 then smap_put p (opt_map (read_any_map (me_num env) (hp_body resp))) found
                  else found)
             | Inl e \<Rightarrow> found) w')"

definition note_no_session :: string where
  "note_no_session = ''pass session_id to enable live cap-read and Appium self-enumeration''"

definition put_some :: "string \<Rightarrow> go_value option \<Rightarrow> go_args \<Rightarrow> go_args" where
  "put_some k v out = (case v of Some x \<Rightarrow> smap_put k x out | None \<Rightarrow> out)"

text \<open>The layers: the status and the probe of the routes always, the session when its id is given.\<close>

definition discover_session ::
  "('w, 'e) disk_env_scheme \<Rightarrow> string \<Rightarrow> go_args \<Rightarrow> 'w \<Rightarrow> go_args \<times> 'w"
where
  "discover_session env session out w =
     (case http_do_w env (Some server_client) (get_request session) w of
        (caps, w1) \<Rightarrow>
          (case appium_loop env session appium_paths [] w1 of
             (found, w2) \<Rightarrow>
               (put_some ''appium_self_enumeration'' (if found = [] then None else Some (VMap found))
                  (smap_put ''caps'' (shown_answer env caps) out), w2)))"

definition discover_hub ::
  "('w, 'e) disk_env_scheme \<Rightarrow> go_args \<Rightarrow> string \<Rightarrow> go_args \<Rightarrow> 'w \<Rightarrow> go_args \<times> 'w"
where
  "discover_hub env args hub out w =
     (case http_do_w env (Some server_client) (get_request (hub @ ''/status'')) w of
        (status, w1) \<Rightarrow>
          (case probe_specs env hub (specs_dir env) (arg args ''spec'') w1 of
             (probe, w2) \<Rightarrow>
               (let out2 = put_some ''probe'' probe
                      (smap_put ''status'' (shown_answer env status) (smap_put ''hub_url'' (VStr hub) out));
                    sid = arg args ''session_id''
                in if sid = [] then (smap_put ''note'' (VStr note_no_session) out2, w2)
                   else discover_session env (hub @ ''/session/'' @ sid) out2 w2)))"

definition discover_tool :: "('w, 'e) disk_env_scheme \<Rightarrow> go_args \<Rightarrow> 'w \<Rightarrow> go_value \<times> 'w" where
  "discover_tool env args w =
     (let hub = trim_right_byte (arg args ''hub_url'') (CHR ''/'')
      in case held_channels env w of
           (ch, w1) \<Rightarrow>
             (let out = put_some ''held_channels'' (if ch = [] then None else Some (VList ch)) []
              in if hub = [] then (tool_text (VMap (smap_put ''note'' (VStr note_no_hub) out)), w1)
                 else (case discover_hub env args hub out w1 of (out', w2) \<Rightarrow> (tool_text (VMap out'), w2))))"


section \<open>What is asked of the outside world\<close>

text \<open>
  A world that keeps a log of the requests made in it, and the requests of a run: those of a given list
  that were made, each at most once and in the order of the list.
\<close>

definition logged :: "('w, 'e) mcp_env_scheme \<Rightarrow> ('w \<Rightarrow> wire_request list) \<Rightarrow> bool" where
  "logged env log \<longleftrightarrow> (\<forall>w c q. log (snd (me_net env w c q)) = log w @ [q])"

definition sent_request :: "httpx_request \<Rightarrow> wire_request" where
  "sent_request r =
     \<lparr>wq_method = (if hq_method r = [] then ''GET'' else to_upper (hq_method r)),
      wq_url = snd (route_call (Some server_client) (hq_url r)),
      wq_headers = call_headers (hq_headers r) (hq_body r),
      wq_body = (if hq_body r = [] then None else Some (hq_body r))\<rparr>"

definition asked :: "('w \<Rightarrow> wire_request list) \<Rightarrow> httpx_request list \<Rightarrow> 'w \<Rightarrow> 'w \<Rightarrow> bool" where
  "asked log rs w w' \<longleftrightarrow> (\<exists>qs. log w' = log w @ qs \<and> subseq qs (map sent_request rs))"

lemma asked_none [intro, simp]: "asked log rs w w"
  by (auto simp: asked_def)

lemma asked_append: "asked log rs w w1 \<Longrightarrow> asked log rs' w1 w2 \<Longrightarrow> asked log (rs @ rs') w w2"
  by (fastforce simp: asked_def intro: list_emb_append_mono)

lemma asked_Cons: "asked log [r] w w1 \<Longrightarrow> asked log rs w1 w2 \<Longrightarrow> asked log (r # rs) w w2"
  using asked_append [of log "[r]"] by simp

lemma logged_step: "logged env log \<Longrightarrow> me_net env w c q = (a, w') \<Longrightarrow> log w' = log w @ [q]"
  by (metis logged_def snd_conv)

lemma asked_one: "logged env log \<Longrightarrow> http_do_w env (Some server_client) r w = (ans, w') \<Longrightarrow> asked log [r] w w'"
proof -
  assume l: "logged env log" and h: "http_do_w env (Some server_client) r w = (ans, w')"
  have "to_upper m = [] \<longleftrightarrow> m = []" for m by (cases m) auto
  with l h show ?thesis
    by (auto simp: http_do_w_def new_request_def asked_def sent_request_def
        split: prod.splits sum.splits if_splits option.splits dest!: logged_step [OF l])
qed

lemma asked_brokers:
  assumes "logged env log" and "ask_brokers env spec wit ps w = (es, w')"
  shows "asked log (concat (map (\<lambda>p. [get_request (broker_url p @ ''/health''), tree_request (broker_url p)]) ps)) w w'"
  using assms(2)
proof (induction ps arbitrary: w es)
  case (Cons p ps)
  obtain e w1 rest where a: "ask_broker env spec wit p w = (e, w1)" and b: "ask_brokers env spec wit ps w1 = (rest, w')"
    using Cons.prems by (auto split: prod.splits)
  obtain ans w2 where h: "http_do_w env (Some server_client) (get_request (broker_url p @ ''/health'')) w = (ans, w2)"
    by fastforce
  have "asked log [tree_request (broker_url p)] w2 w1"
    using a h by (auto simp: ask_broker_def Let_def intro: asked_one [OF assms(1)] split: sum.splits if_splits prod.splits)
  with asked_one [OF assms(1) h] Cons.IH [OF b] show ?case by (auto intro: asked_Cons)
qed simp

lemma asked_probes:
  assumes "logged env log" and "probe_specs_loop env hub rs t w = (t', w')"
  shows "asked log (map (probe_call hub) rs) w w'"
  using assms(2)
  by (induction rs arbitrary: t w) (auto intro: asked_Cons asked_one [OF assms(1)] split: prod.splits)

lemma asked_appium:
  assumes "logged env log" and "appium_loop env base ps found w = (found', w')"
  shows "asked log (map (\<lambda>p. get_request (base @ p)) ps) w w'"
  using assms(2)
  by (induction ps arbitrary: found w) (auto intro: asked_Cons asked_one [OF assms(1)] split: prod.splits)

text \<open>All that \<open>discover\<close> may ask, in its order.\<close>

definition broker_requests :: "('w, 'e) disk_env_scheme \<Rightarrow> httpx_request list" where
  "broker_requests env =
     get_request (witness_at env @ ''/health'')
       # concat (map (\<lambda>p. [get_request (broker_url p @ ''/health''), tree_request (broker_url p)]) broker_ports)"

definition session_requests :: "string \<Rightarrow> httpx_request list" where
  "session_requests session = get_request session # map (\<lambda>p. get_request (session @ p)) appium_paths"

definition hub_requests :: "('w, 'e) disk_env_scheme \<Rightarrow> go_args \<Rightarrow> string \<Rightarrow> httpx_request list" where
  "hub_requests env args hub =
     get_request (hub @ ''/status'')
       # map (probe_call hub) (spec_routes (load_specs env (specs_dir env) (arg args ''spec'')))
       @ (if arg args ''session_id'' = [] then [] else session_requests (hub @ ''/session/'' @ arg args ''session_id''))"

definition discover_requests :: "('w, 'e) disk_env_scheme \<Rightarrow> go_args \<Rightarrow> httpx_request list" where
  "discover_requests env args =
     (let hub = trim_right_byte (arg args ''hub_url'') (CHR ''/'')
      in broker_requests env @ (if hub = [] then [] else hub_requests env args hub))"

lemma asked_held: "logged env log \<Longrightarrow> held_channels env w = (ch, w') \<Longrightarrow> asked log (broker_requests env) w w'"
  unfolding broker_requests_def held_channels_def Let_def
  by (auto intro: asked_Cons asked_one asked_brokers split: prod.splits)

lemma asked_session:
  "logged env log \<Longrightarrow> discover_session env s out w = (out', w') \<Longrightarrow> asked log (session_requests s) w w'"
  unfolding session_requests_def discover_session_def
  by (auto intro: asked_Cons asked_one asked_appium split: prod.splits)

lemma asked_hub:
  assumes "logged env log" and "discover_hub env args hub out w = (out', w')"
  shows "asked log (hub_requests env args hub) w w'"
proof -
  obtain status w1 where s: "http_do_w env (Some server_client) (get_request (hub @ ''/status'')) w = (status, w1)"
    by fastforce
  obtain probe w2 where p: "probe_specs env hub (specs_dir env) (arg args ''spec'') w1 = (probe, w2)" by fastforce
  have "asked log (map (probe_call hub) (spec_routes (load_specs env (specs_dir env) (arg args ''spec'')))) w1 w2"
    using p asked_probes [OF assms(1)] by (auto simp: probe_specs_def Let_def split: if_splits prod.splits)
  moreover have "asked log (if arg args ''session_id'' = [] then []
      else session_requests (hub @ ''/session/'' @ arg args ''session_id'')) w2 w'"
    using assms(2) s p asked_session [OF assms(1)] by (auto simp: discover_hub_def Let_def)
  ultimately show ?thesis
    unfolding hub_requests_def using asked_one [OF assms(1) s] by (blast intro: asked_Cons asked_append)
qed

text \<open>
  C10. \<open>discover\<close> asks only what it says it asks: of the loopback brokers and the witness their health, of a
  live broker the tree of its contexts, and of the hub, when one is given, its status, the stored routes with
  made-up parameters, and with a session id the session and what Appium lists; each request goes out at most
  once, in this order, and no other request does.
\<close>

theorem discover_asks:
  assumes "logged env log" and "discover_tool env args w = (res, w')"
  shows "\<exists>qs. log w' = log w @ qs \<and> subseq qs (map sent_request (discover_requests env args))"
proof -
  obtain ch w1 where h: "held_channels env w = (ch, w1)" by fastforce
  let ?hub = "trim_right_byte (arg args ''hub_url'') (CHR ''/'')"
  have "asked log (if ?hub = [] then [] else hub_requests env args ?hub) w1 w'"
    using assms(2) h asked_hub [OF assms(1)] by (auto simp: discover_tool_def Let_def split: prod.splits)
  with asked_held [OF assms(1) h] have "asked log (discover_requests env args) w w'"
    unfolding discover_requests_def Let_def by (rule asked_append)
  then show ?thesis unfolding asked_def .
qed

text \<open>A world that answers every request with 200 and remembers it.\<close>

definition log_disk :: "wire_request list disk_env" where
  "log_disk = \<lparr>me_num = (\<lambda>l. Some l), me_pos = (\<lambda>t. True), me_int = (\<lambda>t. 0), me_getenv = (\<lambda>v. []),
     me_exe = None, me_read = (\<lambda>p. Inl ''no file''), me_url_err = (\<lambda>u. None),
     me_net = (\<lambda>log c q. (Inr \<lparr>wp_status = 200, wp_headers = [], wp_body = [], wp_body_err = None\<rparr>, log @ [q])),
     me_auth_text = (\<lambda>e. []), me_do_text = (\<lambda>e. []), de_is_dir = (\<lambda>d. False), de_read_dir = (\<lambda>d. None)\<rparr>"

theorem discover_asks_witness:
  "\<exists>qs. snd (discover_tool log_disk [(''hub_url'', VStr ''http://h'')] []) = qs
     \<and> subseq qs (map sent_request (discover_requests log_disk [(''hub_url'', VStr ''http://h'')]))"
proof -
  have l: "logged log_disk (\<lambda>log. log)" by (simp add: logged_def log_disk_def)
  obtain res w' where r: "discover_tool log_disk [(''hub_url'', VStr ''http://h'')] [] = (res, w')" by fastforce
  from discover_asks [OF l r] r show ?thesis by auto
qed

definition live_port :: "('w, 'e) disk_env_scheme \<Rightarrow> 'w \<Rightarrow> nat \<Rightarrow> bool" where
  "live_port env w p =
     (case fst (http_do_w env (Some server_client) (get_request (broker_url p @ ''/health'')) w) of
        Inl e \<Rightarrow> False
      | Inr resp \<Rightarrow> hp_status resp = 200)"

definition entry_broker :: "go_value \<Rightarrow> go_value" where
  "entry_broker e = at_key (as_map e) ''broker''"

lemma broker_entry_broker: "entry_broker (broker_entry b spec health contexts wit) = VStr b"
  by (simp add: entry_broker_def broker_entry_def as_map_def at_key_def)

lemma http_do_w_stateless:
  "(\<And>w c q. snd (me_net env w c q) = w) \<Longrightarrow> snd (http_do_w env c r w) = w"
  by (simp add: http_do_w_def split: prod.splits sum.splits) (metis snd_conv)

lemma ask_brokers_live:
  assumes "\<And>w c q. snd (me_net env w c q) = w"
  shows "map entry_broker (fst (ask_brokers env spec wit ps w)) = map (\<lambda>p. VStr (broker_url p)) (filter (live_port env w) ps)
    \<and> snd (ask_brokers env spec wit ps w) = w"
proof (induction ps)
  case (Cons p ps)
  have s: "http_do_w env c r w = (fst (http_do_w env c r w), w)" for c r
    using http_do_w_stateless [OF assms] by (metis prod.collapse)
  obtain ans tree where h: "http_do_w env (Some server_client) (get_request (broker_url p @ ''/health'')) w = (ans, w)"
    and t: "http_do_w env (Some server_client) (tree_request (broker_url p)) w = (tree, w)" using s by blast
  have "snd (ask_broker env spec wit p w) = w \<and> map entry_broker (fst (ask_broker env spec wit p w))
      = (if live_port env w p then [VStr (broker_url p)] else [])"
    by (cases ans) (simp_all add: ask_broker_def Let_def live_port_def h t broker_entry_broker)
  then obtain e where a: "ask_broker env spec wit p w = (e, w)"
    and e: "map entry_broker e = (if live_port env w p then [VStr (broker_url p)] else [])"
    by (metis prod.collapse)
  show ?case using Cons.IH by (cases "ask_brokers env spec wit ps w") (simp add: a e)
qed simp

text \<open>
  The brokers that are listed are those that are there: on a network whose answers do not depend on what
  was asked before, \<open>discover\<close> lists, in the order of their ports, exactly the ports of the range whose health
  answers with status 200, whatever else these brokers answer.
\<close>

theorem held_channels_live:
  assumes "\<And>w c q. snd (me_net env w c q) = w"
  shows "map entry_broker (fst (held_channels env w))
    = map (\<lambda>p. VStr (broker_url p)) (filter (live_port env w) [4445..<4453])"
proof -
  obtain ans where "http_do_w env (Some server_client) (get_request (witness_at env @ ''/health'')) w = (ans, w)"
    using http_do_w_stateless [OF assms] by (metis prod.collapse)
  then show ?thesis
    unfolding broker_ports_def [symmetric] using ask_brokers_live [OF assms] by (simp add: held_channels_def Let_def)
qed

definition still_env :: "nat disk_env" where
  "still_env = demo_disk\<lparr>me_net := (\<lambda>n c q. (Inr \<lparr>wp_status = 200, wp_headers = [], wp_body = [], wp_body_err = None\<rparr>, n))\<rparr>"

theorem held_channels_live_witness:
  "map entry_broker (fst (held_channels still_env 0)) = map (\<lambda>p. VStr (broker_url p)) [4445..<4453]"
proof -
  have "valid_method (to_upper ''GET'')" by code_simp
  then have "live_port still_env 0 = (\<lambda>p. True)"
    by (auto simp: live_port_def http_do_w_def http_do_def new_request_def get_request_def still_env_def demo_disk_def
        split: prod.splits)
  then show ?thesis using held_channels_live [of still_env 0] by (simp add: still_env_def del: upt.simps)
qed

end
