(* ===== verification/Bidi.thy ===== *)
theory Bidi
  imports Url_Query Discover Wsx
begin

text \<open>
  The tool \<open>bidi_command\<close> of \<open>cmd/mcp/main.go\<close>: one command over a channel. \<open>channel_auth\<close> puts a
  resolved credential into the URL of the channel (\<open>applyChannelAuth\<close>), \<open>scrub\<close> takes it out of the
  texts of errors again (\<open>redact\<close>), \<open>await_reply\<close> reads frames until the one with the id of the command
  and \<open>bidi_command_tool\<close> is the whole. \<open>None\<close> stands for a panic, which ends the server.
\<close>

section \<open>The credential in the URL\<close>

datatype inject_error = BadChannelUrl string | BadCaps string

text \<open>
  What \<open>net/url\<close> makes of a URL is a parameter: its query, the URL with another query, and the URL
  with a user and a password.
\<close>

record 'w channel_env = "'w disk_env" +
  ce_raw_query :: "string \<Rightarrow> string"
  ce_with_query :: "string \<Rightarrow> string \<Rightarrow> string"
  ce_with_user :: "string \<Rightarrow> string \<Rightarrow> string \<Rightarrow> string"
  ce_caps_text :: "string \<Rightarrow> string"
  ce_inject_text :: "inject_error \<Rightarrow> string"
  ce_parse_url :: "string \<Rightarrow> string + parsed_url"
  ce_nonce :: "'w \<Rightarrow> string"
  ce_rand :: "'w \<Rightarrow> nat \<Rightarrow> byte"
  ce_alloc :: nat
  ce_dial :: "'w \<Rightarrow> int \<Rightarrow> ws_target \<Rightarrow> string + ws_peer"
  ce_dialled :: "'w \<Rightarrow> string \<Rightarrow> 'w"
  ce_write :: "'w \<Rightarrow> byte list \<Rightarrow> 'w \<times> io_error option"
  ce_reply :: "'w \<Rightarrow> int \<Rightarrow> byte list \<times> io_error"
  ce_close :: "'w \<Rightarrow> 'w \<times> io_error option"
  ce_dial_text :: "dial_error \<Rightarrow> string"
  ce_io_text :: "io_error \<Rightarrow> string"

text \<open>\<open>json.Unmarshal\<close> into a nil \<open>map[string]any\<close>: \<open>None\<close> is its error, \<open>Some None\<close> a nil map.\<close>

definition parse_any_map :: "(string \<Rightarrow> string option) \<Rightarrow> string \<Rightarrow> go_args option option" where
  "parse_any_map num s =
     (case parse_json s of
        Some (JObj ms) \<Rightarrow> map_option Some (members_of num ms [])
      | Some JNull \<Rightarrow> Some None
      | _ \<Rightarrow> None)"

definition lt_options :: "go_args \<Rightarrow> string \<Rightarrow> string \<Rightarrow> go_args" where
  "lt_options caps user key =
     smap_put ''accessKey'' (VStr key) (smap_put ''user'' (VStr user) (as_map (at_key caps ''LT:Options'')))"

definition caps_with :: "go_args \<Rightarrow> string \<Rightarrow> string \<Rightarrow> go_args" where
  "caps_with caps user key = smap_put ''LT:Options'' (VMap (lt_options caps user key)) caps"

definition channel_auth ::
  "('w, 'e) channel_env_scheme \<Rightarrow> string \<Rightarrow> string \<Rightarrow> string \<Rightarrow> (inject_error + string) option"
where
  "channel_auth env raw user key =
     (case me_url_err env raw of
        Some e \<Rightarrow> Some (Inl (BadChannelUrl e))
      | None \<Rightarrow>
          (let q = parse_query (ce_raw_query env raw); caps_raw = query_get q ''capabilities'' in
           if caps_raw = [] then Some (Inr (ce_with_user env raw user key))
           else
             (case parse_any_map (me_num env) caps_raw of
                None \<Rightarrow> Some (Inl (BadCaps (ce_caps_text env caps_raw)))
              | Some None \<Rightarrow> None
              | Some (Some caps) \<Rightarrow>
                  Some (Inr (ce_with_query env raw
                    (encode_query (query_set ''capabilities'' (marshal_value (VMap (caps_with caps user key))) q)))))))"

section \<open>The credential out of the errors\<close>

definition scrub_one :: "string \<Rightarrow> string \<Rightarrow> string \<Rightarrow> string" where
  "scrub_one old new s = (if old = [] then s else replace_all s old new)"

definition scrub :: "string \<Rightarrow> string \<Rightarrow> string \<Rightarrow> string \<Rightarrow> string \<Rightarrow> string" where
  "scrub injected base key user s = scrub_one user ''***'' (scrub_one key ''***'' (scrub_one injected base s))"

section \<open>The command\<close>

definition command_id :: "('w, 'e) mcp_env_scheme \<Rightarrow> go_args \<Rightarrow> int" where
  "command_id env args =
     (case map_of args ''id'' of Some (VNum t) \<Rightarrow> (if me_pos env t then me_int env t else 1) | _ \<Rightarrow> 1)"

definition second :: int where "second = 1000000000"

definition wait_ns :: "('w, 'e) mcp_env_scheme \<Rightarrow> go_args \<Rightarrow> int" where
  "wait_ns env args =
     (case map_of args ''timeout_ms'' of
        Some (VNum t) \<Rightarrow> (if me_pos env t then wrap64 (me_int env t * 1000000) else 30 * second)
      | _ \<Rightarrow> 30 * second)"

definition dial_ns :: "int \<Rightarrow> int" where
  "dial_ns timeout = (if timeout < 10 * second then 10 * second else timeout)"

definition bidi_command :: "('w, 'e) mcp_env_scheme \<Rightarrow> go_args \<Rightarrow> go_value" where
  "bidi_command env args =
     VMap [(''id'', VNum (dec_int (command_id env args))), (''method'', VStr (arg args ''method'')),
       (''params'', (case map_of args ''params'' of Some (VMap p) \<Rightarrow> VMap p | _ \<Rightarrow> VMap []))]"

text \<open>A frame answers the command when it is an object with its id, a number.\<close>

definition frame_answers :: "('w, 'e) mcp_env_scheme \<Rightarrow> int \<Rightarrow> string \<Rightarrow> go_args option" where
  "frame_answers env i frame =
     (case parse_any_map (me_num env) frame of
        Some (Some msg) \<Rightarrow>
          (case map_of msg ''id'' of Some (VNum t) \<Rightarrow> (if me_int env t = i then Some msg else None) | _ \<Rightarrow> None)
      | _ \<Rightarrow> None)"

datatype channel_reply = Replied go_args | NoReply io_error | ReplyPanic

function await_reply ::
  "('w, 'e) channel_env_scheme \<Rightarrow> (nat \<Rightarrow> byte) \<Rightarrow> int \<Rightarrow> 'w conn \<Rightarrow> channel_reply \<times> 'w conn"
where
  "await_reply env rand i c =
     (case read_text (ce_alloc env) (ce_write env) rand c of
        (Text s, c') \<Rightarrow>
          (case frame_answers env i s of Some msg \<Rightarrow> (Replied msg, c') | None \<Rightarrow> await_reply env rand i c')
      | (ReadErr e, c') \<Rightarrow> (NoReply e, c')
      | (ReadPanic, c') \<Rightarrow> (ReplyPanic, c'))"
  by pat_completeness auto

termination
  by (relation "measure (\<lambda>(env, rand, i, c). length (cn_in c))") (auto dest!: sym [THEN read_text_shrinks])

declare await_reply.simps [simp del]

text \<open>
  The exchange on an established channel: the command goes out, and what the peer has sent by then and
  will send until the deadline is read. The connection is closed in any case.
\<close>

definition bidi_exchange ::
  "('w, 'e) channel_env_scheme \<Rightarrow> (string \<Rightarrow> string) \<Rightarrow> go_args \<Rightarrow> 'w conn \<Rightarrow> go_value option \<times> 'w conn"
where
  "bidi_exchange env redact_text args c =
     (let cmd = bidi_command env args; rand = ce_rand env (cn_raw c) in
      case write_text (ce_write env) rand c (marshal_value cmd) of
        (c1, Some e) \<Rightarrow> (Some (tool_err (''bidi send: '' @ redact_text (ce_io_text env e))), c1)
      | (c1, None) \<Rightarrow>
          (let (more, fin) = ce_reply env (cn_raw c1) (wait_ns env args) in
           case await_reply env rand (command_id env args) (c1\<lparr>cn_in := cn_in c1 @ more, cn_end := fin\<rparr>) of
             (Replied msg, c2) \<Rightarrow> (Some (tool_text (VMap [(''response'', VMap msg), (''sent'', cmd)])), c2)
           | (NoReply e, c2) \<Rightarrow> (Some (tool_err (''bidi read: '' @ redact_text (ce_io_text env e))), c2)
           | (ReplyPanic, c2) \<Rightarrow> (None, c2)))"

definition bidi_channel ::
  "('w, 'e) channel_env_scheme \<Rightarrow> (string \<Rightarrow> string) \<Rightarrow> string \<Rightarrow> go_args \<Rightarrow> 'w \<Rightarrow> (go_value \<times> 'w) option"
where
  "bidi_channel env redact_text url args w =
     (let hs = (case arg_headers args of Some h \<Rightarrow> h | None \<Rightarrow> []); w1 = ce_dialled env w url in
      case dial_with_headers (ce_parse_url env) (ce_dial env w (dial_ns (wait_ns env args))) (ce_nonce env w) url hs of
        Failed e closed \<Rightarrow> Some (tool_err (''bidi dial: '' @ redact_text (ce_dial_text env e)), w1)
      | Established rest \<Rightarrow>
          (case bidi_exchange env redact_text args
              \<lparr>cn_in = bytes_of rest, cn_end = Eof, cn_raw = w1, cn_taken = 0\<rparr> of
             (None, c) \<Rightarrow> None
           | (Some res, c) \<Rightarrow>
               Some (res, cn_raw (fst (close_conn (ce_write env) (ce_rand env w1) (ce_close env) c)))))"

text \<open>The profile of the channel, if one is named.\<close>

definition channel_profile :: "go_args \<Rightarrow> string" where
  "channel_profile args = (case map_of args ''auth'' of Some (VMap a) \<Rightarrow> arg a ''profile'' | _ \<Rightarrow> [])"

definition bidi_command_tool :: "('w, 'e) channel_env_scheme \<Rightarrow> go_args \<Rightarrow> 'w \<Rightarrow> (go_value \<times> 'w) option" where
  "bidi_command_tool env args w =
     (let url = arg args ''ws_url''; prof = channel_profile args in
      if url = [] then Some (tool_err ''ws_url is required (the CDP/BiDi WebSocket endpoint)'', w)
      else if arg args ''method'' = [] then
        Some (tool_err ''method is required (e.g. browsingContext.getTree or Page.navigate)'', w)
      else if prof = [] then bidi_channel env (\<lambda>s. s) url args w
      else
        (case auth_resolve (me_getenv env) (me_exe env) (me_read env) prof of
           Inl e \<Rightarrow> Some (tool_err (''auth: '' @ me_auth_text env e), w)
         | Inr cred \<Rightarrow>
             (case channel_auth env url (au_user cred) (au_key cred) of
                None \<Rightarrow> None
              | Some (Inl e) \<Rightarrow> Some (tool_err (''auth inject: '' @ ce_inject_text env e), w)
              | Some (Inr injected) \<Rightarrow>
                  bidi_channel env (scrub injected url (au_key cred) (au_user cred)) injected args w)))"


section \<open>Nothing of the credential in the errors\<close>

lemma stars_free: "CHR ''*'' \<notin> set sub \<Longrightarrow> set sub \<inter> set ''***'' = {}"
  by simp

lemma scrub_one_keeps:
  "CHR ''*'' \<notin> set sub \<Longrightarrow> sub \<noteq> [] \<Longrightarrow> \<not> sublist sub s \<Longrightarrow> \<not> sublist sub (scrub_one old ''***'' s)"
  unfolding scrub_one_def using replace_all_keeps [OF stars_free, of sub s old] by (simp only: split: if_split) blast

lemma scrub_one_gone: "CHR ''*'' \<notin> set sub \<Longrightarrow> sub \<noteq> [] \<Longrightarrow> \<not> sublist sub (scrub_one sub ''***'' s)"
  unfolding scrub_one_def using replace_all_gone [OF stars_free, of sub s] by (simp only: if_False) blast

lemma scrub_hides:
  assumes "CHR ''*'' \<notin> set user" and "user \<noteq> []" and "CHR ''*'' \<notin> set key" and "key \<noteq> []"
  shows "\<not> sublist key (scrub injected base key user s) \<and> \<not> sublist user (scrub injected base key user s)"
  unfolding scrub_def
  using scrub_one_keeps [OF assms(3,4)] scrub_one_gone [OF assms(3,4)] scrub_one_gone [OF assms(1,2)] by blast

text \<open>The outcomes of a command on a channel, its error texts as they were redacted.\<close>

definition channel_outcome :: "('w, 'e) channel_env_scheme \<Rightarrow> (string \<Rightarrow> string) \<Rightarrow> go_args \<Rightarrow> go_value \<Rightarrow> bool" where
  "channel_outcome env red args res \<longleftrightarrow>
     (\<exists>msg. res = tool_text (VMap [(''response'', VMap msg), (''sent'', bidi_command env args)]))
     \<or> (\<exists>label t. res = tool_err (label @ red t) \<and> label \<in> set [''bidi dial: '', ''bidi send: '', ''bidi read: ''])"

lemma channel_outcomes:
  "channel_outcome env red args (tool_text (VMap [(''response'', VMap msg), (''sent'', bidi_command env args)]))"
  "channel_outcome env red args (tool_err (''bidi dial: '' @ red t))"
  "channel_outcome env red args (tool_err (''bidi send: '' @ red t))"
  "channel_outcome env red args (tool_err (''bidi read: '' @ red t))"
  unfolding channel_outcome_def list.set by blast+

lemma bidi_exchange_outcome: "bidi_exchange env red args c = (Some res, c') \<Longrightarrow> channel_outcome env red args res"
  by (auto simp: bidi_exchange_def Let_def simp del: append_Cons append_Nil intro: channel_outcomes
      split: prod.splits option.splits channel_reply.splits)

lemma bidi_channel_outcome: "bidi_channel env red url args w = Some (res, w') \<Longrightarrow> channel_outcome env red args res"
  by (auto simp: bidi_channel_def Let_def simp del: append_Cons append_Nil
      intro: channel_outcomes bidi_exchange_outcome split: prod.splits dial_outcome.splits option.splits)


section \<open>The reply\<close>

lemma read_text_message:
  assumes "fits alloc (bytes_of s)" and "cn_in c = frame_bytes 0x81 None (bytes_of s) @ rest"
  shows "read_text alloc wr rand c = (Text s, c\<lparr>cn_in := rest\<rparr>)"
proof -
  have "read_frame alloc (cn_end c) (frame_bytes 0x81 None (bytes_of s) @ rest) = (FrameOk (0x81 AND 0x0f) (bytes_of s), rest)"
    using assms(1) by (intro read_frame_bytes) (simp_all add: fits_def)
  then show ?thesis unfolding read_text.simps [of alloc wr rand c] assms(2) by simp
qed

lemma read_text_end: "cn_in c = [] \<Longrightarrow> read_text alloc wr rand c = (ReadErr (cn_end c), c)"
  by (simp add: read_text.simps [of alloc wr rand c] read_frame_def read_full_def)

fun first_answer :: "('w, 'e) mcp_env_scheme \<Rightarrow> int \<Rightarrow> string list \<Rightarrow> (go_args \<times> string list) option" where
  "first_answer env i [] = None"
| "first_answer env i (s # ss) =
     (case frame_answers env i s of Some msg \<Rightarrow> Some (msg, ss) | None \<Rightarrow> first_answer env i ss)"

definition messages :: "string list \<Rightarrow> byte list" where
  "messages ss = concat (map (\<lambda>s. frame_bytes 0x81 None (bytes_of s)) ss)"

text \<open>
  C12. The reply to a command is the first message that carries its id: whatever events and replies to others
  come before it are skipped, what comes after it is left unread, and without one the error is that of the
  end of the channel.
\<close>

theorem reply_is_first:
  assumes "cn_in c = messages ss" and "list_all (\<lambda>s. fits (ce_alloc env) (bytes_of s)) ss"
  shows "await_reply env rand i c =
    (case first_answer env i ss of
       Some (msg, rest) \<Rightarrow> (Replied msg, c\<lparr>cn_in := messages rest\<rparr>)
     | None \<Rightarrow> (NoReply (cn_end c), c\<lparr>cn_in := []\<rparr>))"
  using assms
proof (induction ss arbitrary: c)
  case Nil
  then have "read_text (ce_alloc env) (ce_write env) rand c = (ReadErr (cn_end c), c)"
    by (intro read_text_end) (simp add: messages_def)
  then show ?case using Nil by (simp add: await_reply.simps [of env rand i c] messages_def)
next
  case (Cons s ss)
  have "read_text (ce_alloc env) (ce_write env) rand c = (Text s, c\<lparr>cn_in := messages ss\<rparr>)"
    using Cons.prems by (intro read_text_message) (simp_all add: messages_def)
  then show ?case
    using Cons.IH [of "c\<lparr>cn_in := messages ss\<rparr>"] Cons.prems
    by (simp add: await_reply.simps [of env rand i c] split: option.splits)
qed

section \<open>The credential in the channel\<close>


text \<open>What \<open>caps_with\<close> sets: the two options, nothing else of the options or of the capabilities.\<close>

lemma caps_with_get:
  assumes "smap_sorted caps" and "smap_sorted (as_map (at_key caps ''LT:Options''))"
  shows "map_of (caps_with caps user key) = (map_of caps)(''LT:Options'' \<mapsto> VMap (lt_options caps user key))"
    and "map_of (lt_options caps user key)
      = (map_of (as_map (at_key caps ''LT:Options'')))(''user'' \<mapsto> VStr user, ''accessKey'' \<mapsto> VStr key)"
  using assms by (simp_all add: caps_with_def lt_options_def map_of_smap_put smap_put_sorted)

text \<open>Capabilities that are the JSON null decode to a nil map, and the assignment to it panics.\<close>

theorem null_caps_panic:
  assumes "me_url_err env raw = None" and "query_get (parse_query (ce_raw_query env raw)) ''capabilities'' = ''null''"
  shows "channel_auth env raw user key = None"
proof -
  have "parse_json ''null'' = Some JNull" by code_simp
  then have "parse_any_map (me_num env) ''null'' = Some None" by (simp add: parse_any_map_def)
  then show ?thesis using assms by (simp add: channel_auth_def Let_def)
qed

text \<open>A key with a byte that URLs escape is left in a text that shows the URL in part.\<close>

theorem escaped_key_left:
  "sublist (query_escape ''p/q'') (scrub ''wss://h/?k=p%2Fq'' ''wss://h/'' ''p/q'' ''u'' ''dial h/?k=p%2Fq: refused'')"
  by code_simp

section \<open>Witnesses\<close>

definition demo_channel :: "nat channel_env" where
  "demo_channel = \<lparr>me_num = (\<lambda>l. Some l), me_pos = (\<lambda>t. True), me_int = (\<lambda>t. if t = ''7'' then 7 else 0),
     me_getenv = (\<lambda>v. if v = ''LT_USERNAME'' then ''ada'' else if v = ''LT_ACCESS_KEY'' then ''s3cr3t'' else []),
     me_exe = None, me_read = (\<lambda>p. Inl ''no file''), me_url_err = (\<lambda>u. None),
     me_net = (\<lambda>n c q. (Inl ''refused'', n)), me_auth_text = (\<lambda>e. []), me_do_text = (\<lambda>e. []),
     de_is_dir = (\<lambda>d. False), de_read_dir = (\<lambda>d. None),
     ce_raw_query = (\<lambda>u. ''capabilities=%7B%22a%22:1%7D&x=1''), ce_with_query = (\<lambda>u q. u @ ''?'' @ q),
     ce_with_user = (\<lambda>u n k. n @ '':'' @ k @ ''@'' @ u), ce_caps_text = (\<lambda>t. []), ce_inject_text = (\<lambda>e. []),
     ce_parse_url = (\<lambda>u. Inl u), ce_nonce = (\<lambda>w. ''n''), ce_rand = (\<lambda>w i. 0), ce_alloc = 100,
     ce_dial = (\<lambda>w t a. Inl ''refused''), ce_dialled = (\<lambda>w u. Suc w), ce_write = (\<lambda>w bs. (w, None)),
     ce_reply = (\<lambda>w t. ([], Eof)), ce_close = (\<lambda>w. (w, None)),
     ce_dial_text = (\<lambda>e. case e of BadWsUrl u \<Rightarrow> ''parse '' @ u | _ \<Rightarrow> []), ce_io_text = (\<lambda>e. ''EOF'')\<rparr>"

definition channel_args :: go_args where
  "channel_args = [(''auth'', VMap [(''profile'', VStr ''lt'')]), (''method'', VStr ''m''), (''ws_url'', VStr ''wss://h/'')]"

lemma caps_demo: "parse_any_map (me_num demo_channel) (query_get (parse_query (ce_raw_query demo_channel ''wss://h/'')) ''capabilities'')
    = Some (Some [(''a'', VNum ''1'')])"
  by code_simp



theorem reply_is_first_witness:
  "await_reply demo_channel (\<lambda>i. 0) 7 \<lparr>cn_in = messages [''x'', ''{\"id\":7}'', ''y''], cn_end = Eof, cn_raw = 0, cn_taken = 0\<rparr>
     = (Replied [(''id'', VNum ''7'')], \<lparr>cn_in = messages [''y''], cn_end = Eof, cn_raw = 0, cn_taken = 0\<rparr>)"
proof -
  have f: "list_all (\<lambda>s. fits (ce_alloc demo_channel) (bytes_of s)) [''x'', ''{\"id\":7}'', ''y'']"
    by (simp add: fits_def demo_channel_def)
  have "first_answer demo_channel 7 [''x'', ''{\"id\":7}'', ''y''] = Some ([(''id'', VNum ''7'')], [''y''])" by code_simp
  with reply_is_first [OF _ f, of "\<lparr>cn_in = messages [''x'', ''{\"id\":7}'', ''y''], cn_end = Eof, cn_raw = 0, cn_taken = 0\<rparr>" "\<lambda>i. 0" 7]
  show ?thesis by simp
qed

end
