(* ===== verification/Rpc.thy ===== *)
theory Rpc
  imports Compose Contract Json_Sound
begin

text \<open>
  The JSON-RPC server of \<open>cmd/mcp/main.go\<close>: \<open>handle\<close> is one request, \<open>serve_input\<close> is the loop of
  \<open>main\<close> over the lines of the input, and what is written is a list of lines. \<open>call\<close> is \<open>callTool\<close>,
  on the state of the world and with \<open>None\<close> when it does not return. Parameters: the description of
  the tools, the build information, the texts of decoding errors.
\<close>

section \<open>Messages\<close>

record rpc_request =
  rpc_version :: string
  rpc_id :: raw_message
  rpc_method :: string
  rpc_params :: raw_message

record rpc_response =
  rsp_id :: raw_message
  rsp_result :: "go_value option"
  rsp_error :: "(int \<times> string) option"

definition rpc_fields :: "string list" where
  "rpc_fields = [''jsonrpc'', ''id'', ''method'', ''params'']"

definition set_rpc_field :: "string \<Rightarrow> json \<Rightarrow> rpc_request \<Rightarrow> rpc_request option" where
  "set_rpc_field n j r =
     (if n = ''jsonrpc'' then map_option (\<lambda>s. r\<lparr>rpc_version := s\<rparr>) (dec_string j (rpc_version r))
      else if n = ''id'' then Some (r\<lparr>rpc_id := RawDoc j\<rparr>)
      else if n = ''method'' then map_option (\<lambda>s. r\<lparr>rpc_method := s\<rparr>) (dec_string j (rpc_method r))
      else Some (r\<lparr>rpc_params := RawDoc j\<rparr>))"

definition parse_request :: "string \<Rightarrow> rpc_request option" where
  "parse_request line =
     Option.bind (parse_json line) (\<lambda>j. decode_struct set_rpc_field rpc_fields j
       \<lparr>rpc_version = [], rpc_id = RawNone, rpc_method = [], rpc_params = RawNone\<rparr>)"

definition response_json :: "rpc_response \<Rightarrow> json" where
  "response_json r = JObj (str_mem ''jsonrpc'' ''2.0'' @ raw_mem_opt ''id'' (rsp_id r)
     @ (case rsp_result r of None \<Rightarrow> [] | Some v \<Rightarrow> [(''result'', value_json v)])
     @ (case rsp_error r of None \<Rightarrow> []
        | Some (code, msg) \<Rightarrow> [(''error'', JObj (int_mem ''code'' code @ str_mem ''message'' msg))]))"

definition send_line :: "rpc_response \<Rightarrow> string" where
  "send_line r = jprint (response_json r) @ [CHR 0x0A]"

definition rpc_ok :: "raw_message \<Rightarrow> go_value \<Rightarrow> rpc_response" where
  "rpc_ok i v = \<lparr>rsp_id = i, rsp_result = Some v, rsp_error = None\<rparr>"

definition rpc_fail :: "raw_message \<Rightarrow> int \<Rightarrow> string \<Rightarrow> rpc_response" where
  "rpc_fail i code msg = \<lparr>rsp_id = i, rsp_result = None, rsp_error = Some (code, msg)\<rparr>"

section \<open>Handling a request\<close>

text \<open>\<open>selfVersion\<close>: the version of the module in the build information, if it has a real one.\<close>

definition self_version :: "string option \<Rightarrow> string" where
  "self_version build =
     (case build of
        Some v \<Rightarrow> (if v \<noteq> [] \<and> v \<noteq> ''(devel)'' then v else contract_version)
      | None \<Rightarrow> contract_version)"

definition protocol_version :: string where
  "protocol_version = ''2024-11-05''"

record call_params =
  cp_name :: string
  cp_args :: go_args

definition set_call_field ::
  "(string \<Rightarrow> string option) \<Rightarrow> string \<Rightarrow> json \<Rightarrow> call_params \<Rightarrow> call_params option"
where
  "set_call_field num n j p =
     (if n = ''name'' then map_option (\<lambda>s. p\<lparr>cp_name := s\<rparr>) (dec_string j (cp_name p))
      else
        (case j of
           JObj ms \<Rightarrow> map_option (\<lambda>m. p\<lparr>cp_args := m\<rparr>) (members_of num ms (cp_args p))
         | JNull \<Rightarrow> Some (p\<lparr>cp_args := []\<rparr>)
         | _ \<Rightarrow> None))"

text \<open>The parameters of \<open>tools/call\<close>; with none, there is nothing to parse and it is an error.\<close>

definition parse_params :: "(string \<Rightarrow> string option) \<Rightarrow> raw_message \<Rightarrow> call_params option" where
  "parse_params num raw =
     (case raw of
        RawDoc j \<Rightarrow> decode_struct (set_call_field num) [''name'', ''arguments''] j \<lparr>cp_name = [], cp_args = []\<rparr>
      | _ \<Rightarrow> None)"

record 'w rpc_server =
  sv_num :: "string \<Rightarrow> string option"
  sv_build :: "string option"
  sv_tools :: "go_value list"
  sv_err :: "raw_message \<Rightarrow> string"
  sv_call :: "'w tool"

definition initialize_result :: "'w rpc_server \<Rightarrow> go_value" where
  "initialize_result sv =
     VMap [(''capabilities'', VMap [(''tools'', VMap [])]), (''protocolVersion'', VStr protocol_version),
       (''serverInfo'', VMap [(''name'', VStr ''http-mcp''), (''version'', VStr (self_version (sv_build sv)))])]"

definition handle :: "'w rpc_server \<Rightarrow> rpc_request \<Rightarrow> 'w \<Rightarrow> (rpc_response option \<times> 'w) option" where
  "handle sv r w =
     (if rpc_method r = ''initialize'' then Some (Some (rpc_ok (rpc_id r) (initialize_result sv)), w)
      else if rpc_method r = ''notifications/initialized'' then Some (None, w)
      else if rpc_method r = ''ping'' then Some (Some (rpc_ok (rpc_id r) (VMap [])), w)
      else if rpc_method r = ''tools/list'' then
        Some (Some (rpc_ok (rpc_id r) (VMap [(''tools'', VList (sv_tools sv))])), w)
      else if rpc_method r = ''tools/call'' then
        (case parse_params (sv_num sv) (rpc_params r) of
           None \<Rightarrow> Some (Some (rpc_fail (rpc_id r) (-32602) (''bad params: '' @ sv_err sv (rpc_params r))), w)
         | Some p \<Rightarrow>
             (case sv_call sv (cp_name p) (cp_args p) w of
                None \<Rightarrow> None
              | Some (res, w') \<Rightarrow> Some (Some (rpc_ok (rpc_id r) res), w')))
      else if rpc_id r \<noteq> RawNone then
        Some (Some (rpc_fail (rpc_id r) (-32601) (''method not found: '' @ rpc_method r)), w)
      else Some (None, w))"

text \<open>One line of the input: a line that is no request is logged only.\<close>

definition serve_line :: "'w rpc_server \<Rightarrow> string \<Rightarrow> 'w \<Rightarrow> (string list \<times> 'w) option" where
  "serve_line sv line w =
     (case parse_request line of
        None \<Rightarrow> Some ([], w)
      | Some r \<Rightarrow>
          (case handle sv r w of
             None \<Rightarrow> None
           | Some (None, w') \<Rightarrow> Some ([], w')
           | Some (Some rsp, w') \<Rightarrow> Some ([send_line rsp], w')))"

fun serve_lines :: "'w rpc_server \<Rightarrow> string list \<Rightarrow> 'w \<Rightarrow> (string list \<times> 'w) option" where
  "serve_lines sv [] w = Some ([], w)"
| "serve_lines sv (l # ls) w =
     (case serve_line sv l w of
        None \<Rightarrow> None
      | Some (out, w') \<Rightarrow>
          (case serve_lines sv ls w' of None \<Rightarrow> None | Some (rest, w'') \<Rightarrow> Some (out @ rest, w'')))"

text \<open>\<open>ReadBytes\<close>: the lines with their line feeds, and the rest without one if there is any.\<close>

fun input_lines :: "string list \<Rightarrow> string list" where
  "input_lines [] = []"
| "input_lines [p] = (if p = [] then [] else [p])"
| "input_lines (p # q # ps) = (p @ [CHR 0x0A]) # input_lines (q # ps)"

definition serve_input :: "'w rpc_server \<Rightarrow> string \<Rightarrow> 'w \<Rightarrow> (string list \<times> 'w) option" where
  "serve_input sv input w = serve_lines sv (input_lines (split_byte input (CHR 0x0A))) w"


section \<open>Properties\<close>

definition answered_methods :: "string list" where
  "answered_methods = [''initialize'', ''ping'', ''tools/list'', ''tools/call'']"

definition must_answer :: "rpc_request \<Rightarrow> bool" where
  "must_answer r \<longleftrightarrow> rpc_method r \<in> set answered_methods
     \<or> rpc_id r \<noteq> RawNone \<and> rpc_method r \<noteq> ''notifications/initialized''"

definition one_outcome :: "rpc_response \<Rightarrow> bool" where
  "one_outcome r \<longleftrightarrow> (rsp_result r = None) \<noteq> (rsp_error r = None)"

lemma handle_answer:
  "handle sv r w = Some (a, w') \<Longrightarrow>
     (case a of None \<Rightarrow> \<not> must_answer r | Some rsp \<Rightarrow> must_answer r \<and> rsp_id rsp = rpc_id r \<and> one_outcome rsp)"
  unfolding handle_def must_answer_def answered_methods_def one_outcome_def rpc_ok_def rpc_fail_def
  by (auto split: if_split_asm option.splits)

definition requests_in :: "string list \<Rightarrow> rpc_request list" where
  "requests_in ls = concat (map (\<lambda>l. case parse_request l of None \<Rightarrow> [] | Some r \<Rightarrow> [r]) ls)"

lemma serve_lines_answers:
  "serve_lines sv ls w = Some (out, w') \<Longrightarrow>
     \<exists>rsps. out = map send_line rsps \<and> map rsp_id rsps = map rpc_id (filter must_answer (requests_in ls))
       \<and> list_all one_outcome rsps"
proof (induction ls arbitrary: w out)
  case (Cons l ls)
  obtain o1 w1 o2 where s: "serve_line sv l w = Some (o1, w1)" "serve_lines sv ls w1 = Some (o2, w')" "out = o1 @ o2"
    using Cons.prems by (auto split: option.splits)
  obtain rsps where IH: "o2 = map send_line rsps"
    "map rsp_id rsps = map rpc_id (filter must_answer (requests_in ls))" "list_all one_outcome rsps"
    using Cons.IH [OF s(2)] by blast
  show ?case
  proof (cases "parse_request l")
    case None
    then show ?thesis using s IH by (auto simp: serve_line_def requests_in_def)
  next
    case (Some r)
    obtain a where h: "handle sv r w = Some (a, w1)" "o1 = (case a of None \<Rightarrow> [] | Some rsp \<Rightarrow> [send_line rsp])"
      using s(1) Some by (auto simp: serve_line_def split: option.splits)
    show ?thesis
    proof (cases a)
      case None
      then show ?thesis using handle_answer [OF h(1)] h s IH Some
        by (intro exI [of _ rsps]) (simp add: requests_in_def)
    next
      case (Some rsp)
      then show ?thesis using handle_answer [OF h(1)] h s IH \<open>parse_request l = Some r\<close>
        by (intro exI [of _ "rsp # rsps"]) (simp add: requests_in_def)
    qed
  qed
qed (simp add: requests_in_def)

text \<open>
  C5. The server answers the requests of its input one by one and in their order: the answers have the
  ids of the requests, each with a result or an error and never both. Lines that are no request are
  skipped; a request is left unanswered only when it is the notification \<open>initialized\<close> or has no id
  and a method the server does not know.
\<close>

theorem rpc_answers:
  assumes "serve_input sv input w = Some (out, w')"
  shows "\<exists>rsps. out = map send_line rsps
    \<and> map rsp_id rsps = map rpc_id (filter must_answer (requests_in (input_lines (split_byte input (CHR 0x0A)))))
    \<and> list_all one_outcome rsps"
  by (rule serve_lines_answers [OF assms [unfolded serve_input_def]])

definition demo_server :: "nat rpc_server" where
  "demo_server = \<lparr>sv_num = (\<lambda>l. Some l), sv_build = None, sv_tools = [], sv_err = (\<lambda>r. []),
     sv_call = call_tool 1 (\<lambda>l. Some l) demo_tools\<rparr>"

definition ping_line :: string where
  "ping_line = jprint (JObj [(''id'', JNum ''7''), (''method'', JStr ''ping'')])"

theorem rpc_answers_witness:
  "\<exists>out w'. serve_input demo_server (''{'' @ [CHR 0x0A] @ ping_line) 0 = Some (out, w')
     \<and> out = [send_line (rpc_ok (RawDoc (JNum ''7'')) (VMap []))]"
proof -
  have r: "map parse_request (input_lines (split_byte (''{'' @ [CHR 0x0A] @ ping_line) (CHR 0x0A)))
    = [None, Some \<lparr>rpc_version = [], rpc_id = RawDoc (JNum ''7''), rpc_method = ''ping'', rpc_params = RawNone\<rparr>]"
    by code_simp
  obtain a b where l: "input_lines (split_byte (''{'' @ [CHR 0x0A] @ ping_line) (CHR 0x0A)) = [a, b]"
    "parse_request a = None"
    "parse_request b = Some \<lparr>rpc_version = [], rpc_id = RawDoc (JNum ''7''), rpc_method = ''ping'', rpc_params = RawNone\<rparr>"
    using r by (auto simp: map_eq_Cons_conv)
  have s: "serve_input demo_server (''{'' @ [CHR 0x0A] @ ping_line) 0
    = Some ([send_line (rpc_ok (RawDoc (JNum ''7'')) (VMap []))], 0)"
    unfolding serve_input_def l(1) by (simp add: l(2,3) serve_line_def handle_def)
  from rpc_answers [OF s] s show ?thesis by blast
qed

text \<open>A known method without an id, which JSON-RPC calls a notification, is answered all the same.\<close>

theorem notification_answered:
  "handle sv \<lparr>rpc_version = ''2.0'', rpc_id = RawNone, rpc_method = ''ping'', rpc_params = RawNone\<rparr> w
     = Some (Some (rpc_ok RawNone (VMap [])), w)"
  by (simp add: handle_def)


section \<open>The output is lines of JSON\<close>

text \<open>
  A tool keeps to JSON: the numbers of its results are texts that \<open>Marshal\<close> could have written, and it
  nests less deep than a reader accepts.
\<close>

definition result_ok :: "go_value \<Rightarrow> bool" where
  "result_ok v \<longleftrightarrow> jwf (value_json v) \<and> value_depth v \<le> max_depth - 1"

lemma raw_ok_names:
  "raw_ok ''content''" "raw_ok ''text''" "raw_ok ''type''" "raw_ok ''isError''" "raw_ok ''result''" "raw_ok ''error''"
  "plain ''jsonrpc''" "plain ''code''" "plain ''message''" "raw_ok ''id''"
  by code_simp+

lemma tool_text_ok [simp]: "result_ok (tool_text v)" "result_ok (tool_err msg)"
  unfolding result_ok_def tool_text_def tool_err_def text_content_def
  by (simp_all add: raw_ok_quote max_depth_def del: raw_ok.simps quote_text.simps)

lemma become_result_ok: "become num call args w = Some (res, w') \<Longrightarrow> result_ok res"
  by (auto simp: become_def split: option.splits go_value.splits sum.splits)

text \<open>So the tools of the server keep to JSON, compositions included, as soon as the atoms do.\<close>

lemma call_tool_result_ok:
  assumes "\<And>name args w res w'. tools name args w = Some (res, w') \<Longrightarrow> result_ok res"
    and "call_tool d num tools name args w = Some (res, w')"
  shows "result_ok res"
proof (cases "name = ''become''")
  case True
  then show ?thesis using assms(2) by (cases d) (auto dest: become_result_ok)
next
  case False
  then show ?thesis using assms(1) [of name args w res w'] assms(2) by (auto simp: call_tool.simps [of d] split: if_split_asm)
qed

text \<open>The ids of requests come from the parser.\<close>

definition id_ok :: "raw_message \<Rightarrow> bool" where
  "id_ok raw \<longleftrightarrow> (case raw of RawDoc j \<Rightarrow> jwf j \<and> jdepth j \<le> max_depth - 1 | RawNone \<Rightarrow> True | RawBad \<Rightarrow> False)"

lemma jobj_members:
  "jwf (JObj ms) \<and> jdepth (JObj ms) \<le> Suc k \<Longrightarrow> \<forall>m \<in> set ms. jwf (snd m) \<and> jdepth (snd m) \<le> k"
  by auto

lemma decode_mems_id:
  "decode_mems set_rpc_field rpc_fields ms r = Some r' \<Longrightarrow> id_ok (rpc_id r) \<Longrightarrow>
     \<forall>m \<in> set ms. jwf (snd m) \<and> jdepth (snd m) \<le> max_depth - 1 \<Longrightarrow> id_ok (rpc_id r')"
proof (induction ms arbitrary: r)
  case (Cons m ms)
  have "id_ok (rpc_id q)" if "set_rpc_field n (snd m) r = Some q" for n q
    using that Cons.prems(2,3) by (auto simp: set_rpc_field_def id_ok_def split: if_splits)
  then show ?case using Cons by (auto split: option.splits)
qed simp

lemma parse_request_id: "parse_request line = Some r \<Longrightarrow> id_ok (rpc_id r)"
proof -
  assume "parse_request line = Some r"
  then obtain j where j: "parse_json line = Some j"
    and d: "decode_struct set_rpc_field rpc_fields j
      \<lparr>rpc_version = [], rpc_id = RawNone, rpc_method = [], rpc_params = RawNone\<rparr> = Some r"
    by (auto simp: parse_request_def bind_eq_Some_conv)
  show "id_ok (rpc_id r)"
  proof (cases j)
    case JNull
    then show ?thesis using d by (auto simp: decode_struct_def id_ok_def)
  next
    case (JObj ms)
    have "\<forall>m \<in> set ms. jwf (snd m) \<and> jdepth (snd m) \<le> max_depth - 1"
      using parse_json_sound [OF j] jobj_members [of ms "max_depth - 1"] unfolding JObj by (simp add: max_depth_def)
    then show ?thesis
      using decode_mems_id [of ms _ r] d JObj by (auto simp: decode_struct_def id_ok_def)
  qed (use d in \<open>simp_all add: decode_struct_def\<close>)
qed

lemma response_json_wf:
  assumes "id_ok (rsp_id r)" and "\<And>v. rsp_result r = Some v \<Longrightarrow> result_ok v"
  shows "jwf (response_json r) \<and> jdepth (response_json r) \<le> max_depth"
proof -
  have e: "jwf (JObj (int_mem ''code'' code @ str_mem ''message'' msg))
      \<and> jdepth (JObj (int_mem ''code'' code @ str_mem ''message'' msg)) \<le> max_depth - 1" for code msg
  proof -
    have "jwf (JObj (int_mem ''code'' code @ str_mem ''message'' msg))
        \<and> jdepth (JObj (int_mem ''code'' code @ str_mem ''message'' msg)) \<le> Suc 0"
      using mem_json_wf(3) [OF raw_ok_names(8)] mem_json_wf(1) [OF raw_ok_names(9)]
      by (intro jobj_wf) (auto simp del: raw_ok.simps)
    then show ?thesis by (simp add: max_depth_def)
  qed
  have m: "raw_ok (fst m) \<and> jwf (snd m) \<and> jdepth (snd m) \<le> max_depth - 1"
    if mm: "m \<in> set (str_mem ''jsonrpc'' ''2.0'' @ raw_mem_opt ''id'' (rsp_id r)
     @ (case rsp_result r of None \<Rightarrow> [] | Some v \<Rightarrow> [(''result'', value_json v)])
     @ (case rsp_error r of None \<Rightarrow> []
        | Some (code, msg) \<Rightarrow> [(''error'', JObj (int_mem ''code'' code @ str_mem ''message'' msg))]))" for m
  proof -
    consider "m \<in> set (str_mem ''jsonrpc'' ''2.0'')" | j where "rsp_id r = RawDoc j" "m = (''id'', html_esc j)"
      | v where "rsp_result r = Some v" "m = (''result'', value_json v)"
      | code msg where "m = (''error'', JObj (int_mem ''code'' code @ str_mem ''message'' msg))"
      using mm by (cases "rsp_id r"; cases "rsp_result r"; cases "rsp_error r") (auto simp: raw_mem_opt_def)
    then show ?thesis
    proof cases
      case 1
      then show ?thesis using mem_json_wf(1) [OF raw_ok_names(7) 1] by simp
    next
      case (2 j)
      then show ?thesis using assms(1) raw_ok_names(10) by (simp add: id_ok_def del: raw_ok.simps)
    next
      case (3 v)
      then show ?thesis using assms(2) raw_ok_names(5) by (simp add: result_ok_def del: raw_ok.simps)
    next
      case (4 code msg)
      show ?thesis unfolding 4 fst_conv snd_conv using e raw_ok_names(6) by blast
    qed
  qed
  have "Suc (max_depth - 1) = max_depth" by (simp add: max_depth_def)
  moreover have "jwf (response_json r) \<and> jdepth (response_json r) \<le> Suc (max_depth - 1)"
    unfolding response_json_def by (rule jobj_wf) (rule m)
  ultimately show ?thesis by (simp only:)
qed

lemma handle_result_ok:
  assumes "handle sv r w = Some (Some rsp, w')" and "rsp_result rsp = Some v"
    and "\<And>name args w res w'. sv_call sv name args w = Some (res, w') \<Longrightarrow> result_ok res"
    and "result_ok (VMap [(''tools'', VList (sv_tools sv))])"
  shows "result_ok v"
proof -
  have "result_ok (initialize_result sv)" "result_ok (VMap [])"
    by (simp_all add: result_ok_def initialize_result_def max_depth_def raw_ok_quote del: raw_ok.simps quote_text.simps)
  then show ?thesis
    using assms by (auto simp: handle_def rpc_ok_def rpc_fail_def split: if_split_asm option.splits prod.splits)
qed

lemma serve_line_json:
  assumes "serve_line sv line w = Some (out, w')" and "l \<in> set out"
    and "\<And>name args w res w'. sv_call sv name args w = Some (res, w') \<Longrightarrow> result_ok res"
    and "result_ok (VMap [(''tools'', VList (sv_tools sv))])"
  shows "\<exists>j. l = jprint j @ [CHR 0x0A] \<and> CHR 0x0A \<notin> set (jprint j) \<and> parse_json l = Some j"
proof -
  obtain r rsp where r: "parse_request line = Some r" "handle sv r w = Some (Some rsp, w')" "l = send_line rsp"
    using assms(1,2) by (auto simp: serve_line_def split: option.splits)
  have "rsp_id rsp = rpc_id r" using handle_answer [OF r(2)] by simp
  then have "jwf (response_json rsp) \<and> jdepth (response_json rsp) \<le> max_depth"
    using parse_request_id [OF r(1)] by (intro response_json_wf handle_result_ok [OF r(2) _ assms(3,4)]) simp_all
  moreover have "CHR 0x0A \<notin> set (jprint j)" if "jwf j" for j
    using jprint_printable(1) [OF that] by (auto simp: byte_val_def)
  ultimately show ?thesis
    using parse_jprint_line [of "response_json rsp"] r(3) by (auto simp: send_line_def)
qed

text \<open>
  The output of the server is one JSON document per line, whatever the input is: no line of output
  is broken by a line feed, and each parses. (The tools have to return values that \<open>Marshal\<close> can
  write and a reader can nest, which \<open>toolText\<close> and \<open>toolErr\<close> do.)
\<close>

lemma rpc_output_lines:
  assumes "serve_input sv input w = Some (out, w')"
    and "\<And>name args w res w'. sv_call sv name args w = Some (res, w') \<Longrightarrow> result_ok res"
    and "result_ok (VMap [(''tools'', VList (sv_tools sv))])"
    and "l \<in> set out"
  shows "\<exists>j. l = jprint j @ [CHR 0x0A] \<and> CHR 0x0A \<notin> set (jprint j) \<and> parse_json l = Some j"
proof -
  have "\<exists>j. l = jprint j @ [CHR 0x0A] \<and> CHR 0x0A \<notin> set (jprint j) \<and> parse_json l = Some j"
    if "serve_lines sv ls w = Some (out, w')" "l \<in> set out" for ls w out
    using that
  proof (induction ls arbitrary: w out)
    case (Cons a ls)
    obtain o1 w1 o2 where s: "serve_line sv a w = Some (o1, w1)" "serve_lines sv ls w1 = Some (o2, w')" "out = o1 @ o2"
      using Cons.prems(1) by (auto split: option.splits)
    then show ?case
      using Cons.IH [OF s(2)] serve_line_json [OF s(1) _ assms(2,3)] Cons.prems(2) by auto
  qed simp
  then show ?thesis using assms(1,4) unfolding serve_input_def by blast
qed

end
