(* ===== verification/Mcp_Tools.thy ===== *)
theory Mcp_Tools
  imports Rpc
begin

text \<open>
  The list of tools that \<open>cmd/mcp/main.go\<close> advertises (\<open>server.tools\<close>): the names, the descriptions
  and the schemas of the arguments. Bytes outside printable ASCII and quotes are written by number.
\<close>

section \<open>The texts\<close>

definition desc_http_request :: string where
  "desc_http_request =
     ''Make one protocol call: method + url + headers + body. Returns status, headers, body. This ''
     @ ''is the whole primitive '' @ [CHR 0xE2, CHR 0x80, CHR 0x94] @ '' aim it at any HTTP API.''"

definition about_method :: string where
  "about_method =
     ''HTTP method (GET, POST, DELETE, ...)''"

definition about_url :: string where
  "about_url =
     ''Full URL to call.''"

definition about_headers :: string where
  "about_headers =
     ''Header name -> value.''"

definition about_body :: string where
  "about_body =
     ''Request body: a raw string, OR a JSON object (e.g. {'' @ [CHR 0x22] @ ''method'' @ [CHR 0x22]
     @ '':...,'' @ [CHR 0x22] @ ''params'' @ [CHR 0x22] @ '':{}}) which is sent as JSON ''
     @ [CHR 0xE2, CHR 0x80, CHR 0x94] @ '' both work.''"

definition about_auth :: string where
  "about_auth =
     ''Optional auth. Either {profile: '' @ [CHR 0x22] @ ''<env>:<account>'' @ [CHR 0x22]
     @ ''} to resolve a Basic credential from the environment (LT_USERNAME/LT_ACCESS_KEY) or a gitignored ''
     @ ''auth/<profile>.json '' @ [CHR 0xE2, CHR 0x80, CHR 0x94]
     @ '' the secret never passes through here '' @ [CHR 0xE2, CHR 0x80, CHR 0x94]
     @ '' or a literal {type: basic|bearer|apikey, user, key, header}.''"

definition about_timeout :: string where
  "about_timeout =
     ''Optional. Give up after this many ms (default ~30s). Raise it for slow cloud session creation ''
     @ [CHR 0xE2, CHR 0x80, CHR 0x94] @ '' Appium/Espresso/XCUITest builds take tens of seconds.''"

definition desc_discover :: string where
  "desc_discover =
     ''Re-perceive what a hub actually serves. Fires the wire'' @ [CHR 0x27]
     @ ''s own self-description: GET /status, then (if a session_id is given) GET /session/:id to read ''
     @ ''live caps, GET /session/:id/appium/commands for Appium self-enumeration, and a 404-vs-405 ''
     @ ''probe of every route in the stored prior (specs/) to classify exists/absent/unknown. Returns ''
     @ ''what the wire says, not what the spec claims. Probe verdict beats snapshot claim, always.''"

definition about_hub_url :: string where
  "about_hub_url =
     ''Base URL of the WebDriver/Appium hub to re-perceive.''"

definition about_session_id :: string where
  "about_session_id =
     ''Optional live session id '' @ [CHR 0xE2, CHR 0x80, CHR 0x94]
     @ '' enables cap-read and Appium self-enumeration.''"

definition about_spec :: string where
  "about_spec =
     ''Spec name to probe against, e.g. geckodriver@0.37.0 or webdriver@wdio-9.28.0. Omit to probe ''
     @ ''all known specs.''"

definition desc_bidi_command :: string where
  "desc_bidi_command =
     ''Send one command over a CDP / WebDriver-BiDi WebSocket and return its response. This is the ''
     @ ''channel-physics sibling of http_request: where http_request is one HTTP call (the wire beneath ''
     @ ''Selenium/Appium), bidi_command is one duplex-channel command (the wire beneath Playwright/Puppeteer/Selenium-BiDi). ''
     @ ''A command gets a response; streaming events are not this tool'' @ [CHR 0x27] @ ''s job.''"

definition about_ws_url :: string where
  "about_ws_url =
     ''The channel endpoint: a Firefox BiDi session socket, or a Chrome CDP page/target socket.''"

definition about_command :: string where
  "about_command =
     ''Command method, e.g. browsingContext.getTree (BiDi) or Page.navigate (CDP).''"

definition about_params :: string where
  "about_params =
     ''Command params object (defaults to {}).''"

definition about_id :: string where
  "about_id =
     ''Command id to match the response against (default 1).''"

definition about_upgrade :: string where
  "about_upgrade =
     ''Optional WS upgrade headers (name -> value). For channels that gate the handshake ''
     @ [CHR 0xE2, CHR 0x80, CHR 0x94] @ '' e.g. LambdaTest /playwright needs {'' @ [CHR 0x22]
     @ ''x-playwright-browser'' @ [CHR 0x22] @ '':'' @ [CHR 0x22] @ ''chromium'' @ [CHR 0x22]
     @ ''} or the upgrade 400s. Host/Upgrade/Connection/Sec-WebSocket-* are reserved.''"

definition about_wait :: string where
  "about_wait =
     ''Give up waiting for the response after this many ms (default 30000).''"

definition about_channel_auth :: string where
  "about_channel_auth =
     ''Optional. {profile:'' @ [CHR 0x22] @ ''name'' @ [CHR 0x22]
     @ ''} resolves a credential BELOW the boundary and injects it into the channel handshake ''
     @ [CHR 0xE2, CHR 0x80, CHR 0x94]
     @ '' LambdaTest ?capabilities= (LT:Options.user/accessKey) or URL userinfo. The secret never appears ''
     @ ''in ws_url or logs.''"

definition desc_transports :: string where
  "desc_transports =
     ''Return the wire'' @ [CHR 0x27]
     @ ''s transport manifest: the full candidate list (HTTP, WebSocket, SSE, MJPEG, Unix socket, gRPC, ''
     @ ''MQTT, WebRTC) mapped onto the two atoms '' @ [CHR 0xE2, CHR 0x80, CHR 0x94]
     @ '' http_request (CALL) and bidi_command (CHANNEL) '' @ [CHR 0xE2, CHR 0x80, CHR 0x94]
     @ '' marking which live in the lean wire vs require an adapter, and why (raw bytes = wire; framing/routing/negotiation ''
     @ ''= adapter). This is the map any agent reads first to understand what the four-body system ''
     @ ''can reach. No inputs.''"

definition desc_become :: string where
  "desc_become =
     ''Become ANY tool by composing the wire'' @ [CHR 0x27] @ ''s primitives in one call ''
     @ [CHR 0xE2, CHR 0x80, CHR 0x94]
     @ '' the lean alternative to a named tool per framework. Give a recipe: an ordered list of steps, ''
     @ ''each {tool: '' @ [CHR 0x22] @ ''http_request'' @ [CHR 0x22] @ ''|'' @ [CHR 0x22]
     @ ''bidi_command'' @ [CHR 0x22] @ ''|'' @ [CHR 0x22] @ ''discover'' @ [CHR 0x22]
     @ '', args: {...}, id?}. Reference an earlier step'' @ [CHR 0x27]
     @ ''s result anywhere in a later step'' @ [CHR 0x27] @ ''s args with a template string like ''
     @ [CHR 0x22] @ ''${0.result.context}'' @ [CHR 0x22] @ '' or '' @ [CHR 0x22]
     @ ''${create.result.context}'' @ [CHR 0x22]
     @ '' (by index or id). The wire runs the whole composition and returns each step'' @ [CHR 0x27]
     @ ''s result. Use this to enact a capability (open+drive a tab, probe+then+call, a multi-step ''
     @ ''flow) without asking for a dedicated tool '' @ [CHR 0xE2, CHR 0x80, CHR 0x94]
     @ '' a tool is a composition of atoms, and this is how you compose one.''"

definition about_recipe :: string where
  "about_recipe =
     ''Ordered steps: [{tool, args, id?}, ...]. Each step is one primitive call; ${idx.path} or ${id.path} ''
     @ ''in a later step'' @ [CHR 0x27] @ ''s args resolves to an earlier step'' @ [CHR 0x27]
     @ ''s result.''"

section \<open>The schemas\<close>

definition typed :: "string \<Rightarrow> string \<Rightarrow> go_value" where
  "typed ty about = VMap [(''description'', VStr about), (''type'', VStr ty)]"

definition string_table :: "string \<Rightarrow> go_value" where
  "string_table about =
     VMap [(''additionalProperties'', VMap [(''type'', VStr ''string'')]), (''description'', VStr about),
       (''type'', VStr ''object'')]"

definition tool_entry :: "string \<Rightarrow> string \<Rightarrow> (string \<times> go_value) list \<Rightarrow> string list \<Rightarrow> go_value" where
  "tool_entry name about props required =
     VMap [(''description'', VStr about),
       (''inputSchema'', VMap [(''properties'', VMap props), (''required'', VList (map VStr required)),
          (''type'', VStr ''object'')]),
       (''name'', VStr name)]"

definition mcp_tools :: "go_value list" where
  "mcp_tools =
     [tool_entry ''http_request'' desc_http_request
        [(''auth'', typed ''object'' about_auth), (''body'', typed ''string'' about_body),
         (''headers'', string_table about_headers), (''method'', typed ''string'' about_method),
         (''timeout_ms'', typed ''integer'' about_timeout), (''url'', typed ''string'' about_url)]
        [''method'', ''url''],
      tool_entry ''discover'' desc_discover
        [(''hub_url'', typed ''string'' about_hub_url), (''session_id'', typed ''string'' about_session_id),
         (''spec'', typed ''string'' about_spec)]
        [],
      tool_entry ''bidi_command'' desc_bidi_command
        [(''auth'', typed ''object'' about_channel_auth), (''headers'', string_table about_upgrade),
         (''id'', typed ''integer'' about_id), (''method'', typed ''string'' about_command),
         (''params'', typed ''object'' about_params), (''timeout_ms'', typed ''integer'' about_wait),
         (''ws_url'', typed ''string'' about_ws_url)]
        [''ws_url'', ''method''],
      tool_entry ''transports'' desc_transports [] [],
      tool_entry ''become'' desc_become [(''recipe'', typed ''array'' about_recipe)] [''recipe'']]"

section \<open>Properties\<close>

definition advertised :: "go_value \<Rightarrow> string" where
  "advertised t = str_of (map_of (as_map t) ''name'')"

definition schema_part :: "go_value \<Rightarrow> string \<Rightarrow> go_value" where
  "schema_part t k = at_key (as_map (at_key (as_map t) ''inputSchema'')) k"

text \<open>A schema is closed when the arguments it requires are among those it describes.\<close>

definition closed_schema :: "go_value \<Rightarrow> bool" where
  "closed_schema t \<longleftrightarrow>
     (case schema_part t ''required'' of
        VList vs \<Rightarrow> list_all (\<lambda>v. str_of (Some v) \<in> fst ` set (as_map (schema_part t ''properties''))) vs
      | _ \<Rightarrow> False)"

lemma value_depth_le:
  "\<forall>v \<in> set vs. value_depth v \<le> n \<Longrightarrow> value_depth (VList vs) \<le> Suc n"
  "\<forall>m \<in> set ms. value_depth (snd m) \<le> n \<Longrightarrow> value_depth (VMap ms) \<le> Suc n"
  by auto

lemma tool_entry_depth:
  assumes "\<forall>m \<in> set props. value_depth (snd m) \<le> 2"
  shows "value_depth (tool_entry name about props required) \<le> 5"
proof -
  have "value_depth (VMap props) \<le> Suc 2" using assms by (rule value_depth_le)
  moreover have "value_depth (VList (map VStr required)) \<le> Suc 2" by (rule value_depth_le) simp
  ultimately have "value_depth (VMap [(''properties'', VMap props), (''required'', VList (map VStr required)),
      (''type'', VStr ''object'')]) \<le> Suc 3" by (intro value_depth_le) (simp del: value_depth.simps(1,2))
  then have "value_depth (tool_entry name about props required) \<le> Suc 4"
    unfolding tool_entry_def by (intro value_depth_le) simp
  then show ?thesis by simp
qed

lemma schema_depth: "value_depth (typed ty about) \<le> 2" "value_depth (string_table about) \<le> 2"
  by (simp_all add: typed_def string_table_def)

lemma mcp_tools_depth: "value_depth (VMap [(''tools'', VList mcp_tools)]) \<le> 7"
proof -
  have "\<forall>v \<in> set mcp_tools. value_depth v \<le> 5"
    unfolding mcp_tools_def by (auto simp del: value_depth.simps intro!: tool_entry_depth schema_depth)
  then have "value_depth (VList mcp_tools) \<le> Suc 5" by (rule value_depth_le)
  then have "value_depth (VMap [(''tools'', VList mcp_tools)]) \<le> Suc 6" by (intro value_depth_le) simp
  then show ?thesis by simp
qed

lemma mcp_tools_ok: "result_ok (VMap [(''tools'', VList mcp_tools)])"
  unfolding result_ok_def
proof (intro conjI)
  show "jwf (value_json (VMap [(''tools'', VList mcp_tools)]))"
    by (simp add: mcp_tools_def tool_entry_def typed_def string_table_def del: quote_text.simps raw_ok.simps)
  show "value_depth (VMap [(''tools'', VList mcp_tools)]) \<le> max_depth - 1"
    using mcp_tools_depth by (simp add: max_depth_def del: value_depth.simps)
qed


end
