(* ===== verification/Mcp_Server.thy ===== *)
theory Mcp_Server
  imports Bidi Mcp_Tools
begin

text \<open>
  \<open>cmd/mcp/main.go\<close> put together: \<open>mcp_tool\<close> dispatches the atoms, \<open>mcp_call\<close> is \<open>callTool\<close> with the
  composer, and \<open>mcp_server\<close> is the server that \<open>main\<close> starts. The embedded transport manifest, the build
  information and the texts of decoding errors are arguments.
\<close>

definition mcp_tool :: "('w, 'e) channel_env_scheme \<Rightarrow> string \<Rightarrow> 'w tool" where
  "mcp_tool env manifest name args w =
     (if name = ''http_request'' then Some (http_request_tool env args w)
      else if name = ''discover'' then Some (discover_tool env args w)
      else if name = ''bidi_command'' then bidi_command_tool env args w
      else Some (tool_text (VStr manifest), w))"

definition mcp_call :: "('w, 'e) channel_env_scheme \<Rightarrow> string \<Rightarrow> nat \<Rightarrow> 'w tool" where
  "mcp_call env manifest depth = call_tool depth (me_num env) (mcp_tool env manifest)"

definition mcp_server ::
  "('w, 'e) channel_env_scheme \<Rightarrow> string \<Rightarrow> string option \<Rightarrow> (raw_message \<Rightarrow> string) \<Rightarrow> nat \<Rightarrow> 'w rpc_server"
where
  "mcp_server env manifest build params_err depth =
     \<lparr>sv_num = me_num env, sv_build = build, sv_tools = mcp_tools, sv_err = params_err,
      sv_call = mcp_call env manifest depth\<rparr>"

section \<open>Properties\<close>

lemma http_request_tool_ok: "result_ok (fst (http_request_tool env args w))"
proof -
  have r: "result_ok (response_result r)" for r
    using tool_text_ok(1) [of "VStr (jindent 0 (response_value r))"] by (simp add: tool_text_def response_result_def)
  have "result_ok (fst (direct_call env c q v))" for c q v
    by (auto simp: direct_call_def r split: prod.splits sum.splits)
  moreover have "witness_answer num ans = Some res \<Longrightarrow> result_ok res" for num ans res
    by (auto simp: witness_answer_def split: sum.splits if_splits option.splits)
  ultimately show ?thesis
    by (auto simp: http_request_tool_def Let_def split: sum.splits prod.splits option.splits)
qed

lemma mcp_tool_ok: "mcp_tool env manifest name args w = Some (res, w') \<Longrightarrow> result_ok res"
proof -
  have d: "result_ok (fst (discover_tool env args w))"
    by (auto simp: discover_tool_def Let_def split: prod.splits)
  have b: "result_ok res" if "bidi_channel env red url args w = Some (res, w')" for red url
    using bidi_channel_outcome [OF that] by (auto simp: channel_outcome_def)
  assume "mcp_tool env manifest name args w = Some (res, w')"
  then show ?thesis
    using http_request_tool_ok [of env args w] d
    by (auto simp: mcp_tool_def bidi_command_tool_def Let_def intro: b split: if_splits option.splits sum.splits)
qed

text \<open>
  C7. The output of the server is one JSON document per line, whatever comes in on its input, whatever the
  network, the files and the peers of its channels answer: no line of output is broken by a line feed, and
  each line parses.
\<close>

theorem mcp_output_lines:
  assumes "serve_input (mcp_server env manifest build params_err depth) input w = Some (out, w')" and "l \<in> set out"
  shows "\<exists>j. l = jprint j @ [CHR 0x0A] \<and> CHR 0x0A \<notin> set (jprint j) \<and> parse_json l = Some j"
proof (rule rpc_output_lines [OF assms(1) _ _ assms(2)])
  fix name args and v v' :: 'a and res
  assume "sv_call (mcp_server env manifest build params_err depth) name args v = Some (res, v')"
  then show "result_ok res"
    unfolding mcp_server_def mcp_call_def rpc_server.simps
    by (rule call_tool_result_ok [rotated]) (rule mcp_tool_ok)
next
  show "result_ok (VMap [(''tools'', VList (sv_tools (mcp_server env manifest build params_err depth)))])"
    unfolding mcp_server_def rpc_server.simps by (rule mcp_tools_ok)
qed

definition init_line :: string where
  "init_line = jprint (JObj [(''id'', JNum ''7''), (''method'', JStr ''initialize'')])"

theorem mcp_output_lines_witness:
  "\<exists>out w'. serve_input (mcp_server demo_channel [] None (\<lambda>r. []) 1) init_line 0 = Some (out, w') \<and> length out = 1
     \<and> (\<forall>l \<in> set out. \<exists>j. l = jprint j @ [CHR 0x0A] \<and> parse_json l = Some j)"
proof -
  have r: "map parse_request (input_lines (split_byte init_line (CHR 0x0A)))
    = [Some \<lparr>rpc_version = [], rpc_id = RawDoc (JNum ''7''), rpc_method = ''initialize'', rpc_params = RawNone\<rparr>]"
    by code_simp
  then obtain a where l: "input_lines (split_byte init_line (CHR 0x0A)) = [a]"
    "parse_request a = Some \<lparr>rpc_version = [], rpc_id = RawDoc (JNum ''7''), rpc_method = ''initialize'', rpc_params = RawNone\<rparr>"
    by (auto simp: map_eq_Cons_conv)
  let ?sv = "mcp_server demo_channel [] None (\<lambda>r. []) 1"
  have s: "serve_input ?sv init_line 0 = Some ([send_line (rpc_ok (RawDoc (JNum ''7'')) (initialize_result ?sv))], 0)"
    unfolding serve_input_def l(1) by (simp add: l(2) serve_line_def handle_def)
  from mcp_output_lines [OF s] s show ?thesis by (intro exI conjI) (assumption, simp, blast)
qed



text \<open>
  C11. Calls compose: when the first step of a recipe is a call that was answered, a second call whose URL is the
  template of the body of that answer goes to exactly that URL, on the world the first call left.
\<close>

theorem next_call_follows:
  assumes "http_request_tool env (as_map (at_key (as_map s1) ''args'')) w = (response_result resp, w1)"
    and "step_tool s1 = ''http_request''" and "no_templates (at_key (as_map s1) ''args'')" and "step_id s1 \<noteq> ''0''"
    and "distinct (map fst (hp_headers resp))"
    and "\<forall>kv \<in> set (hp_headers resp). valid_utf8 (fst kv) \<and> list_all valid_utf8 (snd kv)"
    and "valid_utf8 (hp_body resp)" and "me_num env (dec_int (hp_status resp)) = Some (dec_int (hp_status resp))"
    and "step_tool s2 = ''http_request''"
    and "at_key (as_map s2) ''args'' = VMap [(''url'', VStr (template [''0'', ''result'', ''body'']))]"
  shows "\<exists>steps. become_steps (me_num env) (mcp_call env manifest d) 0 [s1, s2] [] [] w
    = (case http_request_tool env [(''url'', VStr (hp_body resp))] w1 of (res, w2) \<Rightarrow>
        Some (Inr (steps @ [step_result 1 ''http_request'' (extract_val (me_num env) res)]), w2))"
proof -
  let ?num = "me_num env" and ?call = "mcp_call env manifest d"
  have call: "?call ''http_request'' args v = Some (http_request_tool env args v)" for args v
    by (simp add: mcp_call_def call_tool.simps tool_names_def mcp_tool_def)
  have zero: "dec_nat 0 = ''0''" by code_simp
  let ?val = "extract_val ?num (response_result resp)"
  have run: "become_steps ?num ?call 0 [s1] [] [] w = Some (Inr [step_result 0 ''http_request'' ?val], w1)"
    using assms(1,2) resolve_no_templates [OF assms(3)] call by (simp add: step_tool_def Let_def)
  have "shown_result (step_result 0 ''http_request'' ?val) = ?val"
    by (simp add: shown_result_def step_result_def as_map_def at_key_def)
  then have "nav_path (shown_result ([step_result 0 ''http_request'' ?val] ! 0)) [''body''] = Some (VStr (hp_body resp))"
    using response_value_read [of resp ?num, OF assms(5-8)] by (simp add: at_key_def)
  from become_step_after [OF run, of 0 "[''body'']" s2, unfolded zero, OF _ _ _ _ assms(10) this]
  have "become_steps ?num ?call 0 ([s1] @ [s2]) [] [] w
    = (case ?call ''http_request'' [(''url'', VStr (hp_body resp))] w1 of None \<Rightarrow> None
       | Some (res, w2) \<Rightarrow> Some (Inr ([step_result 0 ''http_request'' ?val]
           @ [step_result 1 ''http_request'' (extract_val ?num res)]), w2))"
    using assms(4,9) by (simp del: become_steps.simps split: option.split)
  then show ?thesis unfolding call by (intro exI [of _ "[step_result 0 ''http_request'' ?val]"]) simp
qed


text \<open>A network on which every answer is the address of the next page.\<close>

definition link_env :: "nat channel_env" where
  "link_env = demo_channel\<lparr>me_net := (\<lambda>n c q. (Inr \<lparr>wp_status = 200, wp_headers = [], wp_body = ''http://b/'',
     wp_body_err = None\<rparr>, Suc n))\<rparr>"

theorem next_call_follows_witness:
  "\<exists>steps. become_steps (me_num link_env) (mcp_call link_env [] 1) 0
      [demo_step ''http_request'' (VMap [(''url'', VStr ''http://a/'')]),
       demo_step ''http_request'' (VMap [(''url'', VStr (template [''0'', ''result'', ''body'']))])] [] [] 0
    = (case http_request_tool link_env [(''url'', VStr ''http://b/'')] 1 of (res, w2) \<Rightarrow>
        Some (Inr (steps @ [step_result 1 ''http_request'' (extract_val (me_num link_env) res)]), w2))"
proof -
  let ?r = "\<lparr>hp_status = 200, hp_headers = [], hp_body = ''http://b/''\<rparr>"
  let ?s1 = "demo_step ''http_request'' (VMap [(''url'', VStr ''http://a/'')])"
  have "http_do_w link_env (Some server_client) (base_request [(''url'', VStr ''http://a/'')]) 0 = (Inr ?r, 1)" by code_simp
  moreover have "call_request link_env [(''url'', VStr ''http://a/'')] = Inr (base_request [(''url'', VStr ''http://a/'')], False)"
    by (simp add: call_request_def arg_headers_def)
  moreover have "call_client link_env [(''url'', VStr ''http://a/'')] = server_client"
    by (simp add: call_client_def arg_timeout_def)
  ultimately have "http_request_tool link_env [(''url'', VStr ''http://a/'')] 0 = (response_result ?r, 1)"
    by (simp add: http_request_tool_def direct_call_def link_env_def demo_channel_def Let_def)
  moreover have "as_map (at_key (as_map ?s1) ''args'') = [(''url'', VStr ''http://a/'')]"
    "step_tool ?s1 = ''http_request''" "no_templates (at_key (as_map ?s1) ''args'')" "step_id ?s1 \<noteq> ''0''"
    by code_simp+
  moreover have "valid_utf8 (hp_body ?r)" by code_simp
  moreover have "step_tool (demo_step ''http_request'' (VMap [(''url'', VStr u)])) = ''http_request''"
    "at_key (as_map (demo_step ''http_request'' (VMap [(''url'', VStr u)]))) ''args'' = VMap [(''url'', VStr u)]" for u
    by (simp_all add: demo_step_def step_tool_def as_map_def at_key_def str_of_def)
  ultimately show ?thesis
    using next_call_follows [of link_env ?s1 0 ?r 1
      "demo_step ''http_request'' (VMap [(''url'', VStr (template [''0'', ''result'', ''body'']))])" "[]" 1]
    by (simp add: link_env_def demo_channel_def del: become_steps.simps valid_utf8.simps)
qed

end
