(* ===== verification/Session_Chain.thy ===== *)
theory Session_Chain
  imports Httpx Compose
begin

text \<open>
  \<open>cmd/session/main.go\<close>: one WebDriver session as a chain of calls. \<open>chain_call\<close> is \<open>chain.call\<close>,
  \<open>mobile\<close> is \<open>chain.mobile\<close>, \<open>launch_inspector\<close> is \<open>launchInspector\<close> and \<open>session_main\<close> is \<open>main\<close> on
  parsed flags. The network, the programs that are started, the file and the URL parser act on the state of
  the world; what is printed is left out. \<open>None\<close> is the panic on the nil request of a URL that does not parse,
  whose error \<open>call\<close> drops.
\<close>

section \<open>The screenshot\<close>

text \<open>
  \<open>DecodeString\<close> of base64 without its error: what was decoded before it, line breaks being skipped.
\<close>

fun b64_quanta :: "string \<Rightarrow> string" where
  "b64_quanta (p # q # r # s # t) =
     (case (b64_val p, b64_val q) of
        (Some x, Some y) \<Rightarrow>
          (case b64_val r of
             None \<Rightarrow> (if r = CHR ''='' \<and> s = CHR ''='' then [char_of (x * 4 + y div 16)] else [])
           | Some z \<Rightarrow>
               (case b64_val s of
                  None \<Rightarrow>
                    (if s = CHR ''='' then [char_of (x * 4 + y div 16), char_of (y mod 16 * 16 + z div 4)] else [])
                | Some v \<Rightarrow>
                    char_of (x * 4 + y div 16) # char_of (y mod 16 * 16 + z div 4) # char_of (z mod 4 * 64 + v)
                    # b64_quanta t))
      | _ \<Rightarrow> [])"
| "b64_quanta _ = []"

definition b64_decoded :: "string \<Rightarrow> string" where
  "b64_decoded s = b64_quanta (filter (\<lambda>c. c \<noteq> CHR 0x0A \<and> c \<noteq> CHR 0x0D) s)"

section \<open>The world and the flags\<close>

record 'w session_env =
  se_url_err :: "string \<Rightarrow> string option"
  se_net :: "'w \<Rightarrow> wire_request \<Rightarrow> (string + int \<times> string) \<times> 'w"
  se_forward :: "'w \<Rightarrow> string list \<Rightarrow> 'w"
  se_dial :: "'w \<Rightarrow> string \<Rightarrow> 'w"
  se_write :: "'w \<Rightarrow> string \<Rightarrow> string \<Rightarrow> 'w"
  se_start :: "'w \<Rightarrow> string list \<Rightarrow> string option \<times> 'w"
  se_host_port :: "string \<Rightarrow> string + string \<times> string"

record session_flags =
  so_hub :: string
  so_udid :: string
  so_shot :: string
  so_inspector :: string
  so_keep :: bool
  so_mjpeg :: int

record 'w chain =
  ch_world :: 'w
  ch_step :: nat

section \<open>One call\<close>

datatype chain_error = ChainDown string | NotJson string | HttpFailed int raw_message | BadValue

definition set_envelope_field :: "string \<Rightarrow> json \<Rightarrow> raw_message \<Rightarrow> raw_message option" where
  "set_envelope_field n j v = Some (RawDoc j)"

text \<open>The member \<open>value\<close> of the answer, \<open>RawNone\<close> when there is none.\<close>

definition envelope :: "string \<Rightarrow> raw_message option" where
  "envelope raw = Option.bind (parse_json raw) (\<lambda>j. decode_struct set_envelope_field [''value''] j RawNone)"

definition chain_answer :: "string + int \<times> string \<Rightarrow> chain_error + raw_message" where
  "chain_answer ans =
     (case ans of
        Inl e \<Rightarrow> Inl (ChainDown e)
      | Inr (status, raw) \<Rightarrow>
          (case envelope raw of
             None \<Rightarrow> Inl (NotJson (take 120 raw))
           | Some v \<Rightarrow> if 400 \<le> status then Inl (HttpFailed status v) else Inr v))"

definition chain_call ::
  "'w session_env \<Rightarrow> string \<Rightarrow> string \<Rightarrow> string \<Rightarrow> go_value option \<Rightarrow> 'w chain
     \<Rightarrow> ((chain_error + raw_message) \<times> 'w chain) option"
where
  "chain_call env hub meth path body c =
     (case new_request (se_url_err env) meth (hub @ path) (case body of Some v \<Rightarrow> marshal_value v | None \<Rightarrow> []) of
        Inl e \<Rightarrow> None
      | Inr req \<Rightarrow>
          (case se_net env (ch_world c)
              (req\<lparr>wq_headers := header_set ''Content-Type'' ''application/json'' (wq_headers req)\<rparr>) of
             (ans, w) \<Rightarrow> Some (chain_answer ans, \<lparr>ch_world = w, ch_step = ch_step c + 1\<rparr>)))"

text \<open>What the callers decode the value into.\<close>

definition decode_value :: "(json \<Rightarrow> 'a option) \<Rightarrow> chain_error + raw_message \<Rightarrow> chain_error + 'a" where
  "decode_value dec r =
     (case r of
        Inl e \<Rightarrow> Inl e
      | Inr (RawDoc j) \<Rightarrow> (case dec j of Some x \<Rightarrow> Inr x | None \<Rightarrow> Inl BadValue)
      | Inr _ \<Rightarrow> Inl BadValue)"

definition dec_ready :: "json \<Rightarrow> bool option" where
  "dec_ready j = decode_struct (\<lambda>n v b. dec_bool v b) [''ready''] j False"

definition dec_session_id :: "json \<Rightarrow> string option" where
  "dec_session_id j = decode_struct (\<lambda>n v s. dec_string v s) [''sessionId''] j []"

definition mobile ::
  "'w session_env \<Rightarrow> string \<Rightarrow> string \<Rightarrow> string \<Rightarrow> go_value option \<Rightarrow> 'w chain
     \<Rightarrow> ((chain_error + raw_message) \<times> 'w chain) option"
where
  "mobile env hub sid script args =
     chain_call env hub ''POST'' (''/session/'' @ sid @ ''/execute/sync'')
       (Some (VMap [(''args'', VList (case args of Some a \<Rightarrow> [a] | None \<Rightarrow> [])), (''script'', VStr (''mobile: '' @ script))]))"

section \<open>The inspector\<close>

definition attach_state :: "string \<Rightarrow> string \<Rightarrow> string \<Rightarrow> go_value" where
  "attach_state host port sid =
     VMap [(''attachSessId'', VStr sid),
       (''server'', VMap [(''remote'', VMap [(''hostname'', VStr host), (''path'', VStr ''/''), (''port'', VStr port)])]),
       (''serverType'', VStr ''remote'')]"

definition launch_inspector ::
  "'w session_env \<Rightarrow> string \<Rightarrow> string \<Rightarrow> string \<Rightarrow> 'w chain \<Rightarrow> string option \<times> 'w chain"
where
  "launch_inspector env app hub sid c =
     (case se_host_port env hub of
        Inl e \<Rightarrow> (Some e, c)
      | Inr (host, port) \<Rightarrow>
          (let attach = ''--attach-state='' @ marshal_value (attach_state host port sid);
               argv = (if has_suffix app ''.app'' then [''open'', ''-n'', app, ''--args'', attach] else [app, attach])
           in case se_start env (ch_world c) argv of (err, w) \<Rightarrow> (err, c\<lparr>ch_world := w\<rparr>)))"

section \<open>The chain\<close>

definition always_match :: "session_flags \<Rightarrow> go_args" where
  "always_match fl =
     (let base = [(''appium:automationName'', VStr ''UiAutomator2''), (''appium:noReset'', VBool True),
                  (''appium:udid'', VStr (so_udid fl)), (''platformName'', VStr ''Android'')];
          kept = (if so_keep fl \<or> so_inspector fl \<noteq> [] then smap_put ''appium:newCommandTimeout'' (VNum ''0'') base else base)
      in if 0 < so_mjpeg fl then smap_put ''appium:mjpegServerPort'' (VNum (dec_int (so_mjpeg fl))) kept else kept)"

definition session_caps :: "session_flags \<Rightarrow> go_value" where
  "session_caps fl =
     VMap [(''capabilities'', VMap [(''alwaysMatch'', VMap (always_match fl)), (''firstMatch'', VList [VMap []])])]"

definition tcp_port :: "int \<Rightarrow> string" where
  "tcp_port p = ''tcp:'' @ dec_int p"

definition forward_stream :: "'w session_env \<Rightarrow> session_flags \<Rightarrow> 'w chain \<Rightarrow> 'w chain" where
  "forward_stream env fl c =
     (if 0 < so_mjpeg fl then
        (let w = se_forward env (ch_world c)
               [''adb'', ''-s'', so_udid fl, ''forward'', tcp_port (so_mjpeg fl), tcp_port (so_mjpeg fl)]
         in c\<lparr>ch_world := se_dial env w (''localhost:'' @ dec_int (so_mjpeg fl))\<rparr>)
      else c)"

definition swipe_args :: go_value where
  "swipe_args =
     VMap [(''direction'', VStr ''up''), (''height'', VNum ''700''), (''left'', VNum ''100''), (''percent'', VNum ''0.8''),
       (''top'', VNum ''1500''), (''width'', VNum ''880'')]"

text \<open>A link whose outcome is only printed.\<close>

definition link :: "(('e \<times> 'w chain) option) \<Rightarrow> 'w chain option" where
  "link r = map_option snd r"

definition perceive_control :: "'w session_env \<Rightarrow> session_flags \<Rightarrow> string \<Rightarrow> 'w chain \<Rightarrow> 'w chain option" where
  "perceive_control env fl sid c =
     Option.bind (link (mobile env (so_hub fl) sid ''deviceInfo'' None c)) (\<lambda>c1.
     Option.bind (link (mobile env (so_hub fl) sid ''pressKey'' (Some (VMap [(''keycode'', VNum ''3'')])) c1)) (\<lambda>c2.
     link (mobile env (so_hub fl) sid ''swipeGesture'' (Some swipe_args) c2)))"

definition take_shot :: "'w session_env \<Rightarrow> session_flags \<Rightarrow> string \<Rightarrow> 'w chain \<Rightarrow> 'w chain option" where
  "take_shot env fl sid c =
     (if so_shot fl = [] then Some c
      else
        map_option (\<lambda>(r, c1).
            case decode_value (\<lambda>j. dec_string j []) r of
              Inl e \<Rightarrow> c1
            | Inr b64 \<Rightarrow> c1\<lparr>ch_world := se_write env (ch_world c1) (so_shot fl) (b64_decoded b64)\<rparr>)
          (chain_call env (so_hub fl) ''GET'' (''/session/'' @ sid @ ''/screenshot'') None c))"

text \<open>The inspector, and whether the session is kept then.\<close>

definition inspect :: "'w session_env \<Rightarrow> session_flags \<Rightarrow> string \<Rightarrow> 'w chain \<Rightarrow> bool \<times> 'w chain" where
  "inspect env fl sid c =
     (if so_inspector fl = [] then (so_keep fl, c)
      else
        (case launch_inspector env (so_inspector fl) (so_hub fl) sid c of
           (Some e, c1) \<Rightarrow> (so_keep fl, c1)
         | (None, c1) \<Rightarrow> (True, c1)))"

definition finish :: "'w session_env \<Rightarrow> session_flags \<Rightarrow> string \<Rightarrow> bool \<times> 'w chain \<Rightarrow> 'w chain option" where
  "finish env fl sid kc =
     (if fst kc then Some (snd kc)
      else link (chain_call env (so_hub fl) ''DELETE'' (''/session/'' @ sid) None (snd kc)))"

definition session_rest :: "'w session_env \<Rightarrow> session_flags \<Rightarrow> string \<Rightarrow> 'w chain \<Rightarrow> 'w chain option" where
  "session_rest env fl sid c =
     Option.bind (perceive_control env fl sid (forward_stream env fl c)) (\<lambda>c1.
     Option.bind (take_shot env fl sid c1) (\<lambda>c2. finish env fl sid (inspect env fl sid c2)))"

text \<open>The run: the exit status and the world it leaves.\<close>

definition session_main :: "'w session_env \<Rightarrow> session_flags \<Rightarrow> 'w \<Rightarrow> (int \<times> 'w) option" where
  "session_main env fl w =
     Option.bind (chain_call env (so_hub fl) ''GET'' ''/status'' None \<lparr>ch_world = w, ch_step = 0\<rparr>) (\<lambda>(r, c).
       if decode_value dec_ready r \<noteq> Inr True then Some (1, ch_world c)
       else
         Option.bind (chain_call env (so_hub fl) ''POST'' ''/session'' (Some (session_caps fl)) c) (\<lambda>(r', c').
           case decode_value dec_session_id r' of
             Inl e \<Rightarrow> Some (1, ch_world c')
           | Inr sid \<Rightarrow> map_option (\<lambda>c''. (0, ch_world c'')) (session_rest env fl sid c')))"


section \<open>Properties\<close>

lemma b64_pad [simp]: "b64_val (CHR ''='') = None"
  by code_simp

lemma b64_quanta_base64: "b64_quanta (base64 s) = s"
proof (induction s rule: base64.induct)
  case (4 a b c r)
  then show ?case by (simp add: sextets)
qed (simp_all add: sextets)

lemma b64_decoded_base64: "b64_decoded (base64 s) = s"
proof -
  have "filter (\<lambda>c. c \<noteq> CHR 0x0A \<and> c \<noteq> CHR 0x0D) (base64 s) = base64 s"
    using base64_visible_bytes [of _ s] by (force simp: filter_id_conv byte_val_def)
  then show ?thesis by (simp add: b64_decoded_def b64_quanta_base64)
qed

text \<open>A world whose log grows by the requests that are made in it and by nothing else.\<close>

definition call_log :: "'w session_env \<Rightarrow> ('w \<Rightarrow> wire_request list) \<Rightarrow> bool" where
  "call_log env log \<longleftrightarrow>
     (\<forall>w q. log (snd (se_net env w q)) = log w @ [q]) \<and> (\<forall>w a. log (se_forward env w a) = log w)
     \<and> (\<forall>w a. log (se_dial env w a) = log w) \<and> (\<forall>w p b. log (se_write env w p b) = log w)
     \<and> (\<forall>w a. log (snd (se_start env w a)) = log w)"

definition chain_request :: "string \<Rightarrow> string \<Rightarrow> string \<Rightarrow> go_value option \<Rightarrow> wire_request" where
  "chain_request hub meth path body =
     \<lparr>wq_method = meth, wq_url = hub @ path, wq_headers = header_set ''Content-Type'' ''application/json'' [],
      wq_body = map_option marshal_value body\<rparr>"

text \<open>The bodies of the chain are objects, whose text is not empty.\<close>

definition object_body :: "go_value option \<Rightarrow> bool" where
  "object_body body \<longleftrightarrow> (case body of None \<Rightarrow> True | Some (VMap m) \<Rightarrow> True | _ \<Rightarrow> False)"

lemma object_body_simps [simp]: "object_body None" "object_body (Some (VMap m))" "object_body (Some (session_caps fl))"
  by (simp_all add: object_body_def session_caps_def)

lemma object_body_text: "object_body (Some v) \<Longrightarrow> marshal_value v \<noteq> []"
  by (cases v) (simp_all add: object_body_def marshal_value_def)

lemma chain_call_made:
  assumes "chain_call env hub meth path body c = Some (r, c')" and "meth \<noteq> []" and "object_body body"
  shows "r = chain_answer (fst (se_net env (ch_world c) (chain_request hub meth path body)))
    \<and> ch_world c' = snd (se_net env (ch_world c) (chain_request hub meth path body))"
  using assms object_body_text
  by (cases body) (auto simp: chain_call_def new_request_def chain_request_def split: if_splits option.splits prod.splits)

lemma chain_call_log:
  "call_log env log \<Longrightarrow> chain_call env hub meth path body c = Some (r, c') \<Longrightarrow> meth \<noteq> []
     \<Longrightarrow> object_body body \<Longrightarrow> log (ch_world c') = log (ch_world c) @ [chain_request hub meth path body]"
  using chain_call_made [of env hub meth path body c r c'] by (simp add: call_log_def)

definition mobile_request :: "string \<Rightarrow> string \<Rightarrow> string \<Rightarrow> go_value list \<Rightarrow> wire_request" where
  "mobile_request hub sid script args =
     chain_request hub ''POST'' (''/session/'' @ sid @ ''/execute/sync'')
       (Some (VMap [(''args'', VList args), (''script'', VStr (''mobile: '' @ script))]))"

lemma mobile_log:
  "call_log env log \<Longrightarrow> mobile env hub sid script args c = Some (r, c')
     \<Longrightarrow> log (ch_world c') = log (ch_world c)
          @ [mobile_request hub sid script (case args of Some a \<Rightarrow> [a] | None \<Rightarrow> [])]"
  unfolding mobile_def mobile_request_def by (rule chain_call_log) simp_all

definition control_requests :: "string \<Rightarrow> string \<Rightarrow> wire_request list" where
  "control_requests hub sid =
     [mobile_request hub sid ''deviceInfo'' [], mobile_request hub sid ''pressKey'' [VMap [(''keycode'', VNum ''3'')]],
      mobile_request hub sid ''swipeGesture'' [swipe_args]]"

lemma perceive_control_log:
  assumes "call_log env log" and "perceive_control env fl sid c = Some c'"
  shows "log (ch_world c') = log (ch_world c) @ control_requests (so_hub fl) sid"
  using assms(2)
  by (auto simp: perceive_control_def link_def control_requests_def bind_eq_Some_conv dest!: mobile_log [OF assms(1)])

lemma forward_stream_log: "call_log env log \<Longrightarrow> log (ch_world (forward_stream env fl c)) = log (ch_world c)"
  by (simp add: forward_stream_def call_log_def Let_def)

lemma take_shot_log:
  assumes "call_log env log" and "take_shot env fl sid c = Some c'"
  shows "log (ch_world c') = log (ch_world c)
    @ (if so_shot fl = [] then [] else [chain_request (so_hub fl) ''GET'' (''/session/'' @ sid @ ''/screenshot'') None])"
proof (cases "so_shot fl = []")
  case False
  have "log (se_write env w p b) = log w" for w p b using assms(1) by (simp add: call_log_def)
  moreover obtain v c1 where c: "chain_call env (so_hub fl) ''GET'' (''/session/'' @ sid @ ''/screenshot'') None c = Some (v, c1)"
    "c' = (case decode_value (\<lambda>j. dec_string j []) v of Inl e \<Rightarrow> c1
      | Inr b64 \<Rightarrow> c1\<lparr>ch_world := se_write env (ch_world c1) (so_shot fl) (b64_decoded b64)\<rparr>)"
    using False assms(2) by (auto simp: take_shot_def simp del: append_Cons append_Nil)
  ultimately show ?thesis
    using False chain_call_log [OF assms(1) c(1)] by (simp del: append_Cons append_Nil split: sum.split)
qed (use assms(2) in \<open>simp add: take_shot_def\<close>)

lemma inspect_log:
  assumes "call_log env log" and "inspect env fl sid c = (kept, c')"
  shows "log (ch_world c') = log (ch_world c) \<and> (so_keep fl \<longrightarrow> kept) \<and> (kept \<longrightarrow> so_keep fl \<or> so_inspector fl \<noteq> [])"
proof -
  have "log (snd (se_start env w a)) = log w" for w a using assms(1) by (simp add: call_log_def)
  then have "se_start env w a = (e, w') \<Longrightarrow> log w' = log w" for w a e w' by (metis snd_conv)
  with assms(2) show ?thesis
    by (auto simp: inspect_def launch_inspector_def Let_def split: if_splits sum.splits prod.splits option.splits)
qed

lemma finish_log:
  assumes "call_log env log" and "finish env fl sid (kept, c) = Some c'"
  shows "log (ch_world c') = log (ch_world c)
    @ (if kept then [] else [chain_request (so_hub fl) ''DELETE'' (''/session/'' @ sid) None])"
  using assms(2) by (auto simp: finish_def link_def split: if_splits dest!: chain_call_log [OF assms(1)])

text \<open>The requests on a session that was created.\<close>

definition session_requests_on :: "session_flags \<Rightarrow> string \<Rightarrow> bool \<Rightarrow> wire_request list" where
  "session_requests_on fl sid kept =
     control_requests (so_hub fl) sid
     @ (if so_shot fl = [] then [] else [chain_request (so_hub fl) ''GET'' (''/session/'' @ sid @ ''/screenshot'') None])
     @ (if kept then [] else [chain_request (so_hub fl) ''DELETE'' (''/session/'' @ sid) None])"

lemma session_rest_log:
  assumes "call_log env log" and "session_rest env fl sid c = Some c'"
  shows "\<exists>kept. log (ch_world c') = log (ch_world c) @ session_requests_on fl sid kept
    \<and> (so_keep fl \<longrightarrow> kept) \<and> (kept \<longrightarrow> so_keep fl \<or> so_inspector fl \<noteq> [])"
proof -
  obtain c1 c2 where r: "perceive_control env fl sid (forward_stream env fl c) = Some c1" "take_shot env fl sid c1 = Some c2"
    "finish env fl sid (inspect env fl sid c2) = Some c'"
    using assms(2) by (auto simp: session_rest_def bind_eq_Some_conv)
  obtain kept c3 where i: "inspect env fl sid c2 = (kept, c3)" by fastforce
  show ?thesis
    using perceive_control_log [OF assms(1) r(1)] forward_stream_log [OF assms(1), of fl c] take_shot_log [OF assms(1) r(2)]
      inspect_log [OF assms(1) i] finish_log [OF assms(1) r(3) [unfolded i]]
    by (intro exI [of _ kept]) (auto simp: session_requests_on_def)
qed

lemma session_run:
  assumes "call_log env log" and "session_main env fl w = Some (code, w')"
  defines "q0 \<equiv> chain_request (so_hub fl) ''GET'' ''/status'' None"
    and "q1 \<equiv> chain_request (so_hub fl) ''POST'' ''/session'' (Some (session_caps fl))"
  defines "created \<equiv> decode_value dec_session_id (chain_answer (fst (se_net env (snd (se_net env w q0)) q1)))"
  shows "code = 1 \<and> (log w' = log w @ [q0] \<or> log w' = log w @ [q0, q1] \<and> isl created)
    \<or> code = 0 \<and> (\<exists>sid kept. created = Inr sid \<and> log w' = log w @ [q0, q1] @ session_requests_on fl sid kept
        \<and> (so_keep fl \<longrightarrow> kept) \<and> (kept \<longrightarrow> so_keep fl \<or> so_inspector fl \<noteq> []))"
proof -
  obtain r c where a: "chain_call env (so_hub fl) ''GET'' ''/status'' None \<lparr>ch_world = w, ch_step = 0\<rparr> = Some (r, c)"
    and rest: "(if decode_value dec_ready r \<noteq> Inr True then Some (1, ch_world c)
       else Option.bind (chain_call env (so_hub fl) ''POST'' ''/session'' (Some (session_caps fl)) c) (\<lambda>(r', c').
           case decode_value dec_session_id r' of
             Inl e \<Rightarrow> Some (1, ch_world c')
           | Inr sid \<Rightarrow> map_option (\<lambda>c''. (0, ch_world c'')) (session_rest env fl sid c'))) = Some (code, w')"
    using assms(2) by (auto simp: session_main_def bind_eq_Some_conv)
  have w0: "ch_world c = snd (se_net env w q0)" and l0: "log (ch_world c) = log w @ [q0]"
    using chain_call_made [OF a] chain_call_log [OF assms(1) a] by (simp_all add: q0_def)
  show ?thesis
  proof (cases "decode_value dec_ready r = Inr True")
    case False
    then show ?thesis using rest l0 by simp
  next
    case True
    then obtain r' c' where b: "chain_call env (so_hub fl) ''POST'' ''/session'' (Some (session_caps fl)) c = Some (r', c')"
      and rest': "(case decode_value dec_session_id r' of
             Inl e \<Rightarrow> Some (1, ch_world c')
           | Inr sid \<Rightarrow> map_option (\<lambda>c''. (0, ch_world c'')) (session_rest env fl sid c')) = Some (code, w')"
      using rest by (auto simp: bind_eq_Some_conv)
    have c: "created = decode_value dec_session_id r'" and l1: "log (ch_world c') = log w @ [q0, q1]"
      using chain_call_made [OF b] chain_call_log [OF assms(1) b] w0 l0 by (simp_all add: created_def q1_def)
    show ?thesis
    proof (cases created)
      case (Inl e)
      then show ?thesis using rest' l1 c by simp
    next
      case (Inr sid)
      then obtain c'' where s: "session_rest env fl sid c' = Some c''" "code = 0" "w' = ch_world c''"
        using rest' c by auto
      then show ?thesis using session_rest_log [OF assms(1) s(1)] l1 Inr by auto
    qed
  qed
qed

text \<open>The panic: only a URL that does not parse ends a run without an exit status.\<close>

lemma chain_call_total:
  assumes "\<And>path. se_url_err env (hub @ path) = None" and "meth \<in> {''GET'', ''POST'', ''DELETE''}"
  obtains r c' where "chain_call env hub meth path body c = Some (r, c')"
proof -
  have "valid_method ''GET''" "valid_method ''POST''" "valid_method ''DELETE''" by code_simp+
  then have "chain_call env hub meth path body c \<noteq> None"
    using assms by (auto simp: chain_call_def new_request_def split: prod.splits)
  then show thesis using that by auto
qed

lemma session_rest_total:
  assumes "\<And>path. se_url_err env (so_hub fl @ path) = None"
  shows "session_rest env fl sid c \<noteq> None"
proof -
  have ok: "chain_call env (so_hub fl) m path body c0 \<noteq> None" if "m \<in> {''GET'', ''POST'', ''DELETE''}" for m path body c0
    using chain_call_total [of env "so_hub fl", OF assms that] by (metis option.distinct(1))
  have "mobile env (so_hub fl) sid script args c0 \<noteq> None" for script args c0
    unfolding mobile_def by (rule ok) simp
  then have p: "perceive_control env fl sid c0 \<noteq> None" for c0
    by (simp add: perceive_control_def link_def bind_eq_None_conv del: not_None_eq)
  have t: "take_shot env fl sid c0 \<noteq> None" for c0
    unfolding take_shot_def by (simp add: ok del: append_Cons append_Nil not_None_eq)
  have "finish env fl sid kc \<noteq> None" for kc
    unfolding finish_def link_def by (simp add: ok del: append_Cons append_Nil not_None_eq)
  with p t show ?thesis by (simp add: session_rest_def bind_eq_None_conv del: not_None_eq)
qed

lemma session_main_panic:
  assumes "session_main env fl w = None"
  shows "\<exists>path. se_url_err env (so_hub fl @ path) \<noteq> None"
proof (rule ccontr)
  assume "\<nexists>path. se_url_err env (so_hub fl @ path) \<noteq> None"
  then have ok: "se_url_err env (so_hub fl @ path) = None" for path by blast
  obtain r c where a: "chain_call env (so_hub fl) ''GET'' ''/status'' None \<lparr>ch_world = w, ch_step = 0\<rparr> = Some (r, c)"
    using chain_call_total [of env "so_hub fl" "''GET''", OF ok] by blast
  obtain r' c' where b: "chain_call env (so_hub fl) ''POST'' ''/session'' (Some (session_caps fl)) c = Some (r', c')"
    using chain_call_total [of env "so_hub fl" "''POST''", OF ok] by blast
  show False
    using assms session_rest_total [of env fl, OF ok]
    by (simp add: session_main_def a b del: not_None_eq split: if_splits sum.splits)
qed


lemma valid_utf8_ascii: "list_all (\<lambda>c. byte_val c < 128) s \<Longrightarrow> valid_utf8 s"
  by (induction s) simp_all

text \<open>The screenshot arrives: the file holds the bytes that the server encoded.\<close>

theorem shot_written:
  assumes "so_shot fl \<noteq> []"
    and "chain_call env (so_hub fl) ''GET'' (''/session/'' @ sid @ ''/screenshot'') None c = Some (Inr (RawDoc (jstring (base64 png))), c')"
  shows "take_shot env fl sid c = Some (c'\<lparr>ch_world := se_write env (ch_world c') (so_shot fl) png\<rparr>)"
proof -
  have "valid_utf8 (base64 png)" using base64_visible_bytes [of _ png] by (intro valid_utf8_ascii) (auto simp: list_all_iff)
  then show ?thesis
    using assms by (simp add: take_shot_def decode_value_def b64_decoded_base64)
qed

text \<open>A session answer without an id is taken for the empty id, on which the chain then goes on.\<close>

theorem missing_id_empty: "decode_value dec_session_id (Inr (RawDoc (JObj []))) = Inr []"
  by code_simp

definition demo_answer :: "string \<Rightarrow> json" where
  "demo_answer url =
     (if url = ''h/status'' then JObj [(''ready'', JBool True)]
      else if url = ''h/session'' then JObj [(''sessionId'', JStr ''s1'')]
      else if url = ''h/session/s1/screenshot'' then jstring (base64 ''png'') else JNull)"

definition demo_session :: "wire_request list session_env" where
  "demo_session = \<lparr>se_url_err = (\<lambda>u. None),
     se_net = (\<lambda>log q. (Inr (200, jprint (JObj [(''value'', demo_answer (wq_url q))])), log @ [q])),
     se_forward = (\<lambda>log a. log), se_dial = (\<lambda>log a. log), se_write = (\<lambda>log p b. log),
     se_start = (\<lambda>log a. (None, log)), se_host_port = (\<lambda>u. Inr (u, ''4723''))\<rparr>"

definition demo_flags :: session_flags where
  "demo_flags = \<lparr>so_hub = ''h'', so_udid = ''u'', so_shot = ''s.png'', so_inspector = [], so_keep = False, so_mjpeg = 0\<rparr>"

lemma demo_call:
  "chain_call demo_session ''h'' ''GET'' path None c
    = Some (chain_answer (Inr (200, jprint (JObj [(''value'', demo_answer (''h'' @ path))]))),
        \<lparr>ch_world = ch_world c @ [chain_request ''h'' ''GET'' path None], ch_step = ch_step c + 1\<rparr>)"
proof -
  have "valid_method ''GET''" by code_simp
  then show ?thesis by (simp add: chain_call_def new_request_def demo_session_def chain_request_def)
qed


theorem shot_written_witness:
  "take_shot demo_session demo_flags ''s1'' \<lparr>ch_world = [], ch_step = 0\<rparr>
     = Some \<lparr>ch_world = [chain_request ''h'' ''GET'' ''/session/s1/screenshot'' None], ch_step = 1\<rparr>"
proof -
  have "''h/session/s1/screenshot'' \<noteq> ''h/status''" "''h/session/s1/screenshot'' \<noteq> ''h/session''" by code_simp+
  moreover have "chain_answer (Inr (200, jprint (JObj [(''value'', jstring (base64 ''png''))])))
      = Inr (RawDoc (jstring (base64 ''png'')))" by code_simp
  ultimately have c: "chain_call demo_session (so_hub demo_flags) ''GET'' (''/session/'' @ ''s1'' @ ''/screenshot'') None
      \<lparr>ch_world = [], ch_step = 0\<rparr>
    = Some (Inr (RawDoc (jstring (base64 ''png''))),
        \<lparr>ch_world = [chain_request ''h'' ''GET'' ''/session/s1/screenshot'' None], ch_step = 1\<rparr>)"
    by (simp add: demo_flags_def demo_call demo_answer_def del: base64.simps)
  have w: "se_write demo_session log p b = log" for log p b by (simp add: demo_session_def)
  have "so_shot demo_flags \<noteq> []" by (simp add: demo_flags_def)
  from shot_written [OF this c] show ?thesis by (simp only: w chain.simps)
qed

end
