(* ===== verification/Host.thy ===== *)
theory Host
  imports Json_Struct "HOL-Library.Word"
begin

text \<open>
  \<open>internal/host/host.go\<close>: the resources of the machine. What the runtime reports and what \<open>/proc/loadavg\<close>
  holds are arguments; \<open>num\<close> is \<open>ParseFloat\<close> followed by the text that \<open>Marshal\<close> writes of its value, \<open>None\<close>
  for an infinity or a NaN, which \<open>Marshal\<close> refuses. \<open>host_body\<close> is what \<open>cmd/wire\<close> answers on \<open>/host\<close>.
\<close>

section \<open>Fields\<close>

text \<open>\<open>strings.Fields\<close>: the words between white space; \<open>next_word\<close> ends where white space begins.\<close>

definition at_space :: "string \<Rightarrow> bool" where
  "at_space s \<longleftrightarrow> list_ex (\<lambda>p. has_prefix s p) space_seqs"

fun next_word :: "string \<Rightarrow> string \<times> string" where
  "next_word [] = ([], [])"
| "next_word (c # s) = (if at_space (c # s) then ([], c # s) else (case next_word s of (a, b) \<Rightarrow> (c # a, b)))"

lemma next_word_shrinks: "length (snd (next_word s)) \<le> length s"
  by (induction s) (auto split: prod.splits)

lemma trim_left_shrinks: "length (trim_left_any s ps) \<le> length s"
proof (induction s ps rule: trim_left_any.induct)
  case (1 s ps)
  then show ?case by (subst trim_left_any.simps) (fastforce split: option.splits)
qed

function go_fields :: "string \<Rightarrow> string list" where
  "go_fields s =
     (case trim_left_any s space_seqs of
        [] \<Rightarrow> []
      | c # t \<Rightarrow> (case next_word t of (a, b) \<Rightarrow> (c # a) # go_fields b))"
  by pat_completeness auto
termination
proof (relation "measure length")
  fix s c t a b
  assume "trim_left_any s space_seqs = c # t" and "(a, b) = next_word t"
  then show "(b, s) \<in> measure length"
    using trim_left_shrinks [of s space_seqs] next_word_shrinks [of t] by (metis in_measure le_imp_less_Suc length_Cons
        less_le_trans snd_conv)
qed simp

declare go_fields.simps [simp del]

section \<open>The snapshot\<close>

record host_stats =
  ht_os :: string
  ht_arch :: string
  ht_cpus :: int
  ht_goroutines :: int
  ht_alloc :: "64 word"
  ht_sys :: "64 word"

definition mebibyte :: "64 word" where
  "mebibyte = push_bit 20 1"

text \<open>\<open>loadavg\<close>: \<open>[]\<close> is its nil.\<close>

definition loadavg :: "string option \<Rightarrow> string list" where
  "loadavg file_text =
     (case file_text of
        None \<Rightarrow> []
      | Some b \<Rightarrow> (let f = go_fields b in if length f < 3 then [] else take 3 f))"

definition host_json :: "host_stats \<Rightarrow> string list \<Rightarrow> json" where
  "host_json h loads =
     JObj (str_mem ''os'' (ht_os h) @ str_mem ''arch'' (ht_arch h) @ int_mem ''num_cpu'' (ht_cpus h)
       @ int_mem ''goroutines'' (ht_goroutines h) @ int_mem ''alloc_mb'' (uint (ht_alloc h div mebibyte))
       @ int_mem ''sys_mb'' (uint (ht_sys h div mebibyte))
       @ (if loads = [] then [] else [(''loadavg'', JArr (map JNum loads))]))"

definition host_body :: "(string \<Rightarrow> string option) \<Rightarrow> host_stats \<Rightarrow> string option \<Rightarrow> string" where
  "host_body num h file_text =
     (let nums = map num (loadavg file_text)
      in if None \<in> set nums then [] else jprint (host_json h (map the nums)))"

section \<open>Properties\<close>

lemma mebibyte_value: "unat mebibyte = 2 ^ 20"
  by (simp add: mebibyte_def push_bit_eq_mult)

text \<open>
  The report on the machine is one JSON object whenever the loads are numbers: it parses back, it has the
  loads of \<open>/proc/loadavg\<close>, exactly three, or no such member at all when that cannot be read or is too short,
  and the sizes are whole mebibytes rounded down.
\<close>

lemma host_report:
  assumes "\<And>f t. num f = Some t \<Longrightarrow> num_ok t" and "\<forall>f \<in> set (loadavg file_text). num f \<noteq> None"
  shows "parse_json (host_body num h file_text) = Some (host_json h (map (the \<circ> num) (loadavg file_text)))
    \<and> length (loadavg file_text) \<in> {0, 3}
    \<and> (let mb = unat (ht_alloc h div mebibyte) in mb * 2 ^ 20 \<le> unat (ht_alloc h) \<and> unat (ht_alloc h) < (mb + 1) * 2 ^ 20)"
proof -
  let ?loads = "map (the \<circ> num) (loadavg file_text)"
  have ok: "list_all num_ok ?loads" using assms by (fastforce simp: list_all_iff)
  have n: "plain ''os''" "plain ''arch''" "plain ''num_cpu''" "plain ''goroutines''" "plain ''alloc_mb''" "plain ''sys_mb''"
    "raw_ok ''loadavg''" by code_simp+
  have "jwf (host_json h ?loads) \<and> jdepth (host_json h ?loads) \<le> Suc 1"
    unfolding host_json_def
    using n ok
    by (intro jobj_wf)
      (auto simp: str_mem_def int_mem_def list_all_iff image_image image_constant_conv simp del: raw_ok.simps split: if_splits)
  then have "parse_json (jprint (host_json h ?loads)) = Some (host_json h ?loads)"
    by (intro parse_jprint) (simp_all add: max_depth_def)
  moreover have "None \<notin> set (map num (loadavg file_text))" using assms(2) by auto
  ultimately have "parse_json (host_body num h file_text) = Some (host_json h ?loads)"
    unfolding host_body_def Let_def by simp
  moreover have "length (loadavg file_text) \<in> {0, 3}" by (auto simp: loadavg_def Let_def split: option.splits)
  moreover have "unat (ht_alloc h div mebibyte) * 2 ^ 20 \<le> unat (ht_alloc h)
      \<and> unat (ht_alloc h) < (unat (ht_alloc h div mebibyte) + 1) * 2 ^ 20"
    unfolding unat_div_distrib mebibyte_value by simp
  ultimately show ?thesis by (simp add: Let_def)
qed

end
