(* ===== verification/Channel.thy ===== *)
theory Channel
  imports Json_Struct "HOL-Library.AList"
begin

text \<open>
  \<open>cmd/channel/main.go\<close>: the broker that holds one channel. The state \<open>hub\<close> has the two maps
  of the source, \<open>hb_pending\<close> and \<open>hb_subs\<close>, whose channels are owned by the command and
  subscriber requests \<open>hb_cmds\<close> and \<open>hb_feeds\<close> (each a goroutine of the HTTP server with its
  program point). \<open>route_frame\<close> is one turn of \<open>read\<close>, \<open>shut\<close> is \<open>shutdown\<close>, and \<open>hub_step\<close>
  interleaves the reader with the steps of \<open>handleCommand\<close>, \<open>handleEvents\<close> and \<open>handleAwait\<close>.
  A send that would block or panic is \<open>None\<close>: the theorems show that it never happens.
  Timeouts and disconnecting clients are steps that may be taken at any time.
\<close>

section \<open>Go channels\<close>

record 'a chan =
  ch_cap :: nat
  ch_buf :: "'a list"
  ch_closed :: bool

definition make_chan :: "nat \<Rightarrow> 'a chan" where
  "make_chan n = \<lparr>ch_cap = n, ch_buf = [], ch_closed = False\<rparr>"

text \<open>A send, \<open>None\<close> if it panics or blocks; a send in a \<open>select\<close> with a default; a close.\<close>

definition chan_send :: "'a \<Rightarrow> 'a chan \<Rightarrow> 'a chan option" where
  "chan_send x c =
     (if ch_closed c \<or> ch_cap c \<le> length (ch_buf c) then None else Some (c\<lparr>ch_buf := ch_buf c @ [x]\<rparr>))"

definition chan_offer :: "'a \<Rightarrow> 'a chan \<Rightarrow> 'a chan option" where
  "chan_offer x c =
     (if ch_closed c then None
      else Some (if ch_cap c \<le> length (ch_buf c) then c else c\<lparr>ch_buf := ch_buf c @ [x]\<rparr>))"

definition chan_close :: "'a chan \<Rightarrow> 'a chan option" where
  "chan_close c = (if ch_closed c then None else Some (c\<lparr>ch_closed := True\<rparr>))"

section \<open>The frames\<close>

text \<open>
  The probe of a frame's id: \<open>json.Unmarshal\<close> into a struct with one field \<open>ID *int\<close>, its error
  ignored. A member of the wrong type, or an integer out of range, is an error that has already
  set the pointer: it then points at what it had, or at 0.
\<close>

definition probe_member :: "int option \<Rightarrow> string \<times> json \<Rightarrow> int option" where
  "probe_member acc kv =
     (if field_of [''id''] (unquote_text (fst kv)) = None then acc
      else
        (case snd kv of
           JNull \<Rightarrow> None
         | JNum l \<Rightarrow>
             (case parse_int64 l of Some i \<Rightarrow> Some i | None \<Rightarrow> Some (case acc of Some i \<Rightarrow> i | None \<Rightarrow> 0))
         | _ \<Rightarrow> Some (case acc of Some i \<Rightarrow> i | None \<Rightarrow> 0)))"

definition probe_id :: "string \<Rightarrow> int option" where
  "probe_id frame =
     (case parse_json frame of
        Some (JObj ms) \<Rightarrow> foldl probe_member None ms
      | _ \<Rightarrow> None)"

definition raw_json :: "raw_message \<Rightarrow> json option" where
  "raw_json r = (case r of RawDoc j \<Rightarrow> Some (html_esc j) | RawNone \<Rightarrow> Some JNull | RawBad \<Rightarrow> None)"

text \<open>\<open>json.Marshal\<close> writes the keys of a map in order; on an error the frame is empty.\<close>

definition wire_cmd :: "int \<Rightarrow> string \<Rightarrow> raw_message \<Rightarrow> string \<Rightarrow> string" where
  "wire_cmd i meth params sid =
     (case raw_json params of
        None \<Rightarrow> []
      | Some p \<Rightarrow> jprint (JObj ([(''id'', jint i), (''method'', jstring meth), (''params'', p)]
          @ (if sid \<noteq> [] then [(''sessionId'', jstring sid)] else []))))"

definition echo_frame :: "int \<Rightarrow> string \<Rightarrow> string \<Rightarrow> raw_message \<Rightarrow> string \<Rightarrow> string option" where
  "echo_frame i origin meth params sid =
     map_option (\<lambda>p. jprint (JObj ([(''__cmd'', JBool True), (''id'', jint i), (''method'', jstring meth),
         (''origin'', jstring (if origin = [] then ''wire'' else origin)), (''params'', p)]
         @ (if sid \<noteq> [] then [(''sessionId'', jstring sid)] else [])))) (raw_json params)"

section \<open>The body of a command request\<close>

record command_in =
  ci_method :: string
  ci_params :: raw_message
  ci_session :: string

definition set_command_field :: "string \<Rightarrow> json \<Rightarrow> command_in \<Rightarrow> command_in option" where
  "set_command_field n j c =
     (if n = ''method'' then map_option (\<lambda>s. c\<lparr>ci_method := s\<rparr>) (dec_string j (ci_method c))
      else if n = ''params'' then Some (c\<lparr>ci_params := RawDoc j\<rparr>)
      else map_option (\<lambda>s. c\<lparr>ci_session := s\<rparr>) (dec_string j (ci_session c)))"

text \<open>\<open>Decoder.Decode\<close>: the first value of the body.\<close>

definition decode_first :: "string \<Rightarrow> json option" where
  "decode_first body = map_option fst (pval (2 * length body + 2) max_depth body)"

definition decode_command :: "string \<Rightarrow> command_in option" where
  "decode_command body =
     (case Option.bind (decode_first body)
        (\<lambda>j. decode_struct set_command_field [''method'', ''params'', ''sessionId''] j
           \<lparr>ci_method = [], ci_params = RawNone, ci_session = []\<rparr>) of
        None \<Rightarrow> None
      | Some c \<Rightarrow>
          if ci_method c = [] then None
          else Some (if ci_params c = RawNone then c\<lparr>ci_params := RawDoc (JObj [])\<rparr> else c))"

section \<open>The hub\<close>

datatype http_reply = Reply int string

definition http_error :: "int \<Rightarrow> string \<Rightarrow> http_reply" where
  "http_error code text = Reply code (text @ [CHR 0x0A])"

definition error_body :: "string \<Rightarrow> string" where
  "error_body text = [CHR ''{'', CHR 0x22] @ ''error'' @ [CHR 0x22, CHR '':'', CHR 0x22] @ text @ [CHR 0x22, CHR ''}'']"

datatype cmd_phase = Registered | Written | Waiting | Answered http_reply

record command =
  cm_in :: command_in
  cm_origin :: string
  cm_id :: int
  cm_chan :: "string chan"
  cm_phase :: cmd_phase

datatype feed_kind = Events | Await string

record feed =
  fd_kind :: feed_kind
  fd_id :: int
  fd_chan :: "string chan"
  fd_out :: "string list"
  fd_done :: "http_reply option"
  fd_left :: bool

record hub =
  hb_pending :: "(int \<times> nat) list"
  hb_subs :: "(int \<times> nat) list"
  hb_cmds :: "command list"
  hb_feeds :: "feed list"
  hb_next_cmd :: int
  hb_next_sub :: int
  hb_cmd_count :: int
  hb_evt_count :: int
  hb_last_frame :: int
  hb_sent :: "string list"
  hb_down :: bool

definition new_hub :: hub where
  "new_hub = \<lparr>hb_pending = [], hb_subs = [], hb_cmds = [], hb_feeds = [], hb_next_cmd = 0,
     hb_next_sub = 0, hb_cmd_count = 0, hb_evt_count = 0, hb_last_frame = 0, hb_sent = [],
     hb_down = False\<rparr>"

subsection \<open>The reader\<close>

fun offer_all :: "string \<Rightarrow> nat list \<Rightarrow> feed list \<Rightarrow> feed list option" where
  "offer_all raw [] fs = Some fs"
| "offer_all raw (k # ks) fs =
     (case chan_offer raw (fd_chan (fs ! k)) of
        None \<Rightarrow> None
      | Some c \<Rightarrow> offer_all raw ks (fs[k := (fs ! k)\<lparr>fd_chan := c\<rparr>]))"

definition fanout :: "string \<Rightarrow> hub \<Rightarrow> hub option" where
  "fanout raw s = map_option (\<lambda>fs. s\<lparr>hb_feeds := fs\<rparr>) (offer_all raw (map snd (hb_subs s)) (hb_feeds s))"

definition route_frame :: "int \<Rightarrow> string \<Rightarrow> hub \<Rightarrow> hub option" where
  "route_frame now frame s =
     (let s1 = s\<lparr>hb_last_frame := now\<rparr>
      in case probe_id frame of
           Some i \<Rightarrow>
             (case map_of (hb_pending s1) i of
                None \<Rightarrow> Some s1
              | Some k \<Rightarrow>
                  map_option (\<lambda>c. s1\<lparr>hb_pending := AList.delete i (hb_pending s1),
                      hb_cmds := (hb_cmds s1)[k := (hb_cmds s1 ! k)\<lparr>cm_chan := c\<rparr>]\<rparr>)
                    (chan_send frame (cm_chan (hb_cmds s1 ! k))))
         | None \<Rightarrow> fanout frame (s1\<lparr>hb_evt_count := wrap64 (hb_evt_count s1 + 1)\<rparr>))"

fun close_cmds :: "nat list \<Rightarrow> command list \<Rightarrow> command list option" where
  "close_cmds [] cs = Some cs"
| "close_cmds (k # ks) cs =
     (case chan_close (cm_chan (cs ! k)) of
        None \<Rightarrow> None
      | Some c \<Rightarrow> close_cmds ks (cs[k := (cs ! k)\<lparr>cm_chan := c\<rparr>]))"

fun close_feeds :: "nat list \<Rightarrow> feed list \<Rightarrow> feed list option" where
  "close_feeds [] fs = Some fs"
| "close_feeds (k # ks) fs =
     (case chan_close (fd_chan (fs ! k)) of
        None \<Rightarrow> None
      | Some c \<Rightarrow> close_feeds ks (fs[k := (fs ! k)\<lparr>fd_chan := c\<rparr>]))"

definition shut :: "hub \<Rightarrow> hub option" where
  "shut s =
     (case (close_cmds (map snd (hb_pending s)) (hb_cmds s), close_feeds (map snd (hb_subs s)) (hb_feeds s)) of
        (Some cs, Some fs) \<Rightarrow>
          Some (s\<lparr>hb_pending := [], hb_subs := [], hb_cmds := cs, hb_feeds := fs, hb_down := True\<rparr>)
      | _ \<Rightarrow> None)"

subsection \<open>Commands\<close>

definition register_cmd :: "command_in \<Rightarrow> string \<Rightarrow> hub \<Rightarrow> hub" where
  "register_cmd inp origin s =
     (let i = wrap64 (hb_next_cmd s + 1)
      in s\<lparr>hb_next_cmd := i, hb_pending := AList.update i (length (hb_cmds s)) (hb_pending s),
           hb_cmds := hb_cmds s @ [\<lparr>cm_in = inp, cm_origin = origin, cm_id = i, cm_chan = make_chan 1,
             cm_phase = Registered\<rparr>]\<rparr>)"

definition set_cmd_phase :: "nat \<Rightarrow> cmd_phase \<Rightarrow> hub \<Rightarrow> hub" where
  "set_cmd_phase k ph s = s\<lparr>hb_cmds := (hb_cmds s)[k := (hb_cmds s ! k)\<lparr>cm_phase := ph\<rparr>]\<rparr>"

definition drop_pending :: "int \<Rightarrow> hub \<Rightarrow> hub" where
  "drop_pending i s = s\<lparr>hb_pending := AList.delete i (hb_pending s)\<rparr>"

text \<open>The write on the held socket, with its error if it fails.\<close>

definition write_cmd :: "nat \<Rightarrow> string option \<Rightarrow> hub \<Rightarrow> hub" where
  "write_cmd k err s =
     (let c = hb_cmds s ! k in
      case err of
        Some e \<Rightarrow>
          set_cmd_phase k (Answered (http_error 502 (error_body (''channel write failed: '' @ e))))
            (drop_pending (cm_id c) s)
      | None \<Rightarrow>
          set_cmd_phase k Written
            (s\<lparr>hb_sent := hb_sent s @ [wire_cmd (cm_id c) (ci_method (cm_in c)) (ci_params (cm_in c)) (ci_session (cm_in c))]\<rparr>))"

definition echo_cmd :: "nat \<Rightarrow> hub \<Rightarrow> hub option" where
  "echo_cmd k s =
     (let c = hb_cmds s ! k; s1 = s\<lparr>hb_cmd_count := wrap64 (hb_cmd_count s + 1)\<rparr>
      in map_option (set_cmd_phase k Waiting)
           (case echo_frame (cm_id c) (cm_origin c) (ci_method (cm_in c)) (ci_params (cm_in c)) (ci_session (cm_in c)) of
              None \<Rightarrow> Some s1
            | Some raw \<Rightarrow> fanout raw s1))"

text \<open>The receive of a waiting command: \<open>None\<close> while there is nothing to receive.\<close>

definition receive_cmd :: "nat \<Rightarrow> hub \<Rightarrow> hub option" where
  "receive_cmd k s =
     (let c = hb_cmds s ! k in
      case ch_buf (cm_chan c) of
        x # r \<Rightarrow>
          Some (s\<lparr>hb_cmds := (hb_cmds s)[k := c\<lparr>cm_chan := (cm_chan c)\<lparr>ch_buf := r\<rparr>, cm_phase := Answered (Reply 200 x)\<rparr>]\<rparr>)
      | [] \<Rightarrow>
          if ch_closed (cm_chan c)
          then Some (set_cmd_phase k (Answered (http_error 502 (error_body ''channel closed before response''))) s)
          else None)"

definition timeout_cmd :: "nat \<Rightarrow> hub \<Rightarrow> hub" where
  "timeout_cmd k s =
     set_cmd_phase k (Answered (http_error 504 (error_body ''timeout waiting for response'')))
       (drop_pending (cm_id (hb_cmds s ! k)) s)"

subsection \<open>Subscribers\<close>

definition subscribe :: "feed_kind \<Rightarrow> hub \<Rightarrow> hub" where
  "subscribe kind s =
     (let i = wrap64 (hb_next_sub s + 1)
      in s\<lparr>hb_next_sub := i, hb_subs := AList.update i (length (hb_feeds s)) (hb_subs s),
           hb_feeds := hb_feeds s @ [\<lparr>fd_kind = kind, fd_id = i, fd_chan = make_chan 256,
             fd_out = (case kind of Events \<Rightarrow> ['': subscribed '' @ dec_int i @ [CHR 0x0A, CHR 0x0A]] | Await c \<Rightarrow> []),
             fd_done = None, fd_left = False\<rparr>]\<rparr>)"

text \<open>A handler that returns takes its channel out of the map, whatever the reason.\<close>

definition leave_feed :: "nat \<Rightarrow> http_reply option \<Rightarrow> hub \<Rightarrow> hub" where
  "leave_feed k reply s =
     s\<lparr>hb_subs := AList.delete (fd_id (hb_feeds s ! k)) (hb_subs s),
       hb_feeds := (hb_feeds s)[k := (hb_feeds s ! k)\<lparr>fd_done := reply, fd_left := True\<rparr>]\<rparr>"

definition sse_event :: "string \<Rightarrow> string" where
  "sse_event ev = ''data: '' @ ev @ [CHR 0x0A, CHR 0x0A]"

definition receive_feed :: "nat \<Rightarrow> hub \<Rightarrow> hub option" where
  "receive_feed k s =
     (let f = hb_feeds s ! k in
      case ch_buf (fd_chan f) of
        x # r \<Rightarrow>
          (let s1 = s\<lparr>hb_feeds := (hb_feeds s)[k := f\<lparr>fd_chan := (fd_chan f)\<lparr>ch_buf := r\<rparr>\<rparr>]\<rparr> in
           case fd_kind f of
             Events \<Rightarrow>
               Some (s1\<lparr>hb_feeds := (hb_feeds s1)[k := (hb_feeds s1 ! k)\<lparr>fd_out := fd_out f @ [sse_event x]\<rparr>]\<rparr>)
           | Await sub \<Rightarrow>
               if sub = [] \<or> contains x sub then Some (leave_feed k (Some (Reply 200 x)) s1) else Some s1)
      | [] \<Rightarrow>
          if ch_closed (fd_chan f)
          then Some (leave_feed k (case fd_kind f of Events \<Rightarrow> None
              | Await sub \<Rightarrow> Some (http_error 502 (error_body ''channel closed''))) s)
          else None)"

definition timeout_reply :: http_reply where
  "timeout_reply = http_error 504 (error_body ''timeout waiting for event'')"

section \<open>The steps\<close>

definition cmd_at :: "hub \<Rightarrow> nat \<Rightarrow> cmd_phase \<Rightarrow> bool" where
  "cmd_at s k ph \<longleftrightarrow> k < length (hb_cmds s) \<and> cm_phase (hb_cmds s ! k) = ph"

definition feed_at :: "hub \<Rightarrow> nat \<Rightarrow> bool" where
  "feed_at s k \<longleftrightarrow> k < length (hb_feeds s) \<and> \<not> fd_left (hb_feeds s ! k)"

inductive hub_step :: "hub \<Rightarrow> hub \<Rightarrow> bool" where
  hub_frame: "\<not> hb_down s \<Longrightarrow> route_frame now frame s = Some t \<Longrightarrow> hub_step s t"
| hub_closed: "\<not> hb_down s \<Longrightarrow> shut s = Some t \<Longrightarrow> hub_step s t"
| hub_command: "decode_command body = Some inp \<Longrightarrow> hub_step s (register_cmd inp origin s)"
| hub_write: "cmd_at s k Registered \<Longrightarrow> hub_step s (write_cmd k err s)"
| hub_echo: "cmd_at s k Written \<Longrightarrow> echo_cmd k s = Some t \<Longrightarrow> hub_step s t"
| hub_receive: "cmd_at s k Waiting \<Longrightarrow> receive_cmd k s = Some t \<Longrightarrow> hub_step s t"
| hub_timeout: "cmd_at s k Waiting \<Longrightarrow> hub_step s (timeout_cmd k s)"
| hub_subscribe: "hub_step s (subscribe kind s)"
| hub_feed: "feed_at s k \<Longrightarrow> receive_feed k s = Some t \<Longrightarrow> hub_step s t"
| hub_leave: "feed_at s k \<Longrightarrow> fd_kind (hb_feeds s ! k) = Await sub \<or> reply = None
    \<Longrightarrow> reply = None \<or> reply = Some timeout_reply \<Longrightarrow> hub_step s (leave_feed k reply s)"

inductive_cases hub_stepE: "hub_step s t"


section \<open>The invariant\<close>

text \<open>
  The two maps with the requests they point at, apart: \<open>cmds_good\<close> and \<open>feeds_good\<close> say that ids
  count the requests, that what a map points at is an open channel (an empty one for a
  command), and that a request which is in no map any more has its answer or a closed channel.
\<close>

definition answered :: "command \<Rightarrow> bool" where
  "answered c \<longleftrightarrow> (case cm_phase c of Answered r \<Rightarrow> True | _ \<Rightarrow> False)"

definition cmd_ok :: "nat \<Rightarrow> command \<Rightarrow> bool" where
  "cmd_ok k c \<longleftrightarrow>
     cm_id c = int k + 1 \<and> ch_cap (cm_chan c) = 1 \<and> length (ch_buf (cm_chan c)) \<le> 1
     \<and> (\<forall>x \<in> set (ch_buf (cm_chan c)). probe_id x = Some (cm_id c))
     \<and> (\<forall>x. cm_phase c = Answered (Reply 200 x) \<longrightarrow> probe_id x = Some (cm_id c))"

definition cmd_open :: "command \<Rightarrow> bool" where
  "cmd_open c \<longleftrightarrow> \<not> ch_closed (cm_chan c) \<and> ch_buf (cm_chan c) = [] \<and> \<not> answered c"

definition cmd_settled :: "command \<Rightarrow> bool" where
  "cmd_settled c \<longleftrightarrow> ch_closed (cm_chan c) \<or> ch_buf (cm_chan c) \<noteq> [] \<or> answered c"

definition cmds_good :: "(int \<times> nat) list \<Rightarrow> command list \<Rightarrow> bool" where
  "cmds_good pend cmds \<longleftrightarrow>
     distinct (map fst pend)
     \<and> (\<forall>k < length cmds. cmd_ok k (cmds ! k) \<and> ((int k + 1, k) \<in> set pend \<or> cmd_settled (cmds ! k)))
     \<and> (\<forall>e \<in> set pend. snd e < length cmds \<and> fst e = int (snd e) + 1 \<and> cmd_open (cmds ! snd e))"

definition feed_open :: "feed \<Rightarrow> bool" where
  "feed_open f \<longleftrightarrow> \<not> ch_closed (fd_chan f) \<and> \<not> fd_left f"

definition feed_ok :: "nat \<Rightarrow> feed \<Rightarrow> bool" where
  "feed_ok k f \<longleftrightarrow> fd_id f = int k + 1 \<and> ch_cap (fd_chan f) = 256 \<and> length (ch_buf (fd_chan f)) \<le> 256"

definition feeds_good :: "(int \<times> nat) list \<Rightarrow> feed list \<Rightarrow> bool" where
  "feeds_good subs feeds \<longleftrightarrow>
     distinct (map fst subs)
     \<and> (\<forall>k < length feeds. feed_ok k (feeds ! k) \<and> ((int k + 1, k) \<in> set subs \<or> \<not> feed_open (feeds ! k)))
     \<and> (\<forall>e \<in> set subs. snd e < length feeds \<and> fst e = int (snd e) + 1 \<and> feed_open (feeds ! snd e))"

lemma delete_in [simp]: "e \<in> set (AList.delete i m) \<longleftrightarrow> e \<in> set m \<and> fst e \<noteq> i"
  by (auto simp: AList.delete_eq)

lemma delete_fresh: "i \<notin> fst ` set m \<Longrightarrow> AList.delete i m = m"
  by (induction m) auto

lemma update_fresh: "i \<notin> fst ` set m \<Longrightarrow> AList.update i k m = m @ [(i, k)]"
  by (induction m) auto

lemma cmds_pend:
  assumes "cmds_good pend cmds" and "(i, k) \<in> set pend"
  shows "k < length cmds \<and> i = int k + 1 \<and> cmd_open (cmds ! k) \<and> cmd_ok k (cmds ! k)"
  using assms by (fastforce simp: cmds_good_def)

lemma cmds_update:
  assumes good: "cmds_good pend cmds" and k: "k < length cmds" and ok: "cmd_ok k c"
    and pend: "pend' = pend \<and> cmd_open c = cmd_open (cmds ! k) \<or> pend' = AList.delete (int k + 1) pend \<and> cmd_settled c"
  shows "cmds_good pend' (cmds[k := c])"
proof -
  have settled: "\<not> cmd_open x \<longleftrightarrow> cmd_settled x" for x by (auto simp: cmd_open_def cmd_settled_def)
  have "distinct (map fst pend')" using good pend by (auto simp: cmds_good_def AList.distinct_delete)
  moreover have "cmd_ok j (cmds[k := c] ! j) \<and> ((int j + 1, j) \<in> set pend' \<or> cmd_settled (cmds[k := c] ! j))"
    if "j < length cmds" for j
  proof (cases "j = k")
    case True
    have "(int k + 1, k) \<in> set pend \<or> cmd_settled (cmds ! k)" using good k by (auto simp: cmds_good_def)
    then show ?thesis using True ok pend k by (auto simp flip: settled)
  next
    case False
    then show ?thesis using good pend that by (auto simp: cmds_good_def)
  qed
  moreover have "snd e < length cmds \<and> fst e = int (snd e) + 1 \<and> cmd_open (cmds[k := c] ! snd e)"
    if "e \<in> set pend'" for e
    using cmds_pend [OF good, of "fst e" "snd e"] that pend k by (cases "snd e = k") auto
  ultimately show ?thesis by (simp add: cmds_good_def)
qed

lemma cmds_append:
  assumes "cmds_good pend cmds" and "cmd_ok (length cmds) c" and "cmd_open c"
  shows "cmds_good (AList.update (int (length cmds) + 1) (length cmds) pend) (cmds @ [c])"
proof -
  have fresh: "int (length cmds) + 1 \<notin> fst ` set pend"
    using cmds_pend [OF assms(1)] by force
  show ?thesis using assms fresh
    by (auto simp: cmds_good_def update_fresh nth_append less_Suc_eq)
qed

lemma close_cmds_keeps:
  "close_cmds ks ds = Some cs \<Longrightarrow> k < length ds \<Longrightarrow> ch_closed (cm_chan (ds ! k)) \<Longrightarrow> ch_closed (cm_chan (cs ! k))"
proof (induction ks arbitrary: ds)
  case (Cons j ks)
  let ?ds = "ds[j := (ds ! j)\<lparr>cm_chan := (cm_chan (ds ! j))\<lparr>ch_closed := True\<rparr>\<rparr>]"
  have "close_cmds ks ?ds = Some cs" using Cons.prems(1) by (auto simp: chan_close_def split: if_splits)
  moreover have "ch_closed (cm_chan (?ds ! k))" using Cons.prems(2,3) by (cases "j = k") auto
  ultimately show ?case using Cons.IH Cons.prems(2) by simp
qed simp

lemma cmds_close:
  "cmds_good pend cmds \<Longrightarrow> \<exists>cs. close_cmds (map snd pend) cmds = Some cs \<and> length cs = length cmds
     \<and> cmds_good [] cs \<and> (\<forall>e \<in> set pend. ch_closed (cm_chan (cs ! snd e)))"
proof (induction pend arbitrary: cmds)
  case (Cons e pend)
  obtain i k where e: "e = (i, k)" by fastforce
  have k: "k < length cmds" "i = int k + 1" "cmd_open (cmds ! k)" "cmd_ok k (cmds ! k)"
    using cmds_pend [OF Cons.prems, of i k] by (auto simp: e)
  let ?c = "(cmds ! k)\<lparr>cm_chan := (cm_chan (cmds ! k))\<lparr>ch_closed := True\<rparr>\<rparr>"
  have fresh: "int k + 1 \<notin> fst ` set pend"
    using Cons.prems [unfolded cmds_good_def, THEN conjunct1] k(2) by (simp add: e)
  have "AList.delete (int k + 1) (e # pend) = pend"
    by (simp add: e k(2) delete_fresh [OF fresh])
  moreover have "cmd_ok k ?c" "cmd_settled ?c" using k(4) by (simp_all add: cmd_ok_def cmd_settled_def)
  ultimately have good: "cmds_good pend (cmds[k := ?c])"
    using cmds_update [OF Cons.prems k(1), of ?c pend] by metis
  obtain cs where cs: "close_cmds (map snd pend) (cmds[k := ?c]) = Some cs" "length cs = length cmds"
      "cmds_good [] cs" "\<forall>e \<in> set pend. ch_closed (cm_chan (cs ! snd e))"
    using Cons.IH [OF good] by auto
  from close_cmds_keeps [OF cs(1)] k have "ch_closed (cm_chan (cs ! k))" by simp
  with cs k show ?case by (simp add: e chan_close_def cmd_open_def)
qed (simp add: cmds_good_def)

lemma feeds_sub:
  assumes "feeds_good subs feeds" and "(i, k) \<in> set subs"
  shows "k < length feeds \<and> i = int k + 1 \<and> feed_open (feeds ! k) \<and> feed_ok k (feeds ! k)"
  using assms by (fastforce simp: feeds_good_def)

lemma feeds_update:
  assumes good: "feeds_good subs feeds" and k: "k < length feeds" and ok: "feed_ok k f"
    and subs: "subs' = subs \<and> feed_open f = feed_open (feeds ! k) \<or> subs' = AList.delete (int k + 1) subs \<and> \<not> feed_open f"
  shows "feeds_good subs' (feeds[k := f])"
proof -
  have "distinct (map fst subs')" using good subs by (auto simp: feeds_good_def AList.distinct_delete)
  moreover have "feed_ok j (feeds[k := f] ! j) \<and> ((int j + 1, j) \<in> set subs' \<or> \<not> feed_open (feeds[k := f] ! j))"
    if "j < length feeds" for j
  proof (cases "j = k")
    case True
    have "(int k + 1, k) \<in> set subs \<or> \<not> feed_open (feeds ! k)" using good k by (auto simp: feeds_good_def)
    then show ?thesis using True ok subs k by auto
  next
    case False
    then show ?thesis using good subs that by (auto simp: feeds_good_def)
  qed
  moreover have "snd e < length feeds \<and> fst e = int (snd e) + 1 \<and> feed_open (feeds[k := f] ! snd e)"
    if "e \<in> set subs'" for e
    using feeds_sub [OF good, of "fst e" "snd e"] that subs k by (cases "snd e = k") auto
  ultimately show ?thesis by (simp add: feeds_good_def)
qed

lemma feeds_append:
  assumes "feeds_good subs feeds" and "feed_ok (length feeds) f" and "feed_open f"
  shows "feeds_good (AList.update (int (length feeds) + 1) (length feeds) subs) (feeds @ [f])"
proof -
  have fresh: "int (length feeds) + 1 \<notin> fst ` set subs"
    using feeds_sub [OF assms(1)] by force
  show ?thesis using assms fresh
    by (auto simp: feeds_good_def update_fresh nth_append less_Suc_eq)
qed

lemma feeds_offer:
  "feeds_good subs feeds \<Longrightarrow> set ks \<subseteq> snd ` set subs
     \<Longrightarrow> \<exists>fs. offer_all raw ks feeds = Some fs \<and> length fs = length feeds \<and> feeds_good subs fs"
proof (induction ks arbitrary: feeds)
  case (Cons k ks)
  then obtain i where "(i, k) \<in> set subs" by auto
  then have k: "k < length feeds" "feed_open (feeds ! k)" "feed_ok k (feeds ! k)"
    using feeds_sub [OF Cons.prems(1)] by blast+
  then obtain c where c: "chan_offer raw (fd_chan (feeds ! k)) = Some c"
    by (simp add: chan_offer_def feed_open_def)
  then have "feed_ok k ((feeds ! k)\<lparr>fd_chan := c\<rparr>)" "feed_open ((feeds ! k)\<lparr>fd_chan := c\<rparr>)"
    using k by (auto simp: chan_offer_def feed_open_def feed_ok_def split: if_splits)
  then have "feeds_good subs (feeds[k := (feeds ! k)\<lparr>fd_chan := c\<rparr>])"
    using feeds_update [OF Cons.prems(1) k(1)] k(2) by blast
  from Cons.IH [OF this] Cons.prems(2) c show ?case by auto
qed simp

lemma feeds_close:
  "feeds_good subs feeds \<Longrightarrow> \<exists>fs. close_feeds (map snd subs) feeds = Some fs \<and> length fs = length feeds \<and> feeds_good [] fs"
proof (induction subs arbitrary: feeds)
  case (Cons e subs)
  obtain i k where e: "e = (i, k)" by fastforce
  have k: "k < length feeds" "i = int k + 1" "feed_open (feeds ! k)" "feed_ok k (feeds ! k)"
    using feeds_sub [OF Cons.prems, of i k] by (auto simp: e)
  let ?f = "(feeds ! k)\<lparr>fd_chan := (fd_chan (feeds ! k))\<lparr>ch_closed := True\<rparr>\<rparr>"
  have fresh: "int k + 1 \<notin> fst ` set subs"
    using Cons.prems [unfolded feeds_good_def, THEN conjunct1] k(2) by (simp add: e)
  have "AList.delete (int k + 1) (e # subs) = subs"
    by (simp add: e k(2) delete_fresh [OF fresh])
  moreover have "feed_ok k ?f" "\<not> feed_open ?f" using k(4) by (simp_all add: feed_ok_def feed_open_def)
  ultimately have "feeds_good subs (feeds[k := ?f])"
    using feeds_update [OF Cons.prems k(1), of ?f subs] by metis
  from Cons.IH [OF this] k(3) show ?case by (auto simp: e chan_close_def feed_open_def)
qed (simp add: feeds_good_def)


text \<open>
  The invariant of the hub. Ids are Go \<open>int64\<close>s that count up, so it speaks of hubs that have
  served fewer than \<open>2 ^ 63\<close> requests.
\<close>

definition hub_small :: "hub \<Rightarrow> bool" where
  "hub_small s \<longleftrightarrow> length (hb_cmds s) < 2 ^ 63 \<and> length (hb_feeds s) < 2 ^ 63"

definition hub_good :: "hub \<Rightarrow> bool" where
  "hub_good s \<longleftrightarrow> hb_next_cmd s = int (length (hb_cmds s)) \<and> hb_next_sub s = int (length (hb_feeds s))
     \<and> cmds_good (hb_pending s) (hb_cmds s) \<and> feeds_good (hb_subs s) (hb_feeds s)"

definition hub_inv :: "hub \<Rightarrow> bool" where
  "hub_inv s \<longleftrightarrow> (hub_small s \<longrightarrow> hub_good s)"

lemma good_new: "hub_good new_hub"
  by (simp add: hub_good_def new_hub_def cmds_good_def feeds_good_def)

lemma good_fanout:
  assumes "hub_good s"
  shows "\<exists>fs. fanout raw s = Some (s\<lparr>hb_feeds := fs\<rparr>) \<and> length fs = length (hb_feeds s) \<and> hub_good (s\<lparr>hb_feeds := fs\<rparr>)"
proof -
  obtain fs where "offer_all raw (map snd (hb_subs s)) (hb_feeds s) = Some fs" "length fs = length (hb_feeds s)"
      "feeds_good (hb_subs s) fs"
    using feeds_offer [of "hb_subs s" "hb_feeds s" "map snd (hb_subs s)" raw] assms by (auto simp: hub_good_def)
  then show ?thesis using assms by (auto simp: fanout_def hub_good_def)
qed

lemma good_frame:
  assumes "hub_good s"
  shows "\<exists>t. route_frame now frame s = Some t \<and> hub_good t \<and> length (hb_cmds t) = length (hb_cmds s)
    \<and> length (hb_feeds t) = length (hb_feeds s)"
proof (cases "probe_id frame")
  case None
  let ?s = "s\<lparr>hb_last_frame := now, hb_evt_count := wrap64 (hb_evt_count s + 1)\<rparr>"
  have "hub_good ?s" using assms by (simp add: hub_good_def)
  from good_fanout [OF this, of frame] show ?thesis using None by (auto simp: route_frame_def)
next
  case (Some i)
  show ?thesis
  proof (cases "map_of (hb_pending s) i")
    case None
    then show ?thesis using assms Some by (simp add: route_frame_def hub_good_def)
  next
    case k: (Some k)
    have good: "cmds_good (hb_pending s) (hb_cmds s)" using assms by (simp add: hub_good_def)
    have facts: "k < length (hb_cmds s)" "i = int k + 1" "cmd_open (hb_cmds s ! k)" "cmd_ok k (hb_cmds s ! k)"
      using cmds_pend [OF good map_of_SomeD [OF k]] by auto
    define c where "c = (hb_cmds s ! k)\<lparr>cm_chan := (cm_chan (hb_cmds s ! k))\<lparr>ch_buf := [frame]\<rparr>\<rparr>"
    have "cmd_ok k c" "cmd_settled c"
      using facts Some by (auto simp: c_def cmd_ok_def cmd_settled_def)
    then have "cmds_good (AList.delete i (hb_pending s)) ((hb_cmds s)[k := c])"
      using cmds_update [OF good facts(1)] facts(2) by metis
    moreover have "chan_send frame (cm_chan (hb_cmds s ! k)) = Some (cm_chan c)"
      using facts(3,4) by (simp add: chan_send_def cmd_open_def cmd_ok_def c_def)
    ultimately show ?thesis using assms Some k
      by (simp add: route_frame_def hub_good_def c_def)
  qed
qed

lemma good_shut:
  assumes "hub_good s"
  shows "\<exists>t. shut s = Some t \<and> hub_good t \<and> length (hb_cmds t) = length (hb_cmds s)
    \<and> length (hb_feeds t) = length (hb_feeds s) \<and> hb_pending t = [] \<and> hb_subs t = [] \<and> hb_down t"
proof -
  have good: "cmds_good (hb_pending s) (hb_cmds s)" "feeds_good (hb_subs s) (hb_feeds s)"
    using assms by (simp_all add: hub_good_def)
  from cmds_close [OF good(1)] feeds_close [OF good(2)] show ?thesis
    using assms by (auto simp: shut_def hub_good_def)
qed

lemma good_register:
  assumes "hub_good s" and "hub_small (register_cmd inp origin s)"
  shows "hub_good (register_cmd inp origin s)"
proof -
  have n: "hb_next_cmd s = int (length (hb_cmds s))" using assms(1) by (simp add: hub_good_def)
  have "wrap64 (int (length (hb_cmds s)) + 1) = int (length (hb_cmds s)) + 1"
    using assms(2) by (intro wrap64_id) (simp_all add: hub_small_def register_cmd_def Let_def)
  moreover have "cmds_good (AList.update (int (length (hb_cmds s)) + 1) (length (hb_cmds s)) (hb_pending s))
      (hb_cmds s @ [\<lparr>cm_in = inp, cm_origin = origin, cm_id = int (length (hb_cmds s)) + 1, cm_chan = make_chan 1,
         cm_phase = Registered\<rparr>])"
    using assms(1) by (intro cmds_append)
      (simp_all add: hub_good_def cmd_ok_def cmd_open_def answered_def make_chan_def)
  ultimately show ?thesis using assms(1) n by (simp add: register_cmd_def hub_good_def Let_def)
qed

lemma good_subscribe:
  assumes "hub_good s" and "hub_small (subscribe kind s)"
  shows "hub_good (subscribe kind s)"
proof -
  have n: "hb_next_sub s = int (length (hb_feeds s))" using assms(1) by (simp add: hub_good_def)
  have w: "wrap64 (int (length (hb_feeds s)) + 1) = int (length (hb_feeds s)) + 1"
    using assms(2) by (intro wrap64_id) (simp_all add: hub_small_def subscribe_def Let_def)
  have "feeds_good (AList.update (int (length (hb_feeds s)) + 1) (length (hb_feeds s)) (hb_subs s)) (hb_feeds s @ [f])"
    if "fd_id f = int (length (hb_feeds s)) + 1" "fd_chan f = make_chan 256" "\<not> fd_left f" for f
    using assms(1) that by (intro feeds_append) (simp_all add: hub_good_def feed_ok_def feed_open_def make_chan_def)
  then show ?thesis using assms(1) n w by (simp add: subscribe_def hub_good_def Let_def)
qed

text \<open>A command request that moves on without an answer, and one that is answered.\<close>

lemma good_cmd_phase:
  assumes "hub_good s" and "cmd_at s k ph" and "\<And>r. ph \<noteq> Answered r" and "\<And>r. ph' \<noteq> Answered r"
  shows "hub_good (set_cmd_phase k ph' s)"
proof -
  let ?c = "(hb_cmds s ! k)\<lparr>cm_phase := ph'\<rparr>"
  have k: "k < length (hb_cmds s)" "cm_phase (hb_cmds s ! k) = ph" using assms(2) by (auto simp: cmd_at_def)
  have good: "cmds_good (hb_pending s) (hb_cmds s)" using assms(1) by (simp add: hub_good_def)
  have "cmd_ok k ?c" using good k assms(4) by (auto simp: cmds_good_def cmd_ok_def)
  moreover have "cmd_open ?c = cmd_open (hb_cmds s ! k)"
    using k assms(3,4) by (auto simp: cmd_open_def answered_def split: cmd_phase.splits)
  ultimately have "cmds_good (hb_pending s) ((hb_cmds s)[k := ?c])" using cmds_update [OF good k(1)] by blast
  then show ?thesis using assms(1) by (simp add: set_cmd_phase_def hub_good_def)
qed

lemma good_answered:
  assumes "hub_good s" and "k < length (hb_cmds s)" and "\<forall>x. r \<noteq> Reply 200 x"
  shows "hub_good (set_cmd_phase k (Answered r) (drop_pending (cm_id (hb_cmds s ! k)) s))"
proof -
  let ?c = "(hb_cmds s ! k)\<lparr>cm_phase := Answered r\<rparr>"
  have good: "cmds_good (hb_pending s) (hb_cmds s)" using assms(1) by (simp add: hub_good_def)
  have ok: "cmd_ok k (hb_cmds s ! k)" using good assms(2) by (simp add: cmds_good_def)
  then have "cmd_ok k ?c" "cmd_settled ?c" using assms(3) by (simp_all add: cmd_ok_def cmd_settled_def answered_def)
  then have "cmds_good (AList.delete (int k + 1) (hb_pending s)) ((hb_cmds s)[k := ?c])"
    using cmds_update [OF good assms(2)] by blast
  then show ?thesis using assms(1) ok by (simp add: set_cmd_phase_def drop_pending_def hub_good_def cmd_ok_def)
qed

lemma good_settled:
  assumes "hub_good s" and "k < length (hb_cmds s)" and "cmd_settled (hb_cmds s ! k)"
    and "cmd_ok k c" and "cmd_settled c"
  shows "hub_good (s\<lparr>hb_cmds := (hb_cmds s)[k := c]\<rparr>)"
proof -
  have good: "cmds_good (hb_pending s) (hb_cmds s)" using assms(1) by (simp add: hub_good_def)
  have "cmd_open c = cmd_open (hb_cmds s ! k)" using assms(3,5) by (auto simp: cmd_open_def cmd_settled_def)
  then have "cmds_good (hb_pending s) ((hb_cmds s)[k := c])" using cmds_update [OF good assms(2,4)] by blast
  then show ?thesis using assms(1) by (simp add: hub_good_def)
qed

lemma good_write: "hub_good s \<Longrightarrow> cmd_at s k Registered \<Longrightarrow> hub_good (write_cmd k err s)"
proof (cases err)
  case None
  assume "hub_good s" "cmd_at s k Registered"
  let ?s = "s\<lparr>hb_sent := hb_sent s @ [wire_cmd (cm_id (hb_cmds s ! k)) (ci_method (cm_in (hb_cmds s ! k)))
      (ci_params (cm_in (hb_cmds s ! k))) (ci_session (cm_in (hb_cmds s ! k)))]\<rparr>"
  have "hub_good ?s" "cmd_at ?s k Registered" using \<open>hub_good s\<close> \<open>cmd_at s k Registered\<close>
    by (simp_all add: hub_good_def cmd_at_def)
  from good_cmd_phase [OF this, of Written] None show ?thesis by (simp add: write_cmd_def Let_def)
qed (auto simp: write_cmd_def Let_def cmd_at_def http_error_def intro!: good_answered)

lemma good_echo:
  assumes "hub_good s" and "cmd_at s k Written"
  shows "\<exists>t. echo_cmd k s = Some t \<and> hub_good t \<and> length (hb_cmds t) = length (hb_cmds s)
    \<and> length (hb_feeds t) = length (hb_feeds s)"
proof -
  let ?s = "s\<lparr>hb_cmd_count := wrap64 (hb_cmd_count s + 1)\<rparr>" and ?c = "hb_cmds s ! k"
  have good: "hub_good ?s" using assms(1) by (simp add: hub_good_def)
  show ?thesis
  proof (cases "echo_frame (cm_id ?c) (cm_origin ?c) (ci_method (cm_in ?c)) (ci_params (cm_in ?c)) (ci_session (cm_in ?c))")
    case None
    have "cmd_at ?s k Written" using assms(2) by (simp add: cmd_at_def)
    from good_cmd_phase [OF good this, of Waiting] None show ?thesis
      by (simp add: echo_cmd_def Let_def set_cmd_phase_def)
  next
    case (Some raw)
    obtain fs where fs: "fanout raw ?s = Some (?s\<lparr>hb_feeds := fs\<rparr>)" "length fs = length (hb_feeds s)"
        "hub_good (?s\<lparr>hb_feeds := fs\<rparr>)"
      using good_fanout [OF good, of raw] by auto
    have "cmd_at (?s\<lparr>hb_feeds := fs\<rparr>) k Written" using assms(2) by (simp add: cmd_at_def)
    from good_cmd_phase [OF fs(3) this, of Waiting] Some fs show ?thesis
      by (simp add: echo_cmd_def Let_def set_cmd_phase_def)
  qed
qed

lemma good_receive:
  assumes "hub_good s" and "cmd_at s k Waiting" and "receive_cmd k s = Some t"
  shows "hub_good t"
proof -
  have k: "k < length (hb_cmds s)" using assms(2) by (simp add: cmd_at_def)
  have ok: "cmd_ok k (hb_cmds s ! k)" using assms(1) k by (simp add: hub_good_def cmds_good_def)
  show ?thesis
  proof (cases "ch_buf (cm_chan (hb_cmds s ! k))")
    case Nil
    then have t: "t = set_cmd_phase k (Answered (http_error 502 (error_body ''channel closed before response''))) s"
      and closed: "ch_closed (cm_chan (hb_cmds s ! k))"
      using assms(3) by (auto simp: receive_cmd_def Let_def split: if_splits)
    show ?thesis unfolding t set_cmd_phase_def using assms(1) k closed ok
      by (intro good_settled) (auto simp: cmd_settled_def cmd_ok_def http_error_def)
  next
    case (Cons x r)
    then have t: "t = s\<lparr>hb_cmds := (hb_cmds s)[k := (hb_cmds s ! k)\<lparr>cm_chan := (cm_chan (hb_cmds s ! k))\<lparr>ch_buf := r\<rparr>,
        cm_phase := Answered (Reply 200 x)\<rparr>]\<rparr>"
      using assms(3) by (auto simp: receive_cmd_def Let_def)
    show ?thesis unfolding t using assms(1) k Cons ok
      by (intro good_settled) (auto simp: cmd_settled_def cmd_ok_def answered_def)
  qed
qed

lemma good_leave:
  assumes "hub_good s" and "k < length (hb_feeds s)"
  shows "hub_good (leave_feed k reply s)"
proof -
  let ?f = "(hb_feeds s ! k)\<lparr>fd_done := reply, fd_left := True\<rparr>"
  have good: "feeds_good (hb_subs s) (hb_feeds s)" using assms(1) by (simp add: hub_good_def)
  have ok: "feed_ok k (hb_feeds s ! k)" using good assms(2) by (simp add: feeds_good_def)
  then have "feed_ok k ?f" "\<not> feed_open ?f" by (simp_all add: feed_ok_def feed_open_def)
  then have "feeds_good (AList.delete (int k + 1) (hb_subs s)) ((hb_feeds s)[k := ?f])"
    using feeds_update [OF good assms(2)] by blast
  then show ?thesis using assms(1) ok by (simp add: leave_feed_def hub_good_def feed_ok_def)
qed

lemma good_feed_same:
  assumes "hub_good s" and "k < length (hb_feeds s)" and "feed_ok k f" and "feed_open f = feed_open (hb_feeds s ! k)"
  shows "hub_good (s\<lparr>hb_feeds := (hb_feeds s)[k := f]\<rparr>)"
proof -
  have good: "feeds_good (hb_subs s) (hb_feeds s)" using assms(1) by (simp add: hub_good_def)
  have "feeds_good (hb_subs s) ((hb_feeds s)[k := f])" using feeds_update [OF good assms(2,3)] assms(4) by blast
  then show ?thesis using assms(1) by (simp add: hub_good_def)
qed

lemma good_feed:
  assumes "hub_good s" and "feed_at s k" and "receive_feed k s = Some t"
  shows "hub_good t \<and> length (hb_feeds t) = length (hb_feeds s) \<and> hb_cmds t = hb_cmds s"
proof -
  have k: "k < length (hb_feeds s)" using assms(2) by (simp add: feed_at_def)
  have ok: "feed_ok k (hb_feeds s ! k)" using assms(1) k by (simp add: hub_good_def feeds_good_def)
  let ?f = "hb_feeds s ! k"
  show ?thesis
  proof (cases "ch_buf (fd_chan ?f)")
    case Nil
    then have "t = leave_feed k (case fd_kind ?f of Events \<Rightarrow> None
        | Await sub \<Rightarrow> Some (http_error 502 (error_body ''channel closed''))) s"
      using assms(3) by (auto simp: receive_feed_def Let_def split: if_splits)
    moreover have "hub_good (leave_feed k r s)" for r by (rule good_leave [OF assms(1) k])
    ultimately show ?thesis by (simp add: leave_feed_def)
  next
    case (Cons x r)
    let ?g = "?f\<lparr>fd_chan := (fd_chan ?f)\<lparr>ch_buf := r\<rparr>\<rparr>"
    let ?s = "s\<lparr>hb_feeds := (hb_feeds s)[k := ?g]\<rparr>"
    have good: "hub_good ?s" using assms(1) k ok Cons
      by (intro good_feed_same) (auto simp: feed_ok_def feed_open_def)
    have kg: "k < length (hb_feeds ?s)" "hb_feeds ?s ! k = ?g" using k by simp_all
    show ?thesis
    proof (cases "fd_kind ?f")
      case Events
      have "feed_ok k ((hb_feeds ?s ! k)\<lparr>fd_out := fd_out ?f @ [sse_event x]\<rparr>)"
        "feed_open ((hb_feeds ?s ! k)\<lparr>fd_out := fd_out ?f @ [sse_event x]\<rparr>) = feed_open (hb_feeds ?s ! k)"
        using ok Cons k by (auto simp: feed_ok_def feed_open_def)
      then have "hub_good (?s\<lparr>hb_feeds := (hb_feeds ?s)[k := (hb_feeds ?s ! k)\<lparr>fd_out := fd_out ?f @ [sse_event x]\<rparr>]\<rparr>)"
        by (rule good_feed_same [OF good kg(1)])
      then show ?thesis using assms(3) Cons Events by (auto simp: receive_feed_def Let_def)
    next
      case (Await sub)
      then show ?thesis using assms(3) Cons good good_leave [OF good kg(1)]
        by (auto simp: receive_feed_def Let_def leave_feed_def split: if_splits)
    qed
  qed
qed

lemma offer_all_length: "offer_all raw ks fs = Some fs' \<Longrightarrow> length fs' = length fs"
  by (induction raw ks fs rule: offer_all.induct) (auto split: option.splits)

lemma close_cmds_length: "close_cmds ks cs = Some cs' \<Longrightarrow> length cs' = length cs"
  by (induction ks cs rule: close_cmds.induct) (auto split: option.splits)

lemma close_feeds_length: "close_feeds ks fs = Some fs' \<Longrightarrow> length fs' = length fs"
  by (induction ks fs rule: close_feeds.induct) (auto split: option.splits)

lemmas hub_lengths = offer_all_length close_cmds_length close_feeds_length

lemma hub_step_grows:
  "hub_step s t \<Longrightarrow> length (hb_cmds s) \<le> length (hb_cmds t) \<and> length (hb_feeds s) \<le> length (hb_feeds t)"
proof (induction rule: hub_step.induct)
  case (hub_feed s k t)
  then show ?case
    by (auto simp: receive_feed_def leave_feed_def Let_def split: list.splits feed_kind.splits if_splits)
qed (auto simp: route_frame_def fanout_def shut_def register_cmd_def write_cmd_def echo_cmd_def receive_cmd_def
    timeout_cmd_def subscribe_def leave_feed_def set_cmd_phase_def drop_pending_def Let_def
    dest: hub_lengths split: option.splits list.splits if_splits)

lemma hub_step_good: "hub_step s t \<Longrightarrow> hub_good s \<Longrightarrow> hub_small t \<Longrightarrow> hub_good t"
proof (induction rule: hub_step.induct)
  case (hub_frame s now frame t)
  then show ?case using good_frame [of s now frame] by auto
next
  case (hub_closed s t)
  then show ?case using good_shut [of s] by auto
next
  case (hub_echo s k t)
  then show ?case using good_echo [of s k] by auto
next
  case (hub_timeout s k)
  then show ?case unfolding timeout_cmd_def
    by (intro good_answered) (auto simp: cmd_at_def http_error_def)
next
  case (hub_leave s k sub reply)
  then show ?case by (intro good_leave) (auto simp: feed_at_def)
qed (auto simp: good_register good_subscribe good_write dest: good_receive good_feed)

lemma hub_step_inv: "hub_step s t \<Longrightarrow> hub_inv s \<Longrightarrow> hub_inv t"
  using hub_step_grows [of s t] hub_step_good [of s t] by (auto simp: hub_inv_def hub_small_def)

interpretation hub_machine: machine "\<lambda>s. s = new_hub" hub_step hub_inv
  by unfold_locales (auto simp: hub_inv_def good_new intro: hub_step_inv [unfolded hub_inv_def, rule_format])


section \<open>Properties of the broker\<close>

definition hub_reachable :: "hub \<Rightarrow> bool" where
  "hub_reachable s \<longleftrightarrow> hub_step\<^sup>*\<^sup>* new_hub s \<and> hub_small s"

lemma reachable_good: "hub_reachable s \<Longrightarrow> hub_good s"
  using hub_machine.reachable_inv [OF refl, of s] by (simp add: hub_reachable_def hub_inv_def)

lemma hub_reachable_new: "hub_reachable new_hub"
  by (simp add: hub_reachable_def hub_small_def new_hub_def)

lemma hub_reachable_step: "hub_reachable s \<Longrightarrow> hub_step s t \<Longrightarrow> hub_small t \<Longrightarrow> hub_reachable t"
  by (auto simp: hub_reachable_def)

text \<open>A hub with one command on the wire and one subscriber.\<close>

definition ping_in :: command_in where
  "ping_in = \<lparr>ci_method = ''Page.enable'', ci_params = RawDoc (JObj []), ci_session = []\<rparr>"

definition hub_one :: hub where
  "hub_one = register_cmd ping_in [] (subscribe Events new_hub)"

lemma hub_one_facts:
  "hb_pending hub_one = [(1, 0)]" "hb_subs hub_one = [(1, 0)]" "length (hb_cmds hub_one) = 1"
  "length (hb_feeds hub_one) = 1" "cm_phase (hb_cmds hub_one ! 0) = Registered"
  "cm_id (hb_cmds hub_one ! 0) = 1" "ch_buf (cm_chan (hb_cmds hub_one ! 0)) = []"
  "ch_buf (fd_chan (hb_feeds hub_one ! 0)) = []"
  by (simp_all add: hub_one_def register_cmd_def subscribe_def new_hub_def Let_def wrap64_def make_chan_def)

definition ping_body :: string where
  "ping_body = jprint (JObj [(''method'', JStr ''Page.enable'')])"

lemma ping_body_decodes: "decode_command ping_body = Some ping_in"
  by code_simp

lemma hub_reachable_one: "hub_reachable hub_one"
proof -
  have "hub_step new_hub (subscribe Events new_hub)" by (rule hub_step.hub_subscribe)
  moreover have "hub_step (subscribe Events new_hub) hub_one"
    unfolding hub_one_def by (rule hub_step.hub_command [OF ping_body_decodes])
  ultimately show ?thesis
    using hub_reachable_new by (auto simp: hub_reachable_def hub_small_def hub_one_facts)
qed

text \<open>
  C25. The reader never stalls and never panics: in every reachable state, whatever frame
  arrives, the delivery of a response finds an open channel with room, no fan-out hits a closed
  channel, and the shutdown closes no channel twice.
\<close>

theorem reader_never_stuck:
  assumes "hub_reachable s"
  shows "(\<exists>t. route_frame now frame s = Some t) \<and> (\<exists>t. fanout frame s = Some t) \<and> (\<exists>t. shut s = Some t)"
  using good_frame [OF reachable_good [OF assms]] good_fanout [OF reachable_good [OF assms]]
    good_shut [OF reachable_good [OF assms]] by blast

lemma reader_never_stuck_witness:
  "(\<exists>t. route_frame 5 ''x'' hub_one = Some t) \<and> (\<exists>t. shut hub_one = Some t)"
  using reader_never_stuck [OF hub_reachable_one, of 5 "''x''"] by blast

text \<open>
  C24. Responses are matched: in every reachable state the commands have pairwise different ids,
  and what a client got as the response to its command is a frame that carries the id of this
  very command.
\<close>

theorem responses_match:
  assumes "hub_reachable s" and "k < length (hb_cmds s)"
  shows "cm_id (hb_cmds s ! k) = int k + 1
    \<and> (case cm_phase (hb_cmds s ! k) of
         Answered (Reply code x) \<Rightarrow> code \<noteq> 200 \<or> probe_id x = Some (cm_id (hb_cmds s ! k))
       | _ \<Rightarrow> True)"
proof -
  have "cmd_ok k (hb_cmds s ! k)"
    using reachable_good [OF assms(1)] assms(2) by (simp add: hub_good_def cmds_good_def)
  then show ?thesis by (auto simp: cmd_ok_def split: cmd_phase.split http_reply.split)
qed

lemma responses_match_witness: "cm_id (hb_cmds hub_one ! 0) = int 0 + 1"
  using responses_match [OF hub_reachable_one, of 0] by (simp add: hub_one_facts)

text \<open>
  C26. No waiter is forgotten: a command that waits in a reachable state is either still in the
  pending map, under its own id, or it can take its next step now: the response or the close is
  in its channel.
\<close>

theorem waiting_not_forgotten:
  assumes "hub_reachable s" and "cmd_at s k Waiting"
  shows "map_of (hb_pending s) (cm_id (hb_cmds s ! k)) = Some k \<or> (\<exists>t. receive_cmd k s = Some t)"
proof -
  have good: "cmds_good (hb_pending s) (hb_cmds s)" using reachable_good [OF assms(1)] by (simp add: hub_good_def)
  have k: "k < length (hb_cmds s)" "cm_phase (hb_cmds s ! k) = Waiting" using assms(2) by (auto simp: cmd_at_def)
  from good k(1) have "cmd_ok k (hb_cmds s ! k)" "(int k + 1, k) \<in> set (hb_pending s) \<or> cmd_settled (hb_cmds s ! k)"
    and d: "distinct (map fst (hb_pending s))" by (auto simp: cmds_good_def)
  then show ?thesis
    using k(2) by (auto simp: cmd_ok_def cmd_settled_def answered_def receive_cmd_def Let_def split: list.split)
qed

definition hub_waiting :: hub where
  "hub_waiting = (case echo_cmd 0 (write_cmd 0 None hub_one) of Some t \<Rightarrow> t | None \<Rightarrow> hub_one)"

lemma hub_write_one: "hub_reachable (write_cmd 0 None hub_one)" "cmd_at (write_cmd 0 None hub_one) 0 Written"
proof -
  have "hub_step hub_one (write_cmd 0 None hub_one)"
    by (rule hub_step.hub_write) (simp add: cmd_at_def hub_one_facts)
  then show "hub_reachable (write_cmd 0 None hub_one)"
    by (rule hub_reachable_step [OF hub_reachable_one])
      (simp add: hub_small_def write_cmd_def set_cmd_phase_def Let_def hub_one_facts)
  show "cmd_at (write_cmd 0 None hub_one) 0 Written"
    by (simp add: cmd_at_def write_cmd_def set_cmd_phase_def Let_def hub_one_facts)
qed

lemma hub_waiting_facts: "hub_reachable hub_waiting" "cmd_at hub_waiting 0 Waiting"
proof -
  let ?s = "write_cmd 0 None hub_one"
  obtain t where t: "echo_cmd 0 ?s = Some t" "length (hb_cmds t) = length (hb_cmds ?s)"
      "length (hb_feeds t) = length (hb_feeds ?s)"
    using good_echo [OF reachable_good [OF hub_write_one(1)] hub_write_one(2)] by blast
  then have w: "hub_waiting = t" by (simp add: hub_waiting_def)
  have len: "length (hb_cmds t) = 1" "length (hb_feeds t) = 1"
    using t(2,3) by (simp_all add: write_cmd_def set_cmd_phase_def Let_def hub_one_facts)
  show "hub_reachable hub_waiting"
    unfolding w using hub_step.hub_echo [OF hub_write_one(2) t(1)]
    by (rule hub_reachable_step [OF hub_write_one(1)]) (simp add: hub_small_def len)
  show "cmd_at hub_waiting 0 Waiting"
    using t(1) len unfolding w
    by (auto simp: echo_cmd_def Let_def set_cmd_phase_def cmd_at_def split: option.splits)
qed

lemma waiting_not_forgotten_witness:
  "map_of (hb_pending hub_waiting) (cm_id (hb_cmds hub_waiting ! 0)) = Some 0 \<or> (\<exists>t. receive_cmd 0 hub_waiting = Some t)"
  by (rule waiting_not_forgotten [OF hub_waiting_facts])

text \<open>
  The end of the socket releases everyone: after the reader's shutdown in a reachable state
  both maps are empty, and every command that waited, and every subscriber that had not left,
  can take its next step.
\<close>

theorem shutdown_releases:
  assumes "hub_reachable s" and "shut s = Some t"
  shows "hb_pending t = [] \<and> hb_subs t = []
    \<and> (\<forall>k. \<not> cmd_at t k Waiting \<or> (\<exists>u. receive_cmd k t = Some u))
    \<and> (\<forall>k. \<not> feed_at t k \<or> (\<exists>u. receive_feed k t = Some u))"
proof -
  have t: "hub_good t" "hb_pending t = []" "hb_subs t = []"
    using good_shut [OF reachable_good [OF assms(1)]] assms(2) by auto
  have "\<exists>u. receive_cmd k t = Some u" if "cmd_at t k Waiting" for k
  proof -
    have "cmd_settled (hb_cmds t ! k)" using t that by (auto simp: hub_good_def cmds_good_def cmd_at_def)
    then show ?thesis using that
      by (auto simp: cmd_settled_def answered_def cmd_at_def receive_cmd_def Let_def split: list.split)
  qed
  moreover have "\<exists>u. receive_feed k t = Some u" if "feed_at t k" for k
  proof -
    have "\<not> feed_open (hb_feeds t ! k)" using t that by (auto simp: hub_good_def feeds_good_def feed_at_def)
    then show ?thesis using that
      by (auto simp: feed_open_def feed_at_def receive_feed_def Let_def split: list.split feed_kind.split)
  qed
  ultimately show ?thesis using t by blast
qed

lemma shutdown_releases_witness:
  "\<exists>t. shut hub_waiting = Some t \<and> (\<exists>u. receive_cmd 0 t = Some u)"
proof -
  obtain t where t: "shut hub_waiting = Some t" "length (hb_cmds t) = length (hb_cmds hub_waiting)"
    using good_shut [OF reachable_good [OF hub_waiting_facts(1)]] by blast
  obtain cs where cs: "close_cmds (map snd (hb_pending hub_waiting)) (hb_cmds hub_waiting) = Some cs" "hb_cmds t = cs"
    using t(1) by (auto simp: shut_def split: option.splits)
  have "cm_phase (cs ! k) = cm_phase (ds ! k)" if "close_cmds ks ds = Some cs" for ks ds cs k
    using that
  proof (induction ks arbitrary: ds)
    case (Cons j ks)
    let ?ds = "ds[j := (ds ! j)\<lparr>cm_chan := (cm_chan (ds ! j))\<lparr>ch_closed := True\<rparr>\<rparr>]"
    have "close_cmds ks ?ds = Some cs" using Cons.prems by (auto simp: chan_close_def split: if_splits)
    from Cons.IH [OF this] show ?case by (cases "j = k"; cases "j < length ds") (auto simp: list_update_beyond)
  qed simp
  then have "cmd_at t 0 Waiting" using hub_waiting_facts(2) t(2) cs by (auto simp: cmd_at_def)
  with shutdown_releases [OF hub_waiting_facts(1) t(1)] t(1) show ?thesis by blast
qed

lemma offer_feed:
  "feeds_good subs feeds \<Longrightarrow> set ks \<subseteq> snd ` set subs \<Longrightarrow> distinct ks \<Longrightarrow> offer_all raw ks feeds = Some fs
     \<Longrightarrow> k < length feeds \<Longrightarrow>
     ch_buf (fd_chan (fs ! k)) = ch_buf (fd_chan (feeds ! k))
       @ (if k \<in> set ks \<and> length (ch_buf (fd_chan (feeds ! k))) < 256 then [raw] else [])"
proof (induction ks arbitrary: feeds)
  case (Cons j ks)
  then obtain i where "(i, j) \<in> set subs" by auto
  then have j: "j < length feeds" "feed_open (feeds ! j)" "feed_ok j (feeds ! j)"
    using feeds_sub [OF Cons.prems(1)] by blast+
  then obtain c where offer: "chan_offer raw (fd_chan (feeds ! j)) = Some c"
    by (simp add: chan_offer_def feed_open_def)
  then have c: "ch_buf c = ch_buf (fd_chan (feeds ! j)) @ (if length (ch_buf (fd_chan (feeds ! j))) < 256 then [raw] else [])"
      "ch_closed c = ch_closed (fd_chan (feeds ! j))" "ch_cap c = 256" "length (ch_buf c) \<le> 256"
    using j by (auto simp: chan_offer_def feed_open_def feed_ok_def split: if_splits)
  let ?f = "(feeds ! j)\<lparr>fd_chan := c\<rparr>"
  have "feed_ok j ?f" "feed_open ?f = feed_open (feeds ! j)"
    using j c by (simp_all add: feed_ok_def feed_open_def)
  then have good: "feeds_good subs (feeds[j := ?f])" using feeds_update [OF Cons.prems(1) j(1)] by blast
  have rest: "offer_all raw ks (feeds[j := ?f]) = Some fs" using Cons.prems(4) offer by simp
  have "set ks \<subseteq> snd ` set subs" "distinct ks" "k < length (feeds[j := ?f])" using Cons.prems by auto
  from Cons.IH [OF good this(1,2) rest this(3)] show ?case
    using Cons.prems(3) j(1) c(1) by (cases "j = k") auto
qed simp

text \<open>
  The fan-out in a reachable state: every subscriber in the map whose 256-frame buffer has
  room gets the frame as its last, exactly once; a full one misses it; no other request and no
  command is touched.
\<close>

theorem fanout_spec:
  assumes "hub_reachable s" and "k < length (hb_feeds s)"
  shows "\<exists>fs. fanout raw s = Some (s\<lparr>hb_feeds := fs\<rparr>) \<and> length fs = length (hb_feeds s)
    \<and> ch_buf (fd_chan (fs ! k)) = ch_buf (fd_chan (hb_feeds s ! k))
        @ (if (int k + 1, k) \<in> set (hb_subs s) \<and> length (ch_buf (fd_chan (hb_feeds s ! k))) < 256 then [raw] else [])"
proof -
  have good: "feeds_good (hb_subs s) (hb_feeds s)" using reachable_good [OF assms(1)] by (simp add: hub_good_def)
  obtain fs where fs: "offer_all raw (map snd (hb_subs s)) (hb_feeds s) = Some fs" "length fs = length (hb_feeds s)"
    using feeds_offer [OF good, of "map snd (hb_subs s)" raw] by auto
  have "inj_on snd (set (hb_subs s))"
    using feeds_sub [OF good] by (intro inj_onI) (metis prod.collapse)
  moreover have "distinct (hb_subs s)" using good by (simp add: feeds_good_def distinct_map)
  ultimately have "distinct (map snd (hb_subs s))" by (simp add: distinct_map)
  moreover have "k \<in> snd ` set (hb_subs s) \<longleftrightarrow> (int k + 1, k) \<in> set (hb_subs s)"
    using feeds_sub [OF good] by force
  ultimately show ?thesis
    using offer_feed [OF good _ _ fs(1) assms(2)] fs by (auto simp: fanout_def)
qed

lemma fanout_spec_witness:
  "\<exists>fs. fanout ''e'' hub_one = Some (hub_one\<lparr>hb_feeds := fs\<rparr>) \<and> ch_buf (fd_chan (fs ! 0)) = [''e'']"
  using fanout_spec [OF hub_reachable_one, of 0 "''e''"] by (auto simp: hub_one_facts)


section \<open>Frames\<close>

lemma probe_own: "int64_range i \<Longrightarrow> probe_member acc (''id'', jint i) = Some i"
proof -
  have "field_of [''id''] (unquote_text ''id'') = Some ''id''" by code_simp
  then show "int64_range i \<Longrightarrow> probe_member acc (''id'', jint i) = Some i"
    by (simp add: probe_member_def jint_def parse_dec_int)
qed

lemma wire_names [simp]:
  "probe_member acc (''method'', j) = acc" "probe_member acc (''params'', j) = acc"
  "probe_member acc (''sessionId'', j) = acc" "probe_member acc (''origin'', j) = acc"
  "probe_member acc (''__cmd'', j) = acc"
proof -
  have "field_of [''id''] (unquote_text ''method'') = None" "field_of [''id''] (unquote_text ''params'') = None"
    "field_of [''id''] (unquote_text ''sessionId'') = None" "field_of [''id''] (unquote_text ''origin'') = None"
    "field_of [''id''] (unquote_text ''__cmd'') = None" by code_simp+
  then show "probe_member acc (''method'', j) = acc" "probe_member acc (''params'', j) = acc"
    "probe_member acc (''sessionId'', j) = acc" "probe_member acc (''origin'', j) = acc"
    "probe_member acc (''__cmd'', j) = acc"
    by (simp_all only: probe_member_def fst_conv if_True simp_thms)
qed

lemma parse_obj:
  "\<forall>m \<in> set ms. raw_ok (fst m) \<and> jwf (snd m) \<and> jdepth (snd m) < max_depth
     \<Longrightarrow> parse_json (jprint (JObj ms)) = Some (JObj ms)"
  by (rule parse_jprint) (auto simp: Suc_le_eq less_Suc_eq_le max_depth_def)

lemma wire_names_raw:
  "raw_ok ''id''" "raw_ok ''method''" "raw_ok ''params''" "raw_ok ''sessionId''"
  by code_simp+

text \<open>
  The frame of a command on the wire is one line of JSON that parses back to exactly the id,
  the method and the parameters (compacted), with a \<open>sessionId\<close> exactly when the caller gave one,
  and whose id the hub's own probe reads back: a peer that echoes the id answers this command.
\<close>

theorem wire_cmd_parses:
  assumes "int64_range i" and "jwf j" and "jdepth j < max_depth"
  shows "parse_json (wire_cmd i meth (RawDoc j) sid) =
      Some (JObj ([(''id'', jint i), (''method'', jstring meth), (''params'', html_esc j)]
        @ (if sid \<noteq> [] then [(''sessionId'', jstring sid)] else [])))
    \<and> probe_id (wire_cmd i meth (RawDoc j) sid) = Some i
    \<and> CHR 0x0A \<notin> set (wire_cmd i meth (RawDoc j) sid)"
proof -
  let ?ms = "[(''id'', jint i), (''method'', jstring meth), (''params'', html_esc j)]
        @ (if sid \<noteq> [] then [(''sessionId'', jstring sid)] else [])"
  have wf: "\<forall>m \<in> set ?ms. raw_ok (fst m) \<and> jwf (snd m) \<and> jdepth (snd m) < max_depth"
    using assms wire_names_raw by (auto simp: max_depth_def simp del: raw_ok.simps)
  have wire: "wire_cmd i meth (RawDoc j) sid = jprint (JObj ?ms)" by (simp add: wire_cmd_def raw_json_def)
  have parse: "parse_json (wire_cmd i meth (RawDoc j) sid) = Some (JObj ?ms)"
    unfolding wire by (rule parse_obj [OF wf])
  then have "probe_id (wire_cmd i meth (RawDoc j) sid) = Some i"
    using probe_own [OF assms(1)] by (simp add: probe_id_def)
  moreover have "CHR 0x0A \<notin> set (jprint (JObj ?ms))"
  proof
    have "jwf (JObj ?ms)" using wf by simp
    moreover assume "CHR 0x0A \<in> set (jprint (JObj ?ms))"
    ultimately show False using jprint_printable by fastforce
  qed
  ultimately show ?thesis using parse wire by simp
qed

lemma wire_cmd_parses_witness:
  "probe_id (wire_cmd 7 ''a.b'' (RawDoc (JObj [])) ''s'') = Some 7"
  using wire_cmd_parses [of 7 "JObj []" "''a.b''" "''s''"] by (simp add: int64_range_def max_depth_def)

definition string_id_frame :: string where
  "string_id_frame = jprint (JObj [(''id'', JStr ''e''), (''method'', JStr ''m'')])"

text \<open>
  A frame whose \<open>id\<close> is no integer counts as the response to command 0, which does not exist:
  in every reachable state the reader drops \<open>{"id":"e","method":"m"}\<close>, and no subscriber sees it.
\<close>

theorem string_id_dropped:
  assumes "hub_reachable s"
  shows "route_frame now string_id_frame s = Some (s\<lparr>hb_last_frame := now\<rparr>)"
proof -
  have "probe_id string_id_frame = Some 0" by code_simp
  moreover have "map_of (hb_pending s) 0 = None"
  proof (rule ccontr)
    assume "map_of (hb_pending s) 0 \<noteq> None"
    then obtain k where "(0, k) \<in> set (hb_pending s)" by (auto dest: map_of_SomeD)
    then show False
      using cmds_pend [of "hb_pending s" "hb_cmds s" 0 k] reachable_good [OF assms] by (simp add: hub_good_def)
  qed
  ultimately show ?thesis by (simp add: route_frame_def Let_def)
qed

lemma string_id_dropped_witness: "route_frame 5 string_id_frame hub_one = Some (hub_one\<lparr>hb_last_frame := 5\<rparr>)"
  by (rule string_id_dropped [OF hub_reachable_one])

section \<open>After the shutdown\<close>

lemma offer_keeps_open:
  "offer_all raw ks fs = Some fs' \<Longrightarrow> ch_closed (fd_chan (fs' ! k)) = ch_closed (fd_chan (fs ! k))"
proof (induction ks arbitrary: fs)
  case (Cons j ks)
  then obtain c where "chan_offer raw (fd_chan (fs ! j)) = Some c"
      "offer_all raw ks (fs[j := (fs ! j)\<lparr>fd_chan := c\<rparr>]) = Some fs'"
    by (auto split: option.splits)
  moreover have "ch_closed c = ch_closed (fd_chan (fs ! j))"
    using \<open>chan_offer raw _ = Some c\<close> by (auto simp: chan_offer_def split: if_splits)
  ultimately show ?case using Cons.IH by (cases "j = k"; cases "j < length fs") (auto simp: list_update_beyond)
qed simp

lemma down_step:
  assumes "hub_step s t" and "hb_down s" and "k < length (hb_feeds s)"
  shows "hb_down t \<and> k < length (hb_feeds t) \<and> ch_closed (fd_chan (hb_feeds t ! k)) = ch_closed (fd_chan (hb_feeds s ! k))"
  using assms
proof (cases rule: hub_step.cases)
  case (hub_feed j)
  then have "j < length (hb_feeds s)" by (simp add: feed_at_def)
  with hub_feed assms(2,3) show ?thesis
    by (cases "j = k")
      (auto simp: receive_feed_def leave_feed_def Let_def split: list.splits feed_kind.splits if_splits)
next
  case (hub_leave j sub reply)
  then show ?thesis using assms(2,3) by (cases "j = k") (auto simp: leave_feed_def feed_at_def)
qed (use assms(2,3) in \<open>auto simp: register_cmd_def write_cmd_def echo_cmd_def receive_cmd_def timeout_cmd_def
    subscribe_def set_cmd_phase_def drop_pending_def fanout_def Let_def nth_append offer_keeps_open
    dest: offer_all_length split: option.splits list.splits if_splits\<close>)

text \<open>
  A subscriber that comes after the shutdown is never released: once the reader is gone,
  whatever steps follow, the channel of a subscriber that was still open then is not closed in
  any later state, so its handler waits until the client gives up.
\<close>

theorem late_subscriber_waits:
  assumes "hub_step\<^sup>*\<^sup>* s t" and "hb_down s" and "k < length (hb_feeds s)"
    and "\<not> ch_closed (fd_chan (hb_feeds s ! k))"
  shows "k < length (hb_feeds t) \<and> \<not> ch_closed (fd_chan (hb_feeds t ! k))"
proof -
  have "hb_down t \<and> k < length (hb_feeds t) \<and> \<not> ch_closed (fd_chan (hb_feeds t ! k))"
    using assms by (induction rule: rtranclp_induct) (use down_step in blast)+
  then show ?thesis by blast
qed

definition hub_gone :: hub where
  "hub_gone = new_hub\<lparr>hb_down := True\<rparr>"

lemma late_subscriber_waits_witness:
  "shut new_hub = Some hub_gone \<and> \<not> ch_closed (fd_chan (hb_feeds (subscribe Events (subscribe Events hub_gone)) ! 0))"
proof -
  let ?s = "subscribe Events hub_gone"
  have "hub_step ?s (subscribe Events ?s)" by (rule hub_step.hub_subscribe)
  moreover have "hb_down ?s" "0 < length (hb_feeds ?s)" "\<not> ch_closed (fd_chan (hb_feeds ?s ! 0))"
    by (simp_all add: subscribe_def hub_gone_def new_hub_def make_chan_def Let_def)
  ultimately have "\<not> ch_closed (fd_chan (hb_feeds (subscribe Events ?s) ! 0))"
    using late_subscriber_waits [of ?s "subscribe Events ?s" 0] by auto
  moreover have "shut new_hub = Some hub_gone" by (simp add: shut_def new_hub_def hub_gone_def)
  ultimately show ?thesis by blast
qed

end
