(* ===== verification/Channel_Http.thy ===== *)
theory Channel_Http
  imports Channel Go_Text
begin

text \<open>
  The HTTP side of the broker (\<open>cmd/channel/main.go\<close>): the report of \<open>handleHealth\<close>, the
  receipts that \<open>witnessEvery\<close> puts on every response, and what \<open>main\<close> derives from the URL of
  the channel. \<open>duration_text\<close> is \<open>time.Duration.String\<close>, \<open>round_to\<close> is \<open>Round\<close>, both on
  nanoseconds; \<open>parse_url\<close> is the parser of \<open>net/url\<close>, a parameter.
\<close>

section \<open>Durations\<close>

definition round_to :: "int \<Rightarrow> int \<Rightarrow> int" where
  "round_to d m = (let r = d mod m in if r + r < m then d - r else d + m - r)"

fun pad_digits :: "nat \<Rightarrow> nat \<Rightarrow> string" where
  "pad_digits 0 n = []"
| "pad_digits (Suc k) n = pad_digits k (n div 10) @ [char_of (48 + n mod 10)]"

text \<open>A fraction of \<open>prec\<close> digits without its final zeros, and without its point if it is 0.\<close>

definition frac_text :: "nat \<Rightarrow> nat \<Rightarrow> string" where
  "frac_text n prec =
     (let ds = trim_right_byte (pad_digits prec n) (CHR ''0'') in if ds = [] then [] else CHR ''.'' # ds)"

definition duration_text :: "nat \<Rightarrow> string" where
  "duration_text n =
     (if n = 0 then ''0s''
      else if n < 1000 then dec_nat n @ ''ns''
      else if n < 1000000 then dec_nat (n div 1000) @ frac_text (n mod 1000) 3 @ [CHR 0xC2, CHR 0xB5] @ ''s''
      else if n < 1000000000 then dec_nat (n div 1000000) @ frac_text (n mod 1000000) 6 @ ''ms''
      else
        (let secs = n div 1000000000; frac = frac_text (n mod 1000000000) 9; mins = secs div 60; hours = mins div 60
         in (if hours > 0 then dec_nat hours @ ''h'' else []) @ (if mins > 0 then dec_nat (mins mod 60) @ ''m'' else [])
            @ dec_nat (secs mod 60) @ frac @ ''s''))"

section \<open>Health\<close>

definition ns_per_s :: int where "ns_per_s = 1000000000"

definition ns_per_ms :: int where "ns_per_ms = 1000000"

text \<open>The report at time \<open>now\<close> of a hub that started at \<open>started\<close>; a map is written in key order.\<close>

definition health_json :: "string \<Rightarrow> string \<Rightarrow> int \<Rightarrow> int \<Rightarrow> hub \<Rightarrow> json" where
  "health_json upstream protocol started now s =
     (let n = hb_last_frame s;
          last = (if n > 0 then duration_text (nat (round_to (now - n) ns_per_ms)) @ '' ago'' else ''never'')
      in JObj [(''alive'', JBool True), (''commands'', jint (hb_cmd_count s)), (''events'', jint (hb_evt_count s)),
           (''in_flight'', jint (int (length (hb_pending s)))), (''last_frame'', jstring last),
           (''physics'', jstring ''channel''), (''protocol'', jstring protocol),
           (''subscribers'', jint (int (length (hb_subs s)))), (''upstream'', jstring upstream),
           (''uptime'', jstring (duration_text (nat (round_to (now - started) ns_per_s))))])"

text \<open>\<open>Encoder.Encode\<close> ends the value with a line feed.\<close>

definition handle_health :: "string \<Rightarrow> string \<Rightarrow> int \<Rightarrow> int \<Rightarrow> hub \<Rightarrow> http_reply" where
  "handle_health upstream protocol started now s =
     Reply 200 (jprint (health_json upstream protocol started now s) @ [CHR 0x0A])"

lemma open_iff_pending:
  "cmds_good pend cmds \<Longrightarrow> set pend = (\<lambda>k. (int k + 1, k)) ` {k. k < length cmds \<and> cmd_open (cmds ! k)}"
proof -
  assume good: "cmds_good pend cmds"
  have "e \<in> (\<lambda>k. (int k + 1, k)) ` {k. k < length cmds \<and> cmd_open (cmds ! k)}" if "e \<in> set pend" for e
    using cmds_pend [OF good, of "fst e" "snd e"] that by (intro image_eqI [of _ _ "snd e"]) (auto simp: prod_eq_iff)
  moreover have "(int k + 1, k) \<in> set pend" if "k < length cmds" "cmd_open (cmds ! k)" for k
    using good that by (auto simp: cmds_good_def cmd_open_def cmd_settled_def)
  ultimately show ?thesis by auto
qed

text \<open>
  The \<open>in_flight\<close> of the health report of a reachable hub is the number of commands that have
  neither a response in their channel nor an answer, and the report says \<open>never\<close> exactly while no
  frame was seen.
\<close>

theorem health_counts:
  assumes "hub_reachable s"
  shows "\<exists>ms. health_json upstream protocol started now s = JObj ms
    \<and> map_of ms ''in_flight'' = Some (jint (int (card {k. k < length (hb_cmds s) \<and> cmd_open (hb_cmds s ! k)})))
    \<and> (map_of ms ''last_frame'' = Some (jstring ''never'') \<or> hb_last_frame s > 0)"
proof -
  have good: "cmds_good (hb_pending s) (hb_cmds s)" using reachable_good [OF assms] by (simp add: hub_good_def)
  then have "distinct (hb_pending s)" by (simp add: cmds_good_def distinct_map)
  then have "length (hb_pending s) = card (set (hb_pending s))" by (simp add: distinct_card)
  also have "\<dots> = card {k. k < length (hb_cmds s) \<and> cmd_open (hb_cmds s ! k)}"
    unfolding open_iff_pending [OF good] by (intro card_image inj_onI) simp
  finally show ?thesis by (simp add: health_json_def Let_def)
qed

lemma health_counts_witness:
  "\<exists>ms. health_json ''ws://h'' ''cdp'' 0 1 hub_one = JObj ms \<and> map_of ms ''in_flight'' = Some (jint 1)"
proof -
  have "{k. k < length (hb_cmds hub_one) \<and> cmd_open (hb_cmds hub_one ! k)} = {0}"
    by (auto simp: hub_one_facts cmd_open_def answered_def)
      (simp_all add: hub_one_def register_cmd_def subscribe_def new_hub_def make_chan_def Let_def)
  with health_counts [OF hub_reachable_one, of "''ws://h''" "''cdp''" 0 1] show ?thesis by auto
qed

section \<open>Receipts\<close>

record witness_writer =
  ww_header :: smap
  ww_code :: "int option"
  ww_body :: string
  ww_stamped :: bool
  ww_start :: int

record witness_request =
  wr_actor :: string
  wr_method :: string
  wr_path :: string

definition middle_dot :: string where
  "middle_dot = [CHR 0x20, CHR 0xC2, CHR 0xB7, CHR 0x20]"

definition receipt :: "witness_request \<Rightarrow> int \<Rightarrow> int \<Rightarrow> string" where
  "receipt rq n d =
     ''seen'' @ middle_dot @ ''act #'' @ dec_int n @ middle_dot @ ''channel'' @ middle_dot @ dec_int d @ ''ms''
     @ middle_dot @ wr_method rq @ '' '' @ wr_path rq @ middle_dot @ ''by ''
     @ (if wr_actor rq = [] then ''undeclared'' else wr_actor rq)"

text \<open>\<open>stamp\<close>, with the global sequence number as state.\<close>

definition witness_stamp :: "witness_request \<Rightarrow> int \<Rightarrow> witness_writer \<times> int \<Rightarrow> witness_writer \<times> int" where
  "witness_stamp rq now ws =
     (case ws of
        (w, seq) \<Rightarrow>
          if ww_stamped w then (w, seq)
          else
            (let w1 = w\<lparr>ww_stamped := True\<rparr> in
             if header_get ''X-8-Witness'' (ww_header w1) \<noteq> [] then (w1, seq)
             else
               (let n = wrap64 (seq + 1); d = (now - ww_start w1) div ns_per_ms
                in (w1\<lparr>ww_header := header_set ''X-8-DMs'' (dec_int d)
                      (header_set ''X-8-Ledger-Id'' (dec_int n)
                        (header_set ''X-8-Witness'' (receipt rq n d) (ww_header w1)))\<rparr>, n))))"

datatype writer_op = WriteHeader int | WriteBody string | FlushBody

text \<open>
  The methods of the writer at a time: the status of the first \<open>WriteHeader\<close> counts, a body
  without one is a 200, and only what was set before the first byte reaches the client.
\<close>

fun run_op :: "witness_request \<Rightarrow> writer_op \<times> int \<Rightarrow> witness_writer \<times> int \<Rightarrow> witness_writer \<times> int" where
  "run_op rq (WriteHeader code, now) ws =
     (case witness_stamp rq now ws of
        (w, seq) \<Rightarrow> (if ww_code w = None then w\<lparr>ww_code := Some code\<rparr> else w, seq))"
| "run_op rq (WriteBody b, now) ws =
     (case witness_stamp rq now ws of
        (w, seq) \<Rightarrow> (w\<lparr>ww_code := Some (case ww_code w of None \<Rightarrow> 200 | Some c \<Rightarrow> c), ww_body := ww_body w @ b\<rparr>, seq))"
| "run_op rq (FlushBody, now) ws = ws"

definition is_write :: "writer_op \<times> int \<Rightarrow> bool" where
  "is_write op = (case fst op of FlushBody \<Rightarrow> False | _ \<Rightarrow> True)"

text \<open>\<open>witnessEvery\<close>: the response of a handler that makes these calls.\<close>

definition witness_every ::
  "witness_request \<Rightarrow> int \<Rightarrow> smap \<Rightarrow> (writer_op \<times> int) list \<Rightarrow> int \<Rightarrow> witness_writer \<times> int"
where
  "witness_every rq start header ops seq =
     fold (run_op rq) ops (\<lparr>ww_header = header, ww_code = None, ww_body = [], ww_stamped = False,
        ww_start = start\<rparr>, seq)"

lemma stamped_fold:
  "ww_stamped w \<Longrightarrow> \<exists>w'. fold (run_op rq) ops (w, seq) = (w', seq) \<and> ww_header w' = ww_header w"
proof (induction ops arbitrary: w)
  case (Cons op ops)
  obtain o1 now where op: "op = (o1, now)" by fastforce
  obtain w1 where w1: "run_op rq op (w, seq) = (w1, seq)" "ww_header w1 = ww_header w" "ww_stamped w1"
    using Cons.prems by (cases o1) (auto simp: op witness_stamp_def)
  from Cons.IH [OF w1(3)] w1 show ?case by simp
qed simp

lemma canonical_receipts [simp]:
  "canonical_key ''X-8-Witness'' = ''X-8-Witness''" "canonical_key ''X-8-Ledger-Id'' = ''X-8-Ledger-Id''"
  "canonical_key ''X-8-DMs'' = ''X-8-Dms''"
  by code_simp+

text \<open>
  One receipt per response: if the handler wrote anything, and did not set a witness header
  itself, then exactly one act number was taken, whatever the number of writes, and the headers
  carry the receipt of that act with its number; a handler that only flushes takes none.
\<close>

theorem one_receipt:
  assumes "smap_sorted header" and "header_get ''X-8-Witness'' header = []"
  shows "case witness_every rq start header ops seq of (w, seq') \<Rightarrow>
    if list_ex is_write ops
    then seq' = wrap64 (seq + 1) \<and> header_get ''X-8-Ledger-Id'' (ww_header w) = dec_int seq'
      \<and> (\<exists>d. header_get ''X-8-Witness'' (ww_header w) = receipt rq seq' d)
    else seq' = seq \<and> ww_header w = header"
proof -
  have "case fold (run_op rq) ops (w0, seq) of (w, seq') \<Rightarrow>
    if list_ex is_write ops
    then seq' = wrap64 (seq + 1) \<and> header_get ''X-8-Ledger-Id'' (ww_header w) = dec_int seq'
      \<and> (\<exists>d. header_get ''X-8-Witness'' (ww_header w) = receipt rq seq' d)
    else seq' = seq \<and> ww_header w = header"
    if "\<not> ww_stamped w0" "ww_header w0 = header" for w0
    using that
  proof (induction ops)
    case (Cons op ops)
    obtain o1 now where op: "op = (o1, now)" by fastforce
    show ?case
    proof (cases "is_write op")
      case False
      then have "run_op rq op (w0, seq) = (w0, seq)" by (cases o1) (auto simp: op is_write_def)
      with Cons False show ?thesis by simp
    next
      case True
      let ?n = "wrap64 (seq + 1)" and ?d = "(now - ww_start w0) div ns_per_ms"
      obtain w1 where w1: "run_op rq op (w0, seq) = (w1, ?n)" "ww_stamped w1"
          "ww_header w1 = header_set ''X-8-DMs'' (dec_int ?d) (header_set ''X-8-Ledger-Id'' (dec_int ?n)
             (header_set ''X-8-Witness'' (receipt rq ?n ?d) header))"
        using True Cons.prems assms(2) by (cases o1) (auto simp: op is_write_def witness_stamp_def Let_def)
      obtain w' where "fold (run_op rq) ops (w1, ?n) = (w', ?n)" "ww_header w' = ww_header w1"
        using stamped_fold [OF w1(2)] by blast
      then show ?thesis using True w1 assms(1) by (auto simp: header_set_sorted)
    qed
  qed simp
  then show ?thesis by (simp add: witness_every_def)
qed

lemma one_receipt_witness:
  "snd (witness_every \<lparr>wr_actor = [], wr_method = ''GET'', wr_path = ''/health''\<rparr> 0 []
     [(WriteBody ''a'', 1), (FlushBody, 2), (WriteBody ''b'', 3)] 6) = 7"
  using one_receipt [where header = "[]" and rq = "\<lparr>wr_actor = [], wr_method = ''GET'', wr_path = ''/health''\<rparr>"
      and start = 0 and ops = "[(WriteBody ''a'', 1), (FlushBody, 2), (WriteBody ''b'', 3)]" and seq = 6]
  by (auto simp: smap_sorted_def header_get_def is_write_def wrap64_def split: prod.splits)

section \<open>The held channel\<close>

definition upstream_of :: "(string \<Rightarrow> (string \<times> string) option) \<Rightarrow> string \<Rightarrow> string" where
  "upstream_of parse_url ws =
     (case parse_url ws of
        Some (scheme, host) \<Rightarrow> if host \<noteq> [] then scheme @ ''://'' @ host else []
      | None \<Rightarrow> [])"

definition protocol_of :: "string \<Rightarrow> string" where
  "protocol_of ws =
     (if contains ws ''/devtools/'' then ''cdp'' else if contains ws ''/session/'' then ''bidi'' else [])"

end
