(* ===== verification/Channel_Main.thy ===== *)
theory Channel_Main
  imports Channel_Http Wsx
begin

text \<open>
  \<open>main\<close> of \<open>cmd/channel/main.go\<close>: the channel is dialled with \<open>wsx.Dial\<close>, and only then the hub is made
  and served. The parsers of URLs, the dialler and the random nonce are arguments; the flags, the listener and
  the log are left out, and so is what \<open>ServeMux\<close> answers on other paths than the four.
\<close>

datatype channel_start = NeedsUrl | NotDialled dial_error | Holding string string string hub

definition channel_main ::
  "(string \<Rightarrow> (string \<times> string) option) \<Rightarrow> (string \<Rightarrow> string + parsed_url) \<Rightarrow> (ws_target \<Rightarrow> string + ws_peer)
     \<Rightarrow> string \<Rightarrow> string \<Rightarrow> channel_start"
where
  "channel_main split_url parse_url dial nonce ws =
     (if ws = [] then NeedsUrl
      else
        (case ws_dial parse_url dial nonce ws of
           Failed e closed \<Rightarrow> NotDialled e
         | Established rest \<Rightarrow> Holding rest (upstream_of split_url ws) (protocol_of ws) new_hub))"

datatype channel_handler = Command | EventStream | AwaitEvent | Health

definition channel_mux :: "(string \<times> channel_handler) list" where
  "channel_mux = [(''/command'', Command), (''/events'', EventStream), (''/await'', AwaitEvent), (''/health'', Health)]"

section \<open>Properties\<close>

text \<open>
  The broker serves only a channel that it holds: it has a hub exactly when the handshake of the given URL came to
  its end, and the hub then starts with nothing pending, nobody subscribed and the counters at zero.
\<close>

lemma channel_main_holds:
  "(\<exists>u p h. channel_main split_url parse_url dial nonce ws = Holding rest u p h)
     \<longleftrightarrow> ws \<noteq> [] \<and> dial_with_headers parse_url dial nonce ws [] = Established rest"
  by (auto simp: channel_main_def ws_dial_def split: dial_outcome.splits)

lemma channel_main_hub:
  "channel_main split_url parse_url dial nonce ws = Holding rest u p h
     \<Longrightarrow> hb_pending h = [] \<and> hb_subs h = [] \<and> hb_cmd_count h = 0 \<and> hb_evt_count h = 0 \<and> \<not> hb_down h
       \<and> p \<in> set [''cdp'', ''bidi'', []]"
  by (auto simp: channel_main_def new_hub_def protocol_of_def split: if_splits dial_outcome.splits)

end
