(* ===== verification/Spec2Isabelle.thy ===== *)
theory Spec2Isabelle
  imports Transports Run_Contract Trace Wsx Session Eight Wire Mcp_Server Session_Chain Host Channel_Main
begin

text \<open>
  \<^bold>\<open>http-mcp, the wire.\<close> The program gives an agent two modes of acting: CALL, one HTTP request
  and its answer, and CHANNEL, a WebSocket that stays open. Around these two atoms stand a witness that
  records every call, a broker that holds a channel for several callers, the harvest of route tables and
  their probing on a live server, an MCP server that offers the atoms as tools, and small programs that drive
  them. This development translates that code into definitions that compute, and proves what the parts and
  their compositions promise. A Go string is the list of its bytes.

  \<^bold>\<open>The parts\<close>, each in the theory that models it:

  \<^item> \<open>contract/contract.go\<close>: \<open>Contract\<close>, the version and the compatibility of stamps. Its locale \<open>stamped\<close> is
    what every stamped document promises.
  \<^item> \<open>contract/transports\<close>: \<open>Transports\<close> (\<open>load\<close>, \<open>coherent\<close>). \<open>contract/run\<close>: \<open>Run_Contract\<close> (request, result and their
    stamps). \<open>contract/trace\<close>: \<open>Trace\<close> (\<open>emit\<close> is \<open>Writer.Emit\<close>, \<open>read_trace\<close> is \<open>Read\<close>).
  \<^item> \<open>internal/httpx\<close>: \<open>Httpx\<close>, the CALL atom (\<open>http_do\<close> is \<open>Do\<close>, \<open>apply_auth\<close> is \<open>Auth.Apply\<close>, \<open>unix_scheme\<close>).
  \<^item> \<open>internal/wsx\<close>: \<open>Wsx_Frame\<close> has the frames of the CHANNEL atom (\<open>read_frame\<close>, \<open>read_text\<close>, \<open>write_text\<close>,
    \<open>write_control\<close>, \<open>close_conn\<close> on bytes of type \<open>8 word\<close>), \<open>Sha1\<close> its digest, and \<open>Wsx\<close> its opening
    handshake (\<open>dial_with_headers\<close>, \<open>ws_address\<close>, \<open>accept_key\<close>).
  \<^item> \<open>internal/session\<close>: \<open>Session\<close>, the store of sessions and its supervisor goroutines; \<open>store_step\<close> interleaves
    the critical sections of the code.
  \<^item> \<open>cmd/channel\<close>: \<open>Channel\<close>, the hub, with \<open>hub_step\<close> for the interleaving of its reader, its commands and its
    subscribers; \<open>Channel_Http\<close>, the health report and the receipts; \<open>Channel_Main\<close>, how \<open>main\<close> dials and serves.
  \<^item> \<open>cmd/wire\<close>: \<open>Redact\<close> (the two regular expressions as scanners) and \<open>Wire\<close> (the capture of bodies, one call of
    the handler, the replay log as a step relation, the report to the collector). \<open>internal/host\<close>: \<open>Host\<close>.
  \<^item> \<open>cmd/harvest\<close>: \<open>Routes\<close> and \<open>Harvest\<close>. \<open>internal/probe\<close>: \<open>Probe\<close>.
  \<^item> \<open>auth\<close>: \<open>Auth\<close>, from the name of a profile to its credential.
  \<^item> \<open>cmd/mcp\<close>: \<open>Rpc\<close> is the JSON-RPC loop; \<open>Compose\<close> the composer \<open>become\<close> with its templates; \<open>Mcp_Call\<close> the tool
    \<open>http_request\<close>, through a witness if there is one; \<open>Specs\<close> and \<open>Discover\<close> the tool \<open>discover\<close>; \<open>Bidi\<close> the tool
    \<open>bidi_command\<close>; \<open>Mcp_Tools\<close> the advertised list; \<open>Mcp_Server\<close> puts them together (\<open>mcp_tool\<close>, \<open>mcp_call\<close>,
    \<open>mcp_server\<close>).
  \<^item> \<open>cmd/session\<close>: \<open>Session_Chain\<close>, a WebDriver session as a chain of calls. \<open>cmd/eight\<close> and \<open>cmd/probe\<close>: \<open>Eight\<close>.

  \<^bold>\<open>What they share.\<close> \<open>Wire_Prelude\<close> has Go's functions on strings, the collection \<open>go_strings\<close> and the locale
  \<open>machine\<close> (an initial state, steps and an invariant; reachable states have it). \<open>Json\<close>, \<open>Json_Text\<close>, \<open>Json_Struct\<close>,
  \<open>Json_Indent\<close> and \<open>Json_Sound\<close> are \<open>encoding/json\<close> as far as the program passes through it: the parser, the
  printer, quoting, structs with their tags, indentation, and the facts that parsing inverts printing and that
  whatever is parsed prints again. \<open>Value\<close> is Go's \<open>any\<close>. \<open>Go_Text\<close>, \<open>Go_Path\<close> and \<open>Url_Query\<close> are base64, the rounding of
  durations, \<open>path/filepath\<close> and the query of a URL.

  \<^bold>\<open>Interfaces.\<close> Each locale is interpreted on the definitions of the code: \<open>machine\<close> on the session store, the hub
  and the replay log (\<open>store_machine\<close>, \<open>hub_machine\<close>, \<open>replay_machine\<close>); \<open>stamped\<close> on run requests, run results and
  frames (\<open>run_req\<close>, \<open>run_res\<close>, \<open>frame_stamp\<close>); \<open>line_codec\<close> on the trace (\<open>ndjson\<close>); \<open>unix_form\<close> on the addresses of
  both atoms (\<open>http_unix\<close>, \<open>ws_unix\<close>); \<open>message_stream\<close> on the frames of a channel (\<open>ws\<close>); \<open>dict\<close> on Go maps
  (\<open>go_map\<close>). Routes are an instance of \<open>linorder\<close>.

  \<^bold>\<open>Effects.\<close> The network, the disk, the clock and other programs are arguments: functions on a state of the
  world of any type where their order matters, so that a theorem about the requests that are made is one about
  that state. Concurrent parts are step relations whose steps are the critical sections of the source. Errors
  are values; a Go panic is \<open>Inl\<close> of a sum or \<open>None\<close>, as the theory says, and a theorem that speaks of a result says
  when there is one.

  \<^bold>\<open>What is shown.\<close>

  \<^item> Channels: texts arrive whole and in order under every mask; \<open>ReadText\<close> refines the reading of a run of
    frames; a channel is only established against the digest of the key that was sent; a length that cannot be
    allocated is a panic.
  \<^item> The broker: a response goes to the command with its id and to no other, the reader never blocks, a waiting
    command is pending or can go on.
  \<^item> The store: a session that is tracked is live and supervised, in every interleaving.
  \<^item> The wire: it passes a call through unchanged, what it records does not depend on the secrets in it, its replay
    log has whole lines with unique numbers, and \<open>/host\<close> is answered locally.
  \<^item> Harvest and probe: files are only added, what is written is read back as the same routes, the report
    has every route once and its tally counts them.
  \<^item> The MCP server: each line that asks for an answer gets one, in order, with its id, and what is written is
    one document on one line; a later step of a recipe reads what an earlier one returned; an error of a channel
    command does not show the credential; \<open>discover\<close> makes only the requests it says; recipes return, unless they
    call themselves.
  \<^item> The contract: traces are read back as they were written, up to the limit of the reader; the table
    of transports is accepted exactly when it is honest.
  \<^item> The small programs: the id that the server gives threads through the whole chain of a session, whose deletion
    is its last call; the dispatcher passes arguments and exit status through.

  \<^bold>\<open>Bounds and fuel.\<close> The JSON parser has the fuel \<open>2 * length s + 2\<close>, and \<open>json_fuel_enough\<close> shows that more changes
  nothing; \<open>max_depth\<close> is Go's nesting limit of 10000. The nesting of \<open>become\<close> is bounded by an argument of
  \<open>call_tool\<close>: \<open>call_tool_deeper\<close> shows that a larger bound never changes a result, \<open>call_recipe_returns\<close> that one level is enough for
  recipes without compositions, and \<open>become_diverges\<close> that some recipes have no bound. \<open>max_token\<close> is the 8 MiB of the scanner of traces.
  Lengths in frames are 64-bit words; \<open>alloc\<close> is the longest slice the runtime makes. The numbers of the hub and of
  the replay log stay below \<open>2 ^ 63\<close> (\<open>hub_small\<close> and the hypothesis of the replay log), where \<open>int64\<close> does not wrap.

  \<^bold>\<open>Not modelled.\<close> The parsing of flags, listening sockets, logging and console output; real time (a deadline is a step that
  may be taken whenever its goroutine waits, or an argument, so the values of \<open>timeout_ms\<close> are not parsed by the
  broker); the parser of \<open>net/url\<close>, the conversion of floating-point numbers, TLS, the reverse
  proxy and gzip, which are parameters; what \<open>ServeMux\<close> answers on unknown paths. In \<open>Bidi\<close>, the bytes that a peer
  delivers before the deadline are a function of the command that was written to it.
\<close>

text \<open>
  C20. What the harvest writes is what the probe reads: when a snapshot of routes is written to a file
  that was not there, any walk that meets that file lists all its routes, each claimed by that file.
\<close>

theorem harvest_feeds_probe:
  assumes "fs (specs_path rel) = None" and "list_all route_utf8 routes"
    and "e \<in> set walk" and "is_table e"
    and "we_content e = write_snapshot today rel source version routes fs (specs_path rel)"
    and "r \<in> set routes"
  shows "\<exists>stems. map_of (union_routes walk) r = Some stems \<and> trim_suffix (we_name e) ''.json'' \<in> set stems"
proof -
  have "read_table (we_content e) = routes"
    using assms(1,2,5) read_table_snapshot by (simp add: write_snapshot_def snapshot_utf8_def)
  then have m: "trim_suffix (we_name e) ''.json'' \<in> set (claimants walk r)"
    using assms(3,4,6) by (force simp: claimants_def)
  then have "claimants walk r \<noteq> []" by auto
  with m show ?thesis
    using claims_ok_map_of [OF union_routes_ok(1) [of walk], of r] by (simp add: union_routes_ok)
qed

text \<open>An empty disk, and a walk that meets the file that is then written.\<close>

definition fresh_entry :: walk_entry where
  "fresh_entry = \<lparr>we_dirs = [''specs''], we_name = ''w@1.json'', we_failed = False, we_is_dir = False,
     we_content = write_snapshot ''2026-01-01'' ''w@1.json'' ''s'' ''1'' [Route ''GET'' ''/status''] Map.empty
       (specs_path ''w@1.json'')\<rparr>"

theorem harvest_feeds_probe_witness:
  "\<exists>stems. map_of (union_routes [fresh_entry]) (Route ''GET'' ''/status'') = Some stems \<and> ''w@1'' \<in> set stems"
proof -
  have "list_all route_utf8 [Route ''GET'' ''/status'']" "is_table fresh_entry"
    "trim_suffix (we_name fresh_entry) ''.json'' = ''w@1''" by code_simp+
  with harvest_feeds_probe [of Map.empty "''w@1.json''" "[Route ''GET'' ''/status'']" fresh_entry "[fresh_entry]"
      "''2026-01-01''" "''s''" "''1''" "Route ''GET'' ''/status''"]
  show ?thesis by (simp add: fresh_entry_def)
qed


definition demo_stats :: host_stats where
  "demo_stats = \<lparr>ht_os = ''linux'', ht_arch = ''amd64'', ht_cpus = 8, ht_goroutines = 3, ht_alloc = 3000000, ht_sys = 9000000\<rparr>"


end
